(* ===== verification/VS_Prelude.thy ===== *)
theory VS_Prelude
  imports Main "HOL-Library.Word" "HOL-Library.Finite_Map" "HOL-Library.List_Lexorder"
begin

text \<open>
  Shared vocabulary of the development: the machine integers and byte strings of the Rust sources,
  the 32-byte hash type \<open>H256\<close> (event ids and block hashes), the two collection types of the standard
  library the code uses (\<open>HashMap\<close> and \<open>BTreeMap\<close>, both finite maps here) and the generic lemmas on
  lists, finite maps and cardinalities that the component theories share.
  The collections \<open>vs_simps\<close> and \<open>vs_defs\<close> gather the rewrite rules component proofs rely on.
\<close>

named_theorems vs_simps \<open>rewrite rules shared by the component proofs\<close>
named_theorems vs_defs \<open>definitions the component proofs unfold\<close>

section \<open>Machine integers and bytes\<close>

type_synonym u8 = "8 word"
type_synonym u16 = "16 word"
type_synonym i16 = "16 word"
type_synonym u32 = "32 word"
type_synonym u64 = "64 word"
type_synonym u128 = "128 word"
type_synonym bytes = "u8 list"

text \<open>
  \<open>n as u16\<close> on a \<open>usize\<close>: the low sixteen bits.
\<close>

definition as_u16 :: "nat \<Rightarrow> u16" where
  "as_u16 n = of_nat n"

lemma unat_as_u16: "unat (as_u16 n) = n mod 65536"
  by (simp add: as_u16_def unat_of_nat)

lemma unat_as_u16_small [simp]: "n < 65536 \<Longrightarrow> unat (as_u16 n) = n"
  by (simp add: unat_as_u16)

lemma as_u16_less_iff:
  "m < 65536 \<Longrightarrow> n < 65536 \<Longrightarrow> as_u16 m < as_u16 n \<longleftrightarrow> m < n"
  by (simp add: word_less_nat_alt)

lemma as_u16_le_iff:
  "m < 65536 \<Longrightarrow> n < 65536 \<Longrightarrow> as_u16 m \<le> as_u16 n \<longleftrightarrow> m \<le> n"
  by (simp add: word_le_nat_alt)

section \<open>H256: arrays of 32 bytes\<close>

typedef h256 = "{bs :: bytes. length bs = 32}"
  morphisms as_bytes h256_of_bytes
proof
  show "replicate 32 0 \<in> {bs :: bytes. length bs = 32}" by simp
qed

definition repeat_byte :: "u8 \<Rightarrow> h256" where
  "repeat_byte b = h256_of_bytes (replicate 32 b)"

instantiation h256 :: equal
begin

definition equal_h256 :: "h256 \<Rightarrow> h256 \<Rightarrow> bool" where
  "equal_h256 a b \<longleftrightarrow> as_bytes a = as_bytes b"

instance
  by standard (simp add: equal_h256_def as_bytes_inject)

end

text \<open>
  \<open>H256::from_slice\<close> panics unless it is given exactly 32 bytes; \<open>None\<close> stands for the panic.
\<close>

definition h256_from_slice :: "bytes \<Rightarrow> h256 option" where
  "h256_from_slice bs = (if length bs = 32 then Some (h256_of_bytes bs) else None)"

lemma length_as_bytes [simp]: "length (as_bytes h) = 32"
  using as_bytes [of h] by simp

lemma as_bytes_eq_iff [simp]: "as_bytes a = as_bytes b \<longleftrightarrow> a = b"
  by (simp add: as_bytes_inject)

lemma as_bytes_repeat_byte [simp]: "as_bytes (repeat_byte b) = replicate 32 b"
  by (simp add: repeat_byte_def h256_of_bytes_inverse)

lemma repeat_byte_eq_iff [simp]: "repeat_byte a = repeat_byte b \<longleftrightarrow> a = b"
proof
  assume "repeat_byte a = repeat_byte b"
  then have "replicate 32 a = replicate 32 b"
    by (metis as_bytes_repeat_byte)
  then show "a = b" by simp
qed simp

lemma h256_from_slice_as_bytes [simp]: "h256_from_slice (as_bytes h) = Some h"
  by (simp add: h256_from_slice_def as_bytes_inverse)

lemma h256_from_slice_Some:
  "h256_from_slice bs = Some h \<longleftrightarrow> length bs = 32 \<and> as_bytes h = bs"
  by (auto simp: h256_from_slice_def h256_of_bytes_inverse as_bytes_inverse)

lemma as_bytes_append_eq_iff:
  "as_bytes a @ xs = as_bytes b @ ys \<longleftrightarrow> a = b \<and> xs = ys"
  by auto

text \<open>
  Hashes are ordered by their bytes.
\<close>

instantiation h256 :: linorder
begin

definition less_eq_h256 :: "h256 \<Rightarrow> h256 \<Rightarrow> bool" where
  "less_eq_h256 a b \<longleftrightarrow> as_bytes a \<le> as_bytes b"

definition less_h256 :: "h256 \<Rightarrow> h256 \<Rightarrow> bool" where
  "less_h256 a b \<longleftrightarrow> as_bytes a < as_bytes b"

instance
  by standard (auto simp: less_eq_h256_def less_h256_def less_le)

end

section \<open>Lists and cardinalities\<close>

lemma filter_length_card:
  assumes "distinct xs"
  shows "length (filter P xs) = card {x \<in> set xs. P x}"
proof -
  have "length (filter P xs) = card (set (filter P xs))"
    by (rule distinct_card [symmetric]) (simp add: assms)
  also have "set (filter P xs) = {x \<in> set xs. P x}"
    by auto
  finally show ?thesis .
qed

lemma filter_length_ge_card:
  "card {x \<in> set xs. P x} \<le> length (filter P xs)"
proof -
  have "{x \<in> set xs. P x} = set (filter P xs)" by auto
  then show ?thesis by (simp only: card_length)
qed

lemma card_inter_ge:
  assumes "finite E" and "S \<subseteq> E" and "T \<subseteq> E"
  shows "card S + card T \<le> card E + card (S \<inter> T)"
proof -
  have fin: "finite S" "finite T"
    using assms by (auto intro: finite_subset)
  have "card S + card T = card (S \<union> T) + card (S \<inter> T)"
    by (rule card_Un_Int [OF fin])
  also have "card (S \<union> T) \<le> card E"
    using assms by (intro card_mono) auto
  finally show ?thesis by simp
qed

section \<open>HashMap and BTreeMap\<close>

text \<open>
  A \<open>HashMap\<close> is a finite map. Collecting an iterator of pairs inserts them one after the other, so a
  later pair with the same key replaces an earlier one.
\<close>

definition hm_len :: "('k, 'v) fmap \<Rightarrow> nat" where
  "hm_len m = fcard (fmdom m)"

definition hm_collect :: "('k \<times> 'v) list \<Rightarrow> ('k, 'v) fmap" where
  "hm_collect kvs = foldl (\<lambda>m (k, v). fmupd k v m) fmempty kvs"

lemma hm_len_card: "hm_len m = card (fset (fmdom m))"
  by (simp add: hm_len_def fcard.rep_eq)

lemma hm_len_empty [simp]: "hm_len fmempty = 0"
  by (simp add: hm_len_def)

lemma hm_collect_foldl:
  "fmlookup (foldl (\<lambda>m (k, v). fmupd k v m) m0 kvs) k =
     (case map_of (rev kvs) k of None \<Rightarrow> fmlookup m0 k | Some v \<Rightarrow> Some v)"
  by (induction kvs arbitrary: m0) (auto simp: map_add_def split: option.splits prod.splits)

lemma fmlookup_hm_collect: "fmlookup (hm_collect kvs) k = map_of (rev kvs) k"
  by (simp add: hm_collect_def hm_collect_foldl split: option.split)

lemma fmlookup_hm_collect_fun:
  "fmlookup (hm_collect (List.map_filter (\<lambda>k. map_option (Pair k) (f k)) ks)) k =
     (if k \<in> set ks then f k else None)"
proof -
  have "map_of (rev (List.map_filter (\<lambda>k. map_option (Pair k) (f k)) ks)) k =
      (if k \<in> set ks then f k else None)"
    by (induction ks) (auto simp: List.map_filter_simps map_add_def split: option.splits if_splits)
  then show ?thesis by (simp add: fmlookup_hm_collect)
qed

lemma fset_fmdom: "fset (fmdom m) = {k. fmlookup m k \<noteq> None}"
  by (auto simp: fmlookup_dom_iff)

lemma fmlookup_fmfilter_set:
  "fmlookup (fmfilter (\<lambda>k. k \<in> S) m) k = (if k \<in> S then fmlookup m k else None)"
  by simp

lemma hm_len_le_restricted:
  assumes "\<And>k. fmlookup m k = (if k \<in> set vs then f k else None)"
  shows "hm_len m = card {k \<in> set vs. f k \<noteq> None}" and "hm_len m \<le> length vs"
proof -
  have dom: "fset (fmdom m) = {k \<in> set vs. f k \<noteq> None}"
    using assms by (auto simp: fset_fmdom split: if_splits)
  then show len: "hm_len m = card {k \<in> set vs. f k \<noteq> None}" by (simp add: hm_len_card)
  have "card {k \<in> set vs. f k \<noteq> None} \<le> card (set vs)" by (intro card_mono) auto
  then show "hm_len m \<le> length vs" using len card_length [of vs] by linarith
qed

lemma map_sum_eq_Inr: "map_sum f g s = Inr y \<longleftrightarrow> (\<exists>x. s = Inr x \<and> y = g x)"
  by (cases s) auto

lemma upt_append: "i \<le> j \<Longrightarrow> j \<le> k \<Longrightarrow> [i..<j] @ [j..<k] = [i..<k]"
  by (metis le_Suc_ex upt_add_eq_append)

end
