(* ===== verification/VS_Errors.thy ===== *)
theory VS_Errors
  imports VS_Prelude
begin

text \<open>
  The error type of the consensus crate (\<open>src/consensus/src/errors.rs\<close>): its constructors, the
  \<open>Display\<close> texts that the gRPC server and the block import hand to their callers, and the \<open>From\<close>
  conversions the \<open>?\<close> operator inserts. A foreign error is known only by its own display text, so a
  conversion takes that text.

  Every fallible operation of the model returns \<open>'a vs_result\<close>: \<open>Inl (Err e)\<close> where the code returns
  \<open>Err e\<close>, \<open>Inl (Panic m)\<close> where it panics (an \<open>unwrap\<close> on a failure), \<open>Inl Diverge\<close> where one of
  its loops never ends and \<open>Inr x\<close> where it returns \<open>Ok x\<close>.
\<close>

datatype error =
    LockFail string
  | BadWitnessedEventSignature string
  | SerilizationFailure string
  | SigningFailure string
  | Database string
  | NotAValidator
  | Other string

fun error_to_string :: "error \<Rightarrow> string" where
  "error_to_string (LockFail r) = ''Failed locking resource '' @ r"
| "error_to_string (BadWitnessedEventSignature source) =
     ''Received bad witnessed event signature from '' @ source"
| "error_to_string (SerilizationFailure reason) = ''Serialization failed due to '' @ reason"
| "error_to_string (SigningFailure reason) = ''Signing failed due to '' @ reason"
| "error_to_string (Database reason) = ''Database error, '' @ reason"
| "error_to_string NotAValidator = ''Not a validator''"
| "error_to_string (Other reason) = reason"

definition error_from_bincode :: "string \<Rightarrow> error" where
  [vs_defs]: "error_from_bincode e = SerilizationFailure e"

definition error_from_keystore :: "string \<Rightarrow> error" where
  [vs_defs]: "error_from_keystore e = SigningFailure e"

definition error_from_api :: "string \<Rightarrow> error" where
  [vs_defs]: "error_from_api e = Other e"

definition error_from_poison :: "string \<Rightarrow> error" where
  [vs_defs]: "error_from_poison e = LockFail (''PoisonError: '' @ e)"

definition error_from_rocksdb :: "string \<Rightarrow> error" where
  [vs_defs]: "error_from_rocksdb e = Database e"

datatype failure = Err error | Panic string | Diverge

type_synonym 'a vs_result = "failure + 'a"

text \<open>
  The \<open>?\<close> operator: stop at the first failure, go on with the value otherwise.
\<close>

definition and_then :: "'a vs_result \<Rightarrow> ('a \<Rightarrow> 'b vs_result) \<Rightarrow> 'b vs_result" where
  "and_then r f = (case r of Inl e \<Rightarrow> Inl e | Inr x \<Rightarrow> f x)"

lemma and_then_Inl [simp]: "and_then (Inl e) f = Inl e"
  and and_then_Inr [simp]: "and_then (Inr x) f = f x"
  by (simp_all add: and_then_def)

lemma and_then_eq_Inr:
  "and_then r f = Inr y \<longleftrightarrow> (\<exists>x. r = Inr x \<and> f x = Inr y)"
  by (cases r) simp_all

text \<open>
  \<open>unwrap\<close> on a \<open>Result\<close> (an error panics) and \<open>?\<close> on a foreign \<open>Result\<close> whose error text is
  converted by \<open>conv\<close>.
\<close>

definition unwrap :: "string + 'a \<Rightarrow> 'a vs_result" where
  "unwrap r = (case r of Inl e \<Rightarrow> Inl (Panic e) | Inr x \<Rightarrow> Inr x)"

definition question :: "(string \<Rightarrow> error) \<Rightarrow> string + 'a \<Rightarrow> 'a vs_result" where
  "question conv r = (case r of Inl e \<Rightarrow> Inl (Err (conv e)) | Inr x \<Rightarrow> Inr x)"

text \<open>
  \<open>no_panic r\<close>: \<open>r\<close> is a value or an error the code returns, not a panic and not an endless loop.
\<close>

fun no_panic :: "'a vs_result \<Rightarrow> bool" where
  "no_panic (Inr x) = True"
| "no_panic (Inl (Err e)) = True"
| "no_panic (Inl f) = False"

lemma no_panic_and_then [simp]:
  "no_panic (and_then r f) \<longleftrightarrow> no_panic r \<and> (\<forall>x. r = Inr x \<longrightarrow> no_panic (f x))"
  by (cases r rule: no_panic.cases) simp_all

lemma no_panic_question [simp]: "no_panic (question conv r)"
  by (simp add: question_def split: sum.split)

lemma no_panic_Inl_iff: "no_panic (Inl f) \<longleftrightarrow> (\<exists>e. f = Err e)"
  by (cases f) simp_all

lemma unwrap_Inr [simp]: "unwrap (Inr x) = Inr x"
  and unwrap_Inl [simp]: "unwrap (Inl e) = Inl (Panic e)"
  and question_Inr [simp]: "question conv (Inr x) = Inr x"
  and question_Inl [simp]: "question conv (Inl e) = Inl (Err (conv e))"
  by (simp_all add: unwrap_def question_def)

end
