(* ===== verification/Event_Proofs.thy ===== *)
theory Event_Proofs
  imports VS_Errors
begin

text \<open>
  The storage of event proofs as its users see it (\<open>src/consensus/src/proofs/mod.rs\<close>): the record
  \<open>WitnessedEvent\<close>, the trait \<open>EventProofsTrait\<close> as the locale \<open>event_proofs_trait\<close>, and the trait's default
  \<open>get_event_proof_count\<close>. The three implementations are in \<open>In_Memory_Proofs\<close>, \<open>Offchain_Proofs\<close> and
  \<open>RocksDb_Proofs\<close>, each with its interpretation of the locale. The serialization crate is a parameter:
  the record \<open>bincode\<close> of the functions the code calls, with the laws \<open>bincode_laws\<close>.
\<close>

section \<open>Data\<close>

text \<open>
  \<open>CryptoTypePublicPair\<close>: the identifier of a crypto system and a raw public key.
\<close>

datatype crypto_pair = CryptoTypePublicPair (crypto_type_id: bytes) (raw_public: bytes)

record witnessed_event =
  we_signature :: bytes
  we_pub_key :: crypto_pair
  we_event_id :: h256

type_synonym proofs_map = "(crypto_pair, bytes) fmap"

section \<open>Serialization\<close>

record bincode =
  ser_pair :: "crypto_pair \<Rightarrow> string + bytes"
  de_pair :: "bytes \<Rightarrow> string + crypto_pair"
  ser_pairs :: "crypto_pair list \<Rightarrow> string + bytes"
  de_pairs :: "bytes \<Rightarrow> string + crypto_pair list"
  ser_event :: "witnessed_event \<Rightarrow> string + bytes"
  de_event :: "bytes \<Rightarrow> string + witnessed_event"

text \<open>
  What the code relies on: serializing these in-memory values succeeds, deserializing gives the value
  back, and a serialized key is not empty (it starts with the crypto system's identifier).
\<close>

definition bincode_laws :: "bincode \<Rightarrow> bool" where
  "bincode_laws bc \<longleftrightarrow>
     (\<forall>k. \<exists>b. ser_pair bc k = Inr b \<and> b \<noteq> [] \<and> de_pair bc b = Inr k) \<and>
     (\<forall>ks. \<exists>b. ser_pairs bc ks = Inr b \<and> de_pairs bc b = Inr ks) \<and>
     (\<forall>w. \<exists>b. ser_event bc w = Inr b \<and> de_event bc b = Inr w)"

lemma bincode_pairE:
  assumes "bincode_laws bc"
  obtains b where "ser_pair bc k = Inr b" and "b \<noteq> []" and "de_pair bc b = Inr k"
  using assms unfolding bincode_laws_def by blast

lemma bincode_pairsE:
  assumes "bincode_laws bc"
  obtains b where "ser_pairs bc ks = Inr b" and "de_pairs bc b = Inr ks"
  using assms unfolding bincode_laws_def by blast

lemma bincode_eventE:
  assumes "bincode_laws bc"
  obtains b where "ser_event bc w = Inr b" and "de_event bc b = Inr w"
  using assms unfolding bincode_laws_def by blast

lemma ser_pair_inj:
  assumes "bincode_laws bc" and "ser_pair bc k = Inr b" and "ser_pair bc k' = Inr b"
  shows "k = k'"
  using assms by (metis bincode_pairE sum.inject(2))

text \<open>
  The database key of a proof, \<open>[event_id.as_ref(), &bincode::serialize(pub_key)].concat()\<close>.
\<close>

definition proof_key :: "bincode \<Rightarrow> h256 \<Rightarrow> crypto_pair \<Rightarrow> string + bytes" where
  "proof_key bc e k = map_sum id (\<lambda>b. as_bytes e @ b) (ser_pair bc k)"

lemma proof_keyE:
  assumes "bincode_laws bc"
  obtains b where "proof_key bc e k = Inr (as_bytes e @ b)" and "ser_pair bc k = Inr b"
    and "b \<noteq> []" and "de_pair bc b = Inr k"
  using bincode_pairE [OF assms, of k] by (auto simp: proof_key_def)

lemma proof_key_inj:
  assumes "bincode_laws bc" and "proof_key bc e k = Inr b" and "proof_key bc e' k' = Inr b"
  shows "e = e' \<and> k = k'"
proof -
  obtain kb where kb: "ser_pair bc k = Inr kb" and b: "b = as_bytes e @ kb"
    using assms(1,2) by (metis Inr_inject proof_keyE)
  obtain kb' where kb': "ser_pair bc k' = Inr kb'" and b': "b = as_bytes e' @ kb'"
    using assms(1,3) by (metis Inr_inject proof_keyE)
  from b b' have "e = e'" and "kb = kb'" by auto
  with kb kb' show ?thesis using ser_pair_inj [OF assms(1)] by auto
qed

lemma proof_key_not_event:
  assumes "bincode_laws bc" and "proof_key bc e k = Inr b"
  shows "b \<noteq> as_bytes e'"
proof
  assume "b = as_bytes e'"
  moreover obtain kb where "b = as_bytes e @ kb" and "kb \<noteq> []"
    using assms by (metis Inr_inject proof_keyE)
  ultimately have "length (as_bytes e') = length (as_bytes e @ kb)" by simp
  with \<open>kb \<noteq> []\<close> show False by simp
qed

section \<open>The trait\<close>

text \<open>
  The default \<open>get_event_proof_count\<close> of the trait: the size of the map \<open>get_event_proofs\<close> returns,
  cast to \<open>u16\<close>.
\<close>

definition default_event_proof_count ::
    "('s \<Rightarrow> h256 \<Rightarrow> crypto_pair list \<Rightarrow> proofs_map vs_result)
      \<Rightarrow> 's \<Rightarrow> h256 \<Rightarrow> crypto_pair list \<Rightarrow> u16 vs_result" where
  "default_event_proof_count get_event_proofs self event_id validators =
     and_then (get_event_proofs self event_id validators) (\<lambda>m. Inr (as_u16 (hm_len m)))"

text \<open>
  The contract. \<open>proof_of s e k\<close> is the signature of key \<open>k\<close> that store \<open>s\<close> holds for event \<open>e\<close>. The
  laws about the state after an operation hold whatever the operation returned, an error included;
  the laws that something has happened hold where it returned \<open>Ok\<close>. Adding a second proof of the same
  key may keep the first signature or replace it: the implementations differ there. Purging one event
  may also drop stale proofs of other events, but never a proof of a listed validator.
\<close>

locale event_proofs_trait =
  fixes add_event_proof :: "'s \<Rightarrow> witnessed_event \<Rightarrow> unit vs_result \<times> 's"
    and get_event_proofs :: "'s \<Rightarrow> h256 \<Rightarrow> crypto_pair list \<Rightarrow> proofs_map vs_result"
    and get_event_proof_count :: "'s \<Rightarrow> h256 \<Rightarrow> crypto_pair list \<Rightarrow> u16 vs_result"
    and purge_event_stale_signatures :: "'s \<Rightarrow> h256 \<Rightarrow> crypto_pair list \<Rightarrow> unit vs_result \<times> 's"
    and proof_of :: "'s \<Rightarrow> h256 \<Rightarrow> crypto_pair \<Rightarrow> bytes option"
    and invar :: "'s \<Rightarrow> bool"
  assumes add_invar: "invar s \<Longrightarrow> add_event_proof s w = (r, s') \<Longrightarrow> invar s'"
    and add_sound: "invar s \<Longrightarrow> add_event_proof s w = (r, s') \<Longrightarrow>
      proof_of s' e k = proof_of s e k \<or>
      e = we_event_id w \<and> k = we_pub_key w \<and> proof_of s' e k = Some (we_signature w)"
    and add_stores: "invar s \<Longrightarrow> add_event_proof s w = (Inr (), s') \<Longrightarrow>
      proof_of s' (we_event_id w) (we_pub_key w) \<noteq> None"
    and get_spec: "invar s \<Longrightarrow> get_event_proofs s e vs = Inr m \<Longrightarrow>
      fmlookup m k = (if k \<in> set vs then proof_of s e k else None)"
    and count_le: "invar s \<Longrightarrow> get_event_proof_count s e vs = Inr n \<Longrightarrow> distinct vs \<Longrightarrow>
      unat n \<le> card {k \<in> set vs. proof_of s e k \<noteq> None}"
    and count_eq: "invar s \<Longrightarrow> get_event_proofs s e vs = Inr m \<Longrightarrow>
      get_event_proof_count s e vs = Inr n \<Longrightarrow> distinct vs \<Longrightarrow> length vs < 65536 \<Longrightarrow>
      unat n = hm_len m"
    and purge_invar: "invar s \<Longrightarrow> purge_event_stale_signatures s e vs = (r, s') \<Longrightarrow> invar s'"
    and purge_sound: "invar s \<Longrightarrow> purge_event_stale_signatures s e vs = (r, s') \<Longrightarrow>
      proof_of s' e' k = proof_of s e' k \<or> k \<notin> set vs \<and> proof_of s' e' k = None"
    and purge_drops: "invar s \<Longrightarrow> purge_event_stale_signatures s e vs = (Inr (), s') \<Longrightarrow>
      k \<notin> set vs \<Longrightarrow> proof_of s' e k = None"
begin

lemma get_len:
  assumes "invar s" and "get_event_proofs s e vs = Inr m"
  shows "hm_len m = card {k \<in> set vs. proof_of s e k \<noteq> None}"
proof -
  have "fset (fmdom m) = {k \<in> set vs. proof_of s e k \<noteq> None}"
    using get_spec [OF assms] by (auto simp: fset_fmdom split: if_splits)
  then show ?thesis by (simp add: hm_len_card)
qed

text \<open>
  A property of stored proofs that the added event has is kept by \<open>add_event_proof\<close>, and every such
  property is kept by purging.
\<close>

lemma add_keeps:
  assumes "invar s" and "add_event_proof s w = (r, s')"
    and "\<And>e k g. proof_of s e k = Some g \<Longrightarrow> P e k g"
    and "P (we_event_id w) (we_pub_key w) (we_signature w)"
    and "proof_of s' e k = Some g"
  shows "P e k g"
  using add_sound [OF assms(1,2), of e k] assms(3-5) by auto

lemma purge_keeps:
  assumes "invar s" and "purge_event_stale_signatures s e0 vs = (r, s')"
    and "\<And>e k g. proof_of s e k = Some g \<Longrightarrow> P e k g"
    and "proof_of s' e k = Some g"
  shows "P e k g"
  using purge_sound [OF assms(1,2), of e k] assms(3,4) by auto

text \<open>
  Adding and then purging leaves the proof just added when its key is a listed validator.
\<close>

lemma add_purge_stored:
  assumes "invar s" and "add_event_proof s w = (Inr (), s1)"
    and "purge_event_stale_signatures s1 e vs = (r, s2)" and "we_pub_key w \<in> set vs"
  shows "proof_of s2 (we_event_id w) (we_pub_key w) \<noteq> None"
  using add_stores [OF assms(1,2)] purge_sound [OF add_invar [OF assms(1,2)] assms(3)] assms(4)
  by metis

lemma purged_get_any:
  assumes "invar s" and "purge_event_stale_signatures s e vs = (Inr (), s')"
    and "get_event_proofs s' e vs' = Inr m" and "fmlookup m k = Some g"
  shows "k \<in> set vs \<inter> set vs'"
  using purge_drops [OF assms(1,2), of k] get_spec [OF purge_invar [OF assms(1,2)] assms(3), of k]
    assms(4) by (cases "k \<in> set vs"; cases "k \<in> set vs'"; simp)

end

text \<open>
  A store whose operations never panic and always return.
\<close>

locale robust_proofs_trait = event_proofs_trait +
  assumes add_no_panic: "invar s \<Longrightarrow> no_panic (fst (add_event_proof s w))"
    and get_no_panic: "invar s \<Longrightarrow> no_panic (get_event_proofs s e vs)"
    and count_no_panic: "invar s \<Longrightarrow> no_panic (get_event_proof_count s e vs)"
    and purge_no_panic: "invar s \<Longrightarrow> no_panic (fst (purge_event_stale_signatures s e vs))"

end
