(* ===== verification/Authorities.thy ===== *)
theory Authorities
  imports Event_Proofs
begin

text \<open>
  The authority lists of \<open>src/consensus/src/events/mod.rs\<close>: the check of a witnessed event against the
  authorities, the number \<open>target\<close> of witnesses an event needs, the cache of authority lists per block,
  and \<open>verify_events_validity\<close>. The signature scheme, the LRU cache and the chain client are parameters
  (the records \<open>sr25519\<close>, \<open>lru_ops\<close> and \<open>client\<close>); \<open>lru_laws\<close> states what the code relies on of the
  cache. All reads of the client during one call see the same view of the chain.
  The locale \<open>quorum_system\<close> says what the threshold is for: two quorums share an honest authority.
\<close>

section \<open>Keys and signatures\<close>

datatype public = Public (public_bytes: bytes)

datatype sr_signature = Signature (signature_bytes: bytes)

text \<open>
  \<open>BTreeMap\<close> orders its keys; a public key is ordered by its bytes.
\<close>

instantiation public :: linorder
begin

definition less_eq_public :: "public \<Rightarrow> public \<Rightarrow> bool" where
  "less_eq_public a b \<longleftrightarrow> public_bytes a \<le> public_bytes b"

definition less_public :: "public \<Rightarrow> public \<Rightarrow> bool" where
  "less_public a b \<longleftrightarrow> public_bytes a < public_bytes b"

instance
  by standard (auto simp: less_eq_public_def less_public_def public.expand)

end

record sr25519 =
  public_from_slice :: "bytes \<Rightarrow> public option"
  signature_from_slice :: "bytes \<Rightarrow> sr_signature option"
  sr_verify :: "public \<Rightarrow> bytes \<Rightarrow> sr_signature \<Rightarrow> bool"

text \<open>
  \<open>signed_by sr k e g\<close>: the bytes \<open>g\<close> are a signature of event \<open>e\<close> by the key \<open>k\<close>.
\<close>

definition signed_by :: "sr25519 \<Rightarrow> crypto_pair \<Rightarrow> h256 \<Rightarrow> bytes \<Rightarrow> bool" where
  "signed_by sr k e g =
     (case (public_from_slice sr (raw_public k), signature_from_slice sr g) of
        (Some p, Some s) \<Rightarrow> sr_verify sr p (as_bytes e) s
      | _ \<Rightarrow> False)"

section \<open>AuthoritiesList\<close>

record authorities_list =
  authorities :: "crypto_pair list"

definition verify_witnessed_event_origin ::
    "sr25519 \<Rightarrow> authorities_list \<Rightarrow> witnessed_event \<Rightarrow> witnessed_event vs_result" where
  "verify_witnessed_event_origin sr self witnessed_event =
     (if we_pub_key witnessed_event \<in> set (authorities self) then
        (case public_from_slice sr (raw_public (we_pub_key witnessed_event)) of
           None \<Rightarrow> Inl (Err (BadWitnessedEventSignature
             ''Can't retrieve sr25519 keys from WitnessedEvent''))
         | Some pubkey \<Rightarrow>
             (case signature_from_slice sr (we_signature witnessed_event) of
                None \<Rightarrow> Inl (Err (BadWitnessedEventSignature
                  ''Can't create sr25519 signature from witnessed event''))
              | Some signature \<Rightarrow>
                  if sr_verify sr pubkey (as_bytes (we_event_id witnessed_event)) signature
                  then Inr witnessed_event
                  else Inl (Err (BadWitnessedEventSignature ''Incorrect WitnessedEvent signature''))))
      else Inl (Err (BadWitnessedEventSignature ''WitnessedEvent was signed by non-validator'')))"

definition target :: "authorities_list \<Rightarrow> u16" where
  "target self = (let total = length (authorities self) in as_u16 (total * 2 div 3 + 1))"

section \<open>The chain client\<close>

record chain_info =
  finalized_hash :: h256
  finalized_number :: u32
  best_hash :: h256

record ('aid, 'ext) client =
  cl_info :: chain_info
  cl_authorities :: "h256 \<Rightarrow> string + 'aid list"
  cl_get_extrinsic_ids :: "h256 \<Rightarrow> 'ext list \<Rightarrow> string + h256 list"
  cl_create_unsigned_extrinsic ::
    "h256 \<Rightarrow> h256 \<Rightarrow> (public, sr_signature) fmap option \<Rightarrow> string + 'ext"
  cl_block_hash :: "u32 \<Rightarrow> string + h256 option"
  cl_block_body :: "h256 \<Rightarrow> string + 'ext list option"
  cl_lowest_common_ancestor :: "h256 \<Rightarrow> h256 \<Rightarrow> string + h256"

section \<open>The cache of authority lists\<close>

record 'c lru_ops =
  lru_get :: "'c \<Rightarrow> h256 \<Rightarrow> authorities_list option \<times> 'c"
  lru_put :: "'c \<Rightarrow> h256 \<Rightarrow> authorities_list \<Rightarrow> 'c"
  lru_entries :: "'c \<Rightarrow> h256 \<Rightarrow> authorities_list option"

definition lru_laws :: "'c lru_ops \<Rightarrow> bool" where
  "lru_laws lru \<longleftrightarrow>
     (\<forall>c k r c'. lru_get lru c k = (r, c') \<longrightarrow>
        r = lru_entries lru c k \<and> lru_entries lru c' = lru_entries lru c) \<and>
     (\<forall>c k v k' v'. lru_entries lru (lru_put lru c k v) k' = Some v' \<longrightarrow>
        (if k' = k then v' = v else lru_entries lru c k' = Some v'))"

record 'c block_state =
  bs_cache :: 'c
  bs_poisoned :: bool

definition poison_error :: error where
  "poison_error = error_from_poison ''poisoned lock: another task failed inside''"

definition get_authorities_list ::
    "'c lru_ops \<Rightarrow> ('aid \<Rightarrow> crypto_pair) \<Rightarrow> 'c block_state \<Rightarrow> ('aid, 'ext) client \<Rightarrow> h256
      \<Rightarrow> authorities_list vs_result \<times> 'c block_state" where
  "get_authorities_list lru from_id block_state client authorities_block_id =
     (if bs_poisoned block_state then (Inl (Err poison_error), block_state)
      else
        (case lru_get lru (bs_cache block_state) authorities_block_id of
           (Some cached, cache') \<Rightarrow> (Inr cached, block_state\<lparr>bs_cache := cache'\<rparr>)
         | (None, cache') \<Rightarrow>
             (case cl_authorities client authorities_block_id of
                Inl e \<Rightarrow> (Inl (Err (Other e)), block_state\<lparr>bs_cache := cache'\<rparr>)
              | Inr ids \<Rightarrow>
                  let new_block_state = \<lparr>authorities = map from_id ids\<rparr>
                  in (Inr new_block_state,
                      block_state\<lparr>bs_cache := lru_put lru cache' authorities_block_id new_block_state\<rparr>))))"

definition get_latest_authorities_list ::
    "'c lru_ops \<Rightarrow> ('aid \<Rightarrow> crypto_pair) \<Rightarrow> 'c block_state \<Rightarrow> ('aid, 'ext) client
      \<Rightarrow> authorities_list vs_result \<times> 'c block_state" where
  "get_latest_authorities_list lru from_id block_state client =
     get_authorities_list lru from_id block_state client (finalized_hash (cl_info client))"

section \<open>verify_events_validity\<close>

fun collect_unprepared :: "(h256 \<Rightarrow> u16 vs_result) \<Rightarrow> u16 \<Rightarrow> h256 list \<Rightarrow> h256 list vs_result" where
  "collect_unprepared count tgt [] = Inr []"
| "collect_unprepared count tgt (event_id # ids) =
     and_then (count event_id) (\<lambda>current_count.
       and_then (collect_unprepared count tgt ids) (\<lambda>rest.
         Inr (if current_count < tgt then event_id # rest else rest)))"

definition verify_events_validity ::
    "'c lru_ops \<Rightarrow> ('aid \<Rightarrow> crypto_pair) \<Rightarrow> ('s \<Rightarrow> h256 \<Rightarrow> crypto_pair list \<Rightarrow> u16 vs_result)
      \<Rightarrow> 'c block_state \<Rightarrow> ('aid, 'ext) client \<Rightarrow> h256 \<Rightarrow> 's \<Rightarrow> h256 list
      \<Rightarrow> h256 list vs_result \<times> 'c block_state" where
  "verify_events_validity lru from_id count block_state client authorities_block_id event_proofs ids =
     (case get_authorities_list lru from_id block_state client authorities_block_id of
        (Inl f, block_state') \<Rightarrow> (Inl f, block_state')
      | (Inr authorities_list, block_state') \<Rightarrow>
          (collect_unprepared (\<lambda>event_id. count event_proofs event_id (authorities authorities_list))
             (target authorities_list) ids,
           block_state'))"

section \<open>Lemmas\<close>

lemma verify_origin_Inr:
  "verify_witnessed_event_origin sr self w = Inr w' \<longleftrightarrow>
     w' = w \<and> we_pub_key w \<in> set (authorities self) \<and>
     signed_by sr (we_pub_key w) (we_event_id w) (we_signature w)"
  by (auto simp: verify_witnessed_event_origin_def signed_by_def split: option.splits if_splits)

lemma verify_origin_total:
  "(\<exists>s. verify_witnessed_event_origin sr self w = Inl (Err (BadWitnessedEventSignature s))) \<or>
   verify_witnessed_event_origin sr self w = Inr w"
  by (auto simp: verify_witnessed_event_origin_def split: option.splits)

lemma collect_unprepared_Inr:
  "collect_unprepared count tgt ids = Inr us \<longleftrightarrow>
     (\<forall>event_id \<in> set ids. \<exists>n. count event_id = Inr n) \<and>
     us = filter (\<lambda>event_id. \<forall>n. count event_id = Inr n \<longrightarrow> n < tgt) ids"
proof (induction ids arbitrary: us)
  case (Cons event_id ids)
  then show ?case by (cases "count event_id") (auto simp: and_then_eq_Inr)
qed auto

lemma unat_target: "length (authorities al) \<le> 98302 \<Longrightarrow>
  unat (target al) = length (authorities al) * 2 div 3 + 1"
  by (simp add: target_def Let_def)

lemma target_le_iff:
  assumes "length (authorities al) \<le> 98302"
  shows "unat (target al) \<le> t \<longleftrightarrow> length (authorities al) * 2 < t * 3"
proof -
  have "length (authorities al) * 2 div 3 < t \<longleftrightarrow> length (authorities al) * 2 < t * 3"
    by (rule div_less_iff_less_mult) simp
  then show ?thesis unfolding unat_target [OF assms] by linarith
qed

lemma target_pos: "length (authorities al) \<le> 98302 \<Longrightarrow> 0 < unat (target al)"
  by (simp add: unat_target)

text \<open>
  \<open>authorities_at\<close> is what the chain says about a block; \<open>cache_agrees\<close>: every cached list is that.
\<close>

definition authorities_at ::
    "('aid \<Rightarrow> crypto_pair) \<Rightarrow> ('aid, 'ext) client \<Rightarrow> h256 \<Rightarrow> authorities_list vs_result" where
  "authorities_at from_id client h =
     (case cl_authorities client h of
        Inl e \<Rightarrow> Inl (Err (Other e)) | Inr ids \<Rightarrow> Inr \<lparr>authorities = map from_id ids\<rparr>)"

definition cache_agrees ::
    "'c lru_ops \<Rightarrow> ('aid \<Rightarrow> crypto_pair) \<Rightarrow> ('aid, 'ext) client \<Rightarrow> 'c block_state \<Rightarrow> bool" where
  "cache_agrees lru from_id client bs \<longleftrightarrow>
     (\<forall>h al. lru_entries lru (bs_cache bs) h = Some al \<longrightarrow> authorities_at from_id client h = Inr al)"

lemma lru_rules:
  assumes "lru_laws lru"
  shows "lru_get lru c k = (r, c') \<Longrightarrow> r = lru_entries lru c k \<and> lru_entries lru c' = lru_entries lru c"
    and "lru_entries lru (lru_put lru c k v) k' = Some v' \<Longrightarrow>
      (if k' = k then v' = v else lru_entries lru c k' = Some v')"
  using assms unfolding lru_laws_def by blast+

lemma get_authorities_list_agrees:
  assumes "lru_laws lru" and "cache_agrees lru from_id client bs"
    and "get_authorities_list lru from_id bs client h = (r, bs')"
  shows "r = (if bs_poisoned bs then Inl (Err poison_error) else authorities_at from_id client h)"
    and "cache_agrees lru from_id client bs'"
    and "bs_poisoned bs' = bs_poisoned bs"
proof -
  obtain g c' where g: "lru_get lru (bs_cache bs) h = (g, c')" by (cases "lru_get lru (bs_cache bs) h")
  note get = lru_rules(1) [OF assms(1) g]
  show "r = (if bs_poisoned bs then Inl (Err poison_error) else authorities_at from_id client h)"
    using assms(2,3) get g
    by (auto simp: get_authorities_list_def cache_agrees_def authorities_at_def Let_def
        split: if_splits option.splits sum.splits)
  show "bs_poisoned bs' = bs_poisoned bs"
    using assms(3) g
    by (auto simp: get_authorities_list_def Let_def split: if_splits option.splits sum.splits)
  have old: "cache_agrees lru from_id client (bs\<lparr>bs_cache := c'\<rparr>)"
    using assms(2) get by (simp add: cache_agrees_def)
  have new: "cache_agrees lru from_id client (bs\<lparr>bs_cache := lru_put lru c' h al\<rparr>)"
    if "authorities_at from_id client h = Inr al" for al
    using old that lru_rules(2) [OF assms(1), of c' h al]
    by (fastforce simp: cache_agrees_def split: if_splits)
  show "cache_agrees lru from_id client bs'"
    using assms(2,3) g old new
    by (auto simp: get_authorities_list_def authorities_at_def Let_def
        split: if_splits option.splits sum.splits)
qed

text \<open>
  Over time the client learns about new blocks, but a block never changes: \<open>chain\<close> gives the authorities
  of every block there will ever be, \<open>view_of\<close> says that a client's answers are those, \<open>cache_of\<close> that
  the cached lists are.
\<close>

definition view_of :: "(h256 \<Rightarrow> 'aid list) \<Rightarrow> ('aid, 'ext) client \<Rightarrow> bool" where
  "view_of chain client \<longleftrightarrow> (\<forall>h ids. cl_authorities client h = Inr ids \<longrightarrow> ids = chain h)"

definition chain_authorities :: "('aid \<Rightarrow> crypto_pair) \<Rightarrow> (h256 \<Rightarrow> 'aid list) \<Rightarrow> h256 \<Rightarrow> authorities_list" where
  "chain_authorities from_id chain h = \<lparr>authorities = map from_id (chain h)\<rparr>"

definition cache_of ::
    "'c lru_ops \<Rightarrow> ('aid \<Rightarrow> crypto_pair) \<Rightarrow> (h256 \<Rightarrow> 'aid list) \<Rightarrow> 'c block_state \<Rightarrow> bool" where
  "cache_of lru from_id chain bs \<longleftrightarrow>
     (\<forall>h al. lru_entries lru (bs_cache bs) h = Some al \<longrightarrow> al = chain_authorities from_id chain h)"

lemma get_authorities_list_of:
  assumes "lru_laws lru" and "cache_of lru from_id chain bs" and "view_of chain client"
    and "get_authorities_list lru from_id bs client h = (r, bs')"
  shows "r = Inr al \<Longrightarrow> al = chain_authorities from_id chain h"
    and "cache_of lru from_id chain bs'"
proof -
  obtain g c' where g: "lru_get lru (bs_cache bs) h = (g, c')" by (cases "lru_get lru (bs_cache bs) h")
  note get = lru_rules(1) [OF assms(1) g]
  have old: "cache_of lru from_id chain (bs\<lparr>bs_cache := c'\<rparr>)"
    using assms(2) get by (simp add: cache_of_def)
  have "al' = chain_authorities from_id chain h'"
    if "lru_entries lru (lru_put lru c' h (chain_authorities from_id chain h)) h' = Some al'" for h' al'
    using lru_rules(2) [OF assms(1) that] assms(2) get unfolding cache_of_def by (metis (full_types))
  then have put: "cache_of lru from_id chain (bs\<lparr>bs_cache := lru_put lru c' h (chain_authorities from_id chain h)\<rparr>)"
    unfolding cache_of_def by simp
  have hit: "al = chain_authorities from_id chain h" if "g = Some al" for al
    using assms(2) get that unfolding cache_of_def by metis
  have miss: "\<lparr>authorities = map from_id ids\<rparr> = chain_authorities from_id chain h"
    if "cl_authorities client h = Inr ids" for ids
    using assms(3) that by (simp add: view_of_def chain_authorities_def)
  have run: "get_authorities_list lru from_id bs client h =
      (if bs_poisoned bs then (Inl (Err poison_error), bs)
       else case g of
         Some cached \<Rightarrow> (Inr cached, bs\<lparr>bs_cache := c'\<rparr>)
       | None \<Rightarrow> (case cl_authorities client h of
           Inl e \<Rightarrow> (Inl (Err (Other e)), bs\<lparr>bs_cache := c'\<rparr>)
         | Inr ids \<Rightarrow> (Inr \<lparr>authorities = map from_id ids\<rparr>,
             bs\<lparr>bs_cache := lru_put lru c' h \<lparr>authorities = map from_id ids\<rparr>\<rparr>)))"
    unfolding get_authorities_list_def Let_def g by (cases g) simp_all
  have "(\<forall>al. r = Inr al \<longrightarrow> al = chain_authorities from_id chain h) \<and> cache_of lru from_id chain bs'"
  proof (cases g)
    case None
    then show ?thesis
      using assms(2,4) old put miss unfolding run by (cases "cl_authorities client h") (auto split: if_splits)
  next
    case (Some al)
    then show ?thesis using assms(2,4) old hit [OF Some] unfolding run by (auto split: if_splits)
  qed
  then show "r = Inr al \<Longrightarrow> al = chain_authorities from_id chain h" and "cache_of lru from_id chain bs'"
    by simp_all
qed

text \<open>
  Asked twice, the same client gives the same answer, from the cache or from the chain.
\<close>

lemma get_authorities_list_again:
  assumes "lru_laws lru" and "get_authorities_list lru from_id bs client h = (Inr al, bs')"
  obtains bs2 where "get_authorities_list lru from_id bs' client h = (Inr al, bs2)"
proof -
  obtain g c' where g: "lru_get lru (bs_cache bs) h = (g, c')" by (cases "lru_get lru (bs_cache bs) h")
  obtain g2 c2 where g2: "lru_get lru (bs_cache bs') h = (g2, c2)" by (cases "lru_get lru (bs_cache bs') h")
  note get = lru_rules(1) [OF assms(1) g] lru_rules(1) [OF assms(1) g2]
  show ?thesis
  proof (cases g)
    case None
    then obtain ids where ids: "cl_authorities client h = Inr ids" "al = \<lparr>authorities = map from_id ids\<rparr>"
      and bs': "bs' = bs\<lparr>bs_cache := lru_put lru c' h al\<rparr>" "\<not> bs_poisoned bs"
      using assms(2) g by (auto simp: get_authorities_list_def Let_def split: if_splits sum.splits)
    have "g2 = Some al" if "g2 \<noteq> None"
      using that get bs' lru_rules(2) [OF assms(1), of c' h al h] by (auto simp del: not_None_eq)
    then show ?thesis
      using that g2 ids bs' by (cases g2) (auto simp: get_authorities_list_def Let_def)
  next
    case (Some cached)
    then show ?thesis
      using that assms(2) g g2 get by (auto simp: get_authorities_list_def split: if_splits)
  qed
qed

lemma get_authorities_list_no_panic: "no_panic (fst (get_authorities_list lru from_id bs client h))"
  by (simp add: get_authorities_list_def Let_def split: option.split sum.split prod.split)

section \<open>Quorums\<close>

locale quorum_system =
  fixes universe :: "'k set" and quorum :: "'k set \<Rightarrow> bool"
  assumes quorum_members: "quorum S \<Longrightarrow> S \<subseteq> universe \<and> finite universe"
    and quorum_inter: "quorum S \<Longrightarrow> quorum T \<Longrightarrow> card universe < 3 * card (S \<inter> T)"
begin

lemma honest_in_both:
  assumes "quorum S" and "quorum T" and "finite F" and "3 * card F \<le> card universe"
  shows "\<exists>k \<in> S \<inter> T. k \<notin> F"
proof (rule ccontr)
  assume "\<not> ?thesis"
  then have "card (S \<inter> T) \<le> card F" using assms(3) by (intro card_mono) auto
  with quorum_inter [OF assms(1,2)] assms(4) show False by linarith
qed

text \<open>
  If no honest key votes for both of two events, at most one of them gets a quorum.
\<close>

lemma no_conflict:
  assumes "finite F" and "3 * card F \<le> card universe"
    and "\<And>k. k \<in> votes a \<Longrightarrow> k \<in> votes b \<Longrightarrow> k \<in> F"
  shows "\<not> (quorum (votes a) \<and> quorum (votes b))"
  using honest_in_both [OF _ _ assms(1,2)] assms(3) by blast

end

text \<open>
  The quorums of an authority list: enough of its members to reach the target.
\<close>

definition authority_quorum :: "authorities_list \<Rightarrow> crypto_pair set \<Rightarrow> bool" where
  "authority_quorum al S \<longleftrightarrow>
     distinct (authorities al) \<and> length (authorities al) \<le> 98302 \<and>
     S \<subseteq> set (authorities al) \<and> unat (target al) \<le> card S"

interpretation aq: quorum_system "set (authorities al)" "authority_quorum al" for al
proof (unfold_locales, goal_cases)
  case (1 S)
  then show ?case by (simp add: authority_quorum_def)
next
  case (2 S T)
  have n: "card (set (authorities al)) = length (authorities al)"
    using 2(1) by (simp add: authority_quorum_def distinct_card)
  have "card S + card T \<le> card (set (authorities al)) + card (S \<inter> T)"
    using 2 by (intro card_inter_ge) (auto simp: authority_quorum_def)
  then show ?case using 2 by (auto simp: authority_quorum_def unat_target n)
qed

end
