(* ===== verification/Pallet.thy ===== *)
theory Pallet
  imports Authorities
begin

text \<open>
  The pallet (\<open>src/pallet/src/lib.rs\<close>) in its two builds. With the feature \<open>off-chain-proofs\<close> the storage
  map \<open>Streams\<close> records the block in which an event was validated; without it \<open>OnStreams\<close> records the
  proofs and \<open>validate_event\<close> checks them. The parts of FRAME it calls are parameters: the record
  \<open>frame_system\<close> (block number, depositing an event) and the iteration order of a storage map, with
  \<open>storage_iter_laws\<close>. Storage maps and \<open>BTreeMap\<close>s are finite maps; a \<open>BTreeMap\<close> is iterated in key order.
  The locale \<open>validated_streams_pallet\<close> is the contract both builds of \<open>validate_event\<close> meet.
\<close>

section \<open>Events, errors, calls\<close>

datatype pallet_event = ValidatedEvent h256

datatype pallet_error =
  AlreadyValidated | BadSignature | InvalidProof | NoProofs | NotEnoughProofs | UnrecognizedAuthority

datatype dispatch_failure = DispatchErr pallet_error | DispatchPanic

type_synonym dispatch_result = "dispatch_failure + unit"
type_synonym btree_proofs = "(public, sr_signature) fmap"

datatype pallet_call = validate_event_call h256 "btree_proofs option" | ignored_call

record 'sys frame_system =
  fs_block_number :: "'sys \<Rightarrow> u32"
  fs_deposit_event :: "'sys \<Rightarrow> pallet_event \<Rightarrow> 'sys"

definition storage_iter_laws :: "(('k, 'v) fmap \<Rightarrow> ('k \<times> 'v) list) \<Rightarrow> bool" where
  "storage_iter_laws iter \<longleftrightarrow> (\<forall>m. distinct (map fst (iter m)) \<and> map_of (iter m) = fmlookup m)"

section \<open>The build with off-chain proofs\<close>

record 'sys offchain_pallet =
  streams :: "(h256, u32) fmap"
  off_system :: 'sys

definition validate_event_offchain ::
    "'sys frame_system \<Rightarrow> 'sys offchain_pallet \<Rightarrow> h256 \<Rightarrow> btree_proofs option
      \<Rightarrow> dispatch_result \<times> 'sys offchain_pallet" where
  "validate_event_offchain fs self event_id proofs =
     (let current_block = fs_block_number fs (off_system self)
      in if fmlookup (streams self) event_id \<noteq> None then (Inl (DispatchErr AlreadyValidated), self)
         else (Inr (), self\<lparr>streams := fmupd event_id current_block (streams self),
                            off_system := fs_deposit_event fs (off_system self) (ValidatedEvent event_id)\<rparr>))"

definition get_all_events_offchain ::
    "((h256, u32) fmap \<Rightarrow> (h256 \<times> u32) list) \<Rightarrow> 'sys offchain_pallet \<Rightarrow> h256 list" where
  "get_all_events_offchain iter self = map fst (iter (streams self))"

definition get_block_events ::
    "((h256, u32) fmap \<Rightarrow> (h256 \<times> u32) list) \<Rightarrow> 'sys offchain_pallet \<Rightarrow> u32 \<Rightarrow> h256 list" where
  "get_block_events iter self block_number =
     map fst (filter (\<lambda>(k, bn). bn = block_number) (iter (streams self)))"

definition is_event_valid_offchain :: "'sys offchain_pallet \<Rightarrow> h256 \<Rightarrow> bool" where
  "is_event_valid_offchain self event_id = (fmlookup (streams self) event_id \<noteq> None)"

section \<open>The build with on-chain proofs\<close>

record 'sys onchain_pallet =
  on_streams :: "(h256, btree_proofs) fmap"
  on_system :: 'sys

text \<open>
  \<open>Public::from_h256(H256::from_slice(id.to_raw_vec()))\<close> for every authority; \<open>None\<close> is the panic of
  \<open>from_slice\<close> on a key that is not 32 bytes long.
\<close>

fun raw_authorities :: "('aid \<Rightarrow> bytes) \<Rightarrow> 'aid list \<Rightarrow> public list option" where
  "raw_authorities to_raw_vec [] = Some []"
| "raw_authorities to_raw_vec (i # ids) =
     Option.bind (h256_from_slice (to_raw_vec i)) (\<lambda>h.
       map_option (\<lambda>ps. Public (as_bytes h) # ps) (raw_authorities to_raw_vec ids))"

fun check_keys :: "public list \<Rightarrow> public list \<Rightarrow> bool" where
  "check_keys auths [] = True"
| "check_keys auths (key # keys) = (if key \<notin> set auths then False else check_keys auths keys)"

fun count_proofs :: "sr25519 \<Rightarrow> h256 \<Rightarrow> u16 \<Rightarrow> (public \<times> sr_signature) list \<Rightarrow> u16 option" where
  "count_proofs sr event_id proof_count [] = Some proof_count"
| "count_proofs sr event_id proof_count ((key, signature) # rs) =
     (if sr_verify sr key (as_bytes event_id) signature
      then count_proofs sr event_id (proof_count + 1) rs else None)"

definition validate_event_onchain ::
    "'sys frame_system \<Rightarrow> sr25519 \<Rightarrow> ('aid \<Rightarrow> bytes) \<Rightarrow> 'aid list \<Rightarrow> 'sys onchain_pallet \<Rightarrow> h256
      \<Rightarrow> btree_proofs option \<Rightarrow> dispatch_result \<times> 'sys onchain_pallet" where
  "validate_event_onchain fs sr to_raw_vec ids self event_id event_proofs =
     (case raw_authorities to_raw_vec ids of
        None \<Rightarrow> (Inl DispatchPanic, self)
      | Some auths \<Rightarrow>
          (case event_proofs of
             None \<Rightarrow> (Inl (DispatchErr NoProofs), self)
           | Some proofs \<Rightarrow>
               if fmlookup (on_streams self) event_id \<noteq> None
               then (Inl (DispatchErr AlreadyValidated), self)
               else if \<not> check_keys auths (map fst (sorted_list_of_fmap proofs))
               then (Inl (DispatchErr UnrecognizedAuthority), self)
               else
                 let total = length auths;
                     tgt = as_u16 (total * 2 div 3 + 1)
                 in (case count_proofs sr event_id 0 (sorted_list_of_fmap proofs) of
                       None \<Rightarrow> (Inl (DispatchErr InvalidProof), self)
                     | Some proof_count \<Rightarrow>
                         if proof_count < tgt then (Inl (DispatchErr NotEnoughProofs), self)
                         else (Inr (), self\<lparr>on_streams := fmupd event_id proofs (on_streams self),
                           on_system := fs_deposit_event fs (on_system self) (ValidatedEvent event_id)\<rparr>))))"

definition get_all_events_onchain ::
    "((h256, btree_proofs) fmap \<Rightarrow> (h256 \<times> btree_proofs) list) \<Rightarrow> 'sys onchain_pallet \<Rightarrow> h256 list" where
  "get_all_events_onchain iter self = map fst (iter (on_streams self))"

definition is_event_valid_onchain :: "'sys onchain_pallet \<Rightarrow> h256 \<Rightarrow> bool" where
  "is_event_valid_onchain self event_id = (fmlookup (on_streams self) event_id \<noteq> None)"

section \<open>Validating unsigned transactions\<close>

datatype transaction_source = InBlock | Local | External

datatype invalid_transaction = InvalidCall | InvalidStale | InvalidOther string

text \<open>
  The tags a valid transaction provides, by what is encoded in them.
\<close>

datatype tx_tag = CallTag pallet_call | EventTag h256

record valid_transaction =
  vt_tag_prefix :: string
  vt_provides :: "tx_tag list"
  vt_propagate :: bool

definition validate_unsigned ::
    "('s \<Rightarrow> h256 \<Rightarrow> bool) \<Rightarrow> 's \<Rightarrow> transaction_source \<Rightarrow> pallet_call
      \<Rightarrow> invalid_transaction + valid_transaction" where
  "validate_unsigned is_event_valid self source call =
     (if source \<noteq> Local \<and> source \<noteq> InBlock then Inl InvalidCall
      else (case call of
              validate_event_call event_id proofs \<Rightarrow>
                if is_event_valid self event_id then Inl InvalidStale
                else Inr \<lparr>vt_tag_prefix = ''validated_streams'',
                          vt_provides = [CallTag call, EventTag event_id],
                          vt_propagate = False\<rparr>
            | ignored_call \<Rightarrow> Inl InvalidCall))"

section \<open>Dispatching sequences of calls\<close>

fun dispatch_all ::
    "('s \<Rightarrow> h256 \<Rightarrow> 'p \<Rightarrow> dispatch_result \<times> 's) \<Rightarrow> 's \<Rightarrow> (h256 \<times> 'p) list
      \<Rightarrow> (h256 \<times> dispatch_result) list \<times> 's" where
  "dispatch_all validate s [] = ([], s)"
| "dispatch_all validate s ((e, p) # cs) =
     (case validate s e p of
        (r, s') \<Rightarrow> (case dispatch_all validate s' cs of (rs, s'') \<Rightarrow> ((e, r) # rs, s'')))"

section \<open>The contract of both builds\<close>

locale validated_streams_pallet =
  fixes validate :: "'s \<Rightarrow> h256 \<Rightarrow> 'p \<Rightarrow> dispatch_result \<times> 's"
    and is_event_valid :: "'s \<Rightarrow> h256 \<Rightarrow> bool"
  assumes err_keeps: "validate s e p = (Inl f, s') \<Longrightarrow> s' = s"
    and ok_fresh: "validate s e p = (Inr (), s') \<Longrightarrow> \<not> is_event_valid s e"
    and ok_marks: "validate s e p = (Inr (), s') \<Longrightarrow>
      is_event_valid s' e' \<longleftrightarrow> e' = e \<or> is_event_valid s e'"
begin

lemma valid_mono:
  assumes "validate s e p = (r, s')" and "is_event_valid s e'"
  shows "is_event_valid s' e'"
  using assms err_keeps [of s e p _ s'] ok_marks [of s e p s' e'] by (cases r) auto

text \<open>
  The valid events after a run are those before it and those some call of the run reported \<open>Ok\<close> for.
\<close>

lemma run_valid:
  "dispatch_all validate s cs = (rs, s') \<Longrightarrow>
   is_event_valid s' e \<longleftrightarrow> is_event_valid s e \<or> (e, Inr ()) \<in> set rs"
proof (induction cs arbitrary: s rs)
  case (Cons c cs)
  obtain e1 p where c: "c = (e1, p)" by (cases c)
  obtain r s1 where v: "validate s e1 p = (r, s1)" by (cases "validate s e1 p")
  obtain rs1 where rs1: "dispatch_all validate s1 cs = (rs1, s')" and rs: "rs = (e1, r) # rs1"
    using Cons.prems c v by (auto split: prod.splits)
  show ?case
  proof (cases r)
    case (Inl f)
    with v have "s1 = s" using err_keeps by simp
    with Cons.IH [OF rs1] Inl rs show ?thesis by auto
  next
    case (Inr u)
    with v have "is_event_valid s1 e \<longleftrightarrow> e = e1 \<or> is_event_valid s e" using ok_marks by simp
    with Cons.IH [OF rs1] Inr rs show ?thesis by auto
  qed
qed simp

text \<open>
  In any run an event is reported \<open>Ok\<close> at most once, and never when it was valid already.
\<close>

lemma run_once:
  "dispatch_all validate s cs = (rs, s') \<Longrightarrow>
   length (filter (\<lambda>x. x = (e, Inr ())) rs) \<le> (if is_event_valid s e then 0 else 1)"
proof (induction cs arbitrary: s rs)
  case (Cons c cs)
  obtain e1 p where c: "c = (e1, p)" by (cases c)
  obtain r s1 where v: "validate s e1 p = (r, s1)" by (cases "validate s e1 p")
  obtain rs1 where rs1: "dispatch_all validate s1 cs = (rs1, s')" and rs: "rs = (e1, r) # rs1"
    using Cons.prems c v by (auto split: prod.splits)
  note IH = Cons.IH [OF rs1]
  show ?case
  proof (cases r)
    case (Inl f)
    with v have "s1 = s" using err_keeps by simp
    with IH Inl rs show ?thesis by simp
  next
    case (Inr u)
    then have ok: "validate s e1 p = (Inr (), s1)" using v by simp
    have "\<not> is_event_valid s e1" by (rule ok_fresh [OF ok])
    moreover have "is_event_valid s1 e \<longleftrightarrow> e = e1 \<or> is_event_valid s e" by (rule ok_marks [OF ok])
    ultimately show ?thesis using IH Inr rs by (auto split: if_splits)
  qed
qed simp

text \<open>
  An event validated once is refused by \<open>validate_unsigned\<close> as stale from then on.
\<close>

lemma stale_after:
  assumes "validate s e p = (Inr (), s1)" and "dispatch_all validate s1 cs = (rs, s2)"
    and "source = Local \<or> source = InBlock"
  shows "validate_unsigned is_event_valid s2 source (validate_event_call e proofs) = Inl InvalidStale"
  using run_valid [OF assms(2), of e] ok_marks [OF assms(1), of e] assms(3)
  by (auto simp: validate_unsigned_def)

end

interpretation off: validated_streams_pallet "validate_event_offchain fs" is_event_valid_offchain for fs
  by unfold_locales
    (auto simp: validate_event_offchain_def is_event_valid_offchain_def Let_def split: if_splits)

lemma validate_event_onchain_cases:
  assumes "validate_event_onchain fs sr to_raw ids self e ps = (r, self')"
  obtains f where "r = Inl f" and "self' = self"
  | auths proofs n where "r = Inr ()" and "raw_authorities to_raw ids = Some auths" and "ps = Some proofs"
    and "fmlookup (on_streams self) e = None"
    and "check_keys auths (map fst (sorted_list_of_fmap proofs))"
    and "count_proofs sr e 0 (sorted_list_of_fmap proofs) = Some n"
    and "as_u16 (length auths * 2 div 3 + 1) \<le> n"
    and "self' = self\<lparr>on_streams := fmupd e proofs (on_streams self),
      on_system := fs_deposit_event fs (on_system self) (ValidatedEvent e)\<rparr>"
  using assms that
  by (auto simp: validate_event_onchain_def Let_def not_less split: option.splits if_splits)

interpretation on: validated_streams_pallet "validate_event_onchain fs sr to_raw ids" is_event_valid_onchain
  for fs sr to_raw ids
proof (unfold_locales, goal_cases)
  case (1 s e p f s')
  then show ?case by (rule validate_event_onchain_cases) simp_all
next
  case (2 s e p s')
  then show ?case
    by (rule validate_event_onchain_cases) (simp_all add: is_event_valid_onchain_def)
next
  case (3 s e p s' e')
  then show ?case
    by (rule validate_event_onchain_cases) (simp_all add: is_event_valid_onchain_def)
qed

section \<open>What on-chain proofs prove\<close>

lemma check_keys_iff: "check_keys auths keys \<longleftrightarrow> set keys \<subseteq> set auths"
  by (induction keys) auto

lemma count_proofs_iff:
  "count_proofs sr e n rs = Some m \<longleftrightarrow>
     (\<forall>(k, g) \<in> set rs. sr_verify sr k (as_bytes e) g) \<and> m = n + of_nat (length rs)"
  by (induction sr e n rs rule: count_proofs.induct) (auto simp: algebra_simps)

lemma set_sorted_list_of_fmap: "(k, g) \<in> set (sorted_list_of_fmap m) \<longleftrightarrow> fmlookup m k = Some g"
  by (force simp: sorted_list_of_fmap_def fmlookup_dom_iff)

lemma keys_sorted_list_of_fmap: "set (map fst (sorted_list_of_fmap m)) = fset (fmdom m)"
  by (simp add: sorted_list_of_fmap_def o_def)

lemma sorted_iter_laws: "storage_iter_laws sorted_list_of_fmap"
proof -
  have d: "distinct (map fst (sorted_list_of_fmap m))" for m :: "('k::linorder, 'v) fmap"
    by (simp add: sorted_list_of_fmap_def o_def sorted_list_of_fset.rep_eq)
  have "map_of (sorted_list_of_fmap m) k = fmlookup m k" for m :: "('k::linorder, 'v) fmap" and k
    using map_of_eq_Some_iff [OF d, of m k] set_sorted_list_of_fmap [of k _ m]
    by (cases "fmlookup m k") (auto simp: map_of_eq_None_iff keys_sorted_list_of_fmap fset_fmdom simp del: set_map)
  then show ?thesis using d by (auto simp: storage_iter_laws_def)
qed

lemma length_sorted_list_of_fmap: "length (sorted_list_of_fmap m) = hm_len m"
  by (simp add: sorted_list_of_fmap_def hm_len_def sorted_list_of_fset.rep_eq fcard.rep_eq)

lemma length_raw_authorities: "raw_authorities to_raw ids = Some auths \<Longrightarrow> length auths = length ids"
  by (induction ids arbitrary: auths) (auto split: bind_splits)

lemma raw_authorities_map:
  "\<forall>i \<in> set ids. length (to_raw i) = 32 \<Longrightarrow>
   raw_authorities to_raw ids = Some (map (\<lambda>i. Public (to_raw i)) ids)"
proof (induction ids)
  case (Cons i ids)
  have "h256_from_slice (to_raw i) = Some (h256_of_bytes (to_raw i))"
    and "as_bytes (h256_of_bytes (to_raw i)) = to_raw i"
    using Cons.prems by (simp_all add: h256_from_slice_Some h256_of_bytes_inverse)
  with Cons show ?case by simp
qed simp

text \<open>
  \<open>backed sr auths e ps\<close>: the proofs \<open>ps\<close> of event \<open>e\<close> are signatures of authorities only, all of them
  correct, and more than two thirds of the authorities have signed.
\<close>

definition backed :: "sr25519 \<Rightarrow> public list \<Rightarrow> h256 \<Rightarrow> btree_proofs \<Rightarrow> bool" where
  "backed sr auths e ps \<longleftrightarrow>
     fset (fmdom ps) \<subseteq> set auths \<and>
     (\<forall>k g. fmlookup ps k = Some g \<longrightarrow> sr_verify sr k (as_bytes e) g) \<and>
     length auths * 2 div 3 + 1 \<le> hm_len ps"

lemma hm_len_le_auths: "fset (fmdom ps) \<subseteq> set auths \<Longrightarrow> hm_len ps \<le> length auths"
  using card_mono [of "set auths" "fset (fmdom ps)"] card_length [of auths]
  by (simp add: hm_len_card)

lemma backed_if_counted:
  assumes "length auths < 65536" and "check_keys auths (map fst (sorted_list_of_fmap ps))"
    and "count_proofs sr e 0 (sorted_list_of_fmap ps) = Some n"
  shows "as_u16 (length auths * 2 div 3 + 1) \<le> n \<longleftrightarrow> backed sr auths e ps"
proof -
  have keys: "fset (fmdom ps) \<subseteq> set auths"
    using assms(2) by (simp add: check_keys_iff keys_sorted_list_of_fmap del: set_map)
  have "hm_len ps < 65536" using hm_len_le_auths [OF keys] assms(1) by simp
  moreover have "length auths * 2 div 3 + 1 < 65536" using assms(1) by simp
  moreover have "n = as_u16 (hm_len ps)"
    using assms(3) by (simp add: count_proofs_iff length_sorted_list_of_fmap as_u16_def)
  moreover have "\<forall>k g. fmlookup ps k = Some g \<longrightarrow> sr_verify sr k (as_bytes e) g"
    using assms(3) by (auto simp: count_proofs_iff set_sorted_list_of_fmap)
  ultimately show ?thesis using keys by (simp add: backed_def as_u16_le_iff)
qed

lemma backed_checks:
  assumes "backed sr auths e ps"
  shows "check_keys auths (map fst (sorted_list_of_fmap ps))"
    and "count_proofs sr e 0 (sorted_list_of_fmap ps) = Some (as_u16 (hm_len ps))"
  using assms
  by (auto simp: backed_def check_keys_iff keys_sorted_list_of_fmap count_proofs_iff
      set_sorted_list_of_fmap length_sorted_list_of_fmap as_u16_def simp del: set_map)

lemma validate_event_onchain_Ok:
  assumes "length ids < 65536"
  shows "validate_event_onchain fs sr to_raw ids self e ps = (Inr (), self') \<longleftrightarrow>
    (\<exists>auths proofs. raw_authorities to_raw ids = Some auths \<and> ps = Some proofs \<and>
      fmlookup (on_streams self) e = None \<and> backed sr auths e proofs \<and>
      self' = self\<lparr>on_streams := fmupd e proofs (on_streams self),
        on_system := fs_deposit_event fs (on_system self) (ValidatedEvent e)\<rparr>)"
proof
  assume "validate_event_onchain fs sr to_raw ids self e ps = (Inr (), self')"
  then show "\<exists>auths proofs. raw_authorities to_raw ids = Some auths \<and> ps = Some proofs \<and>
      fmlookup (on_streams self) e = None \<and> backed sr auths e proofs \<and>
      self' = self\<lparr>on_streams := fmupd e proofs (on_streams self),
        on_system := fs_deposit_event fs (on_system self) (ValidatedEvent e)\<rparr>"
  proof (rule validate_event_onchain_cases)
    fix auths proofs n
    assume a: "raw_authorities to_raw ids = Some auths" "ps = Some proofs"
      "fmlookup (on_streams self) e = None"
      "self' = self\<lparr>on_streams := fmupd e proofs (on_streams self),
        on_system := fs_deposit_event fs (on_system self) (ValidatedEvent e)\<rparr>"
      and c: "check_keys auths (map fst (sorted_list_of_fmap proofs))"
      "count_proofs sr e 0 (sorted_list_of_fmap proofs) = Some n"
      "as_u16 (length auths * 2 div 3 + 1) \<le> n"
    have "length auths < 65536" using assms length_raw_authorities [OF a(1)] by simp
    then have "backed sr auths e proofs" using backed_if_counted c by blast
    with a show ?thesis by blast
  qed simp
next
  assume "\<exists>auths proofs. raw_authorities to_raw ids = Some auths \<and> ps = Some proofs \<and>
      fmlookup (on_streams self) e = None \<and> backed sr auths e proofs \<and>
      self' = self\<lparr>on_streams := fmupd e proofs (on_streams self),
        on_system := fs_deposit_event fs (on_system self) (ValidatedEvent e)\<rparr>"
  then obtain auths proofs where a: "raw_authorities to_raw ids = Some auths" "ps = Some proofs"
      "fmlookup (on_streams self) e = None" "backed sr auths e proofs"
      "self' = self\<lparr>on_streams := fmupd e proofs (on_streams self),
        on_system := fs_deposit_event fs (on_system self) (ValidatedEvent e)\<rparr>"
    by blast
  note checks = backed_checks [OF a(4)]
  have "length auths < 65536" using assms length_raw_authorities [OF a(1)] by simp
  then have "as_u16 (length auths * 2 div 3 + 1) \<le> as_u16 (hm_len proofs)"
    using backed_if_counted checks a(4) by blast
  then show "validate_event_onchain fs sr to_raw ids self e ps = (Inr (), self')"
    using a checks by (simp add: validate_event_onchain_def Let_def not_less)
qed

text \<open>
  For a new event and correct signatures by authorities only their number decides.
\<close>

lemma validate_event_onchain_counted:
  assumes "raw_authorities to_raw ids = Some auths" and "length auths < 65536"
    and "fmlookup (on_streams self) e = None" and "fset (fmdom ps) \<subseteq> set auths"
    and "\<And>k g. fmlookup ps k = Some g \<Longrightarrow> sr_verify sr k (as_bytes e) g"
  shows "validate_event_onchain fs sr to_raw ids self e (Some ps) =
    (if hm_len ps < length auths * 2 div 3 + 1 then (Inl (DispatchErr NotEnoughProofs), self)
     else (Inr (), self\<lparr>on_streams := fmupd e ps (on_streams self),
       on_system := fs_deposit_event fs (on_system self) (ValidatedEvent e)\<rparr>))"
proof -
  have keys: "check_keys auths (map fst (sorted_list_of_fmap ps))"
    using assms(4) by (simp add: check_keys_iff keys_sorted_list_of_fmap del: set_map)
  have count: "count_proofs sr e 0 (sorted_list_of_fmap ps) = Some (as_u16 (hm_len ps))"
    using assms(5) by (auto simp: count_proofs_iff set_sorted_list_of_fmap length_sorted_list_of_fmap as_u16_def)
  have "hm_len ps < 65536" and "length auths * 2 div 3 + 1 < 65536"
    using hm_len_le_auths [OF assms(4)] assms(2) by simp_all
  then show ?thesis
    using assms(1,3) keys count by (simp add: validate_event_onchain_def Let_def as_u16_less_iff)
qed

text \<open>
  The invariant of the on-chain storage: every recorded event is backed. Every run keeps it.
\<close>

definition all_backed :: "sr25519 \<Rightarrow> public list \<Rightarrow> 'sys onchain_pallet \<Rightarrow> bool" where
  "all_backed sr auths s \<longleftrightarrow> (\<forall>e ps. fmlookup (on_streams s) e = Some ps \<longrightarrow> backed sr auths e ps)"

lemma all_backed_step:
  assumes "length ids < 65536" and "raw_authorities to_raw ids = Some auths" and "all_backed sr auths s"
    and "validate_event_onchain fs sr to_raw ids s e ps = (r, s')"
  shows "all_backed sr auths s'"
proof (cases r)
  case (Inl f)
  then show ?thesis using assms(3,4) on.err_keeps [of fs sr to_raw ids s e ps f s'] by simp
next
  case (Inr u)
  then have "validate_event_onchain fs sr to_raw ids s e ps = (Inr (), s')" using assms(4) by simp
  then show ?thesis
    using assms(2,3) unfolding validate_event_onchain_Ok [OF assms(1)] by (auto simp: all_backed_def split: if_splits)
qed

lemma all_backed_run:
  assumes "length ids < 65536" and "raw_authorities to_raw ids = Some auths" and "all_backed sr auths s"
    and "dispatch_all (validate_event_onchain fs sr to_raw ids) s cs = (rs, s')"
  shows "all_backed sr auths s'"
  using assms(3,4)
proof (induction cs arbitrary: s rs)
  case (Cons c cs)
  obtain e p where c: "c = (e, p)" by (cases c)
  obtain r s1 where v: "validate_event_onchain fs sr to_raw ids s e p = (r, s1)"
    by (cases "validate_event_onchain fs sr to_raw ids s e p")
  obtain rs1 where "dispatch_all (validate_event_onchain fs sr to_raw ids) s1 cs = (rs1, s')"
    using Cons.prems(2) c v by (auto split: prod.splits)
  then show ?case
    by (rule Cons.IH [OF all_backed_step [OF assms(1,2) Cons.prems(1) v]])
qed simp

text \<open>
  The keys of backed proofs are quorums of the authorities.
\<close>

definition public_quorum :: "public list \<Rightarrow> public set \<Rightarrow> bool" where
  "public_quorum auths S \<longleftrightarrow>
     distinct auths \<and> S \<subseteq> set auths \<and> length auths * 2 div 3 + 1 \<le> card S"

interpretation pq: quorum_system "set auths" "public_quorum auths" for auths
proof (unfold_locales, goal_cases)
  case (1 S)
  then show ?case by (simp add: public_quorum_def)
next
  case (2 S T)
  have n: "card (set auths) = length auths"
    using 2(1) by (simp add: public_quorum_def distinct_card)
  have "card S + card T \<le> card (set auths) + card (S \<inter> T)"
    using 2 by (intro card_inter_ge) (auto simp: public_quorum_def)
  then show ?case using 2 by (auto simp: public_quorum_def n)
qed

lemma backed_quorum: "distinct auths \<Longrightarrow> backed sr auths e ps \<Longrightarrow> public_quorum auths (fset (fmdom ps))"
  by (simp add: backed_def public_quorum_def hm_len_card)

end
