(* ===== verification/In_Memory_Proofs.thy ===== *)
theory In_Memory_Proofs
  imports Event_Proofs
begin

text \<open>
  \<open>InMemoryEventProofs\<close> (\<open>src/consensus/src/proofs/in_memory.rs\<close>): a mutex around a two-level
  \<open>HashMap\<close>. A poisoned mutex makes every operation return \<open>LockFail\<close>. The first signature stored for
  a key stays; a later one is only logged. The interpretation \<open>im\<close> discharges the trait's contract.
\<close>

record in_memory =
  im_proofs :: "(h256, proofs_map) fmap"
  im_poisoned :: bool

definition in_memory_new :: in_memory where
  "in_memory_new = \<lparr>im_proofs = fmempty, im_poisoned = False\<rparr>"

definition in_memory_lock_fail :: failure where
  "in_memory_lock_fail = Err (LockFail ''InMemoryProofs'')"

definition in_memory_add :: "in_memory \<Rightarrow> witnessed_event \<Rightarrow> unit vs_result \<times> in_memory" where
  "in_memory_add self witnessed_event =
     (if im_poisoned self then (Inl in_memory_lock_fail, self)
      else
        let event_id = we_event_id witnessed_event;
            event_witnesses = (case fmlookup (im_proofs self) event_id of None \<Rightarrow> fmempty | Some m \<Rightarrow> m);
            event_witnesses' =
              (case fmlookup event_witnesses (we_pub_key witnessed_event) of
                 None \<Rightarrow> fmupd (we_pub_key witnessed_event) (we_signature witnessed_event) event_witnesses
               | Some _ \<Rightarrow> event_witnesses)
        in (Inr (), self\<lparr>im_proofs := fmupd event_id event_witnesses' (im_proofs self)\<rparr>))"

definition in_memory_get :: "in_memory \<Rightarrow> h256 \<Rightarrow> crypto_pair list \<Rightarrow> proofs_map vs_result" where
  "in_memory_get self event_id validators =
     (if im_poisoned self then Inl in_memory_lock_fail
      else Inr (case fmlookup (im_proofs self) event_id of
                  None \<Rightarrow> fmempty
                | Some event_proofs \<Rightarrow> fmfilter (\<lambda>k. k \<in> set validators) event_proofs))"

definition in_memory_count :: "in_memory \<Rightarrow> h256 \<Rightarrow> crypto_pair list \<Rightarrow> u16 vs_result" where
  "in_memory_count = default_event_proof_count in_memory_get"

definition in_memory_purge ::
    "in_memory \<Rightarrow> h256 \<Rightarrow> crypto_pair list \<Rightarrow> unit vs_result \<times> in_memory" where
  "in_memory_purge self event_id validators =
     (if im_poisoned self then (Inl in_memory_lock_fail, self)
      else (Inr (), case fmlookup (im_proofs self) event_id of
                      None \<Rightarrow> self
                    | Some event_proofs \<Rightarrow>
                        self\<lparr>im_proofs := fmupd event_id
                          (fmfilter (\<lambda>k. k \<in> set validators) event_proofs) (im_proofs self)\<rparr>))"

section \<open>The contract\<close>

definition in_memory_proof :: "in_memory \<Rightarrow> h256 \<Rightarrow> crypto_pair \<Rightarrow> bytes option" where
  "in_memory_proof s e k = Option.bind (fmlookup (im_proofs s) e) (\<lambda>m. fmlookup m k)"

lemmas in_memory_defs = in_memory_add_def in_memory_get_def in_memory_purge_def in_memory_proof_def
  in_memory_lock_fail_def Let_def

lemma in_memory_add_proof:
  "in_memory_add s w = (Inr (), s') \<Longrightarrow>
   in_memory_proof s' e k =
     (if e = we_event_id w \<and> k = we_pub_key w \<and> in_memory_proof s e k = None
      then Some (we_signature w) else in_memory_proof s e k)"
  by (auto simp: in_memory_defs split: if_splits option.splits)

lemma in_memory_add_outcome:
  "in_memory_add s w = (r, s') \<Longrightarrow> r = Inr () \<or> s' = s"
  by (auto simp: in_memory_defs split: if_splits)

lemma in_memory_get_spec:
  "in_memory_get s e vs = Inr m \<Longrightarrow>
   fmlookup m k = (if k \<in> set vs then in_memory_proof s e k else None)"
  by (auto simp: in_memory_defs split: if_splits option.splits)

lemma in_memory_purge_proof:
  "in_memory_purge s e vs = (Inr (), s') \<Longrightarrow>
   in_memory_proof s' e' k =
     (if e' = e \<and> k \<notin> set vs then None else in_memory_proof s e' k)"
  by (auto simp: in_memory_defs split: if_splits option.splits)

lemma in_memory_purge_outcome:
  "in_memory_purge s e vs = (r, s') \<Longrightarrow> r = Inr () \<or> s' = s"
  by (auto simp: in_memory_defs split: if_splits)

lemma in_memory_count_get:
  "in_memory_count s e vs = and_then (in_memory_get s e vs) (\<lambda>m. Inr (as_u16 (hm_len m)))"
  by (simp add: in_memory_count_def default_event_proof_count_def)

interpretation im: event_proofs_trait in_memory_add in_memory_get in_memory_count in_memory_purge
  in_memory_proof "\<lambda>s. True"
proof (unfold_locales, goal_cases)
  case (2 s w r s' e k)
  then show ?case
    using in_memory_add_proof [of s w s' e k] in_memory_add_outcome [of s w r s']
    by (auto split: if_splits)
next
  case (3 s w s')
  then show ?case
    using in_memory_add_proof [of s w s' "we_event_id w" "we_pub_key w"] by (auto split: if_splits)
next
  case (4 s e vs m k)
  then show ?case by (simp add: in_memory_get_spec)
next
  case (5 s e vs n)
  then obtain m where m: "in_memory_get s e vs = Inr m" and n: "n = as_u16 (hm_len m)"
    by (auto simp: in_memory_count_get and_then_eq_Inr)
  have "unat n \<le> hm_len m" by (simp add: n unat_as_u16)
  then show ?case using hm_len_le_restricted(1) [OF in_memory_get_spec [OF m]] by simp
next
  case (6 s e vs m n)
  then show ?case
    using hm_len_le_restricted(2) [OF in_memory_get_spec [OF 6(2)]]
    by (simp add: in_memory_count_get) (metis unat_as_u16_small order_le_less_trans)
next
  case (8 s e vs r s' e' k)
  then show ?case
    using in_memory_purge_proof [of s e vs s' e' k] in_memory_purge_outcome [of s e vs r s']
    by (auto split: if_splits)
next
  case (9 s e vs s' k)
  then show ?case using in_memory_purge_proof [of s e vs s' e k] by simp
qed simp_all

interpretation imr: robust_proofs_trait in_memory_add in_memory_get in_memory_count in_memory_purge
  in_memory_proof "\<lambda>s. True"
  by unfold_locales (auto simp: in_memory_defs in_memory_count_get)

end
