(* ===== verification/Offchain_Proofs.thy ===== *)
theory Offchain_Proofs
  imports Event_Proofs
begin

text \<open>
  \<open>OffchainStorageEventProofs\<close> (\<open>src/consensus/src/proofs/offchain.rs\<close>), the store the node runs with.
  The key-value storage is a parameter, the record \<open>offchain_storage\<close> of the four functions the code
  calls on a storage state of any type, with the laws \<open>storage_laws\<close> of a key-value store with an atomic
  compare-and-set. Under \<open>event_id ++ serialized key\<close> lies a signature, under \<open>event_id\<close> alone the
  serialized list of the keys that signed the event, which purging walks.

  Both updates of the list are compare-and-set loops. Other threads may change the storage between the
  read and the compare-and-set of an iteration: \<open>env\<close> lists what they do, one storage transformer for
  each such window, none when the list is exhausted. The trait's contract is discharged by the
  interpretation \<open>oc\<close> for \<open>env = []\<close>; the lemmas on loops hold for every interference.
\<close>

section \<open>The storage\<close>

record 'st offchain_storage =
  os_set :: "'st \<Rightarrow> bytes \<Rightarrow> bytes \<Rightarrow> bytes \<Rightarrow> 'st"
  os_get :: "'st \<Rightarrow> bytes \<Rightarrow> bytes \<Rightarrow> bytes option"
  os_remove :: "'st \<Rightarrow> bytes \<Rightarrow> bytes \<Rightarrow> 'st"
  os_compare_and_set :: "'st \<Rightarrow> bytes \<Rightarrow> bytes \<Rightarrow> bytes option \<Rightarrow> bytes \<Rightarrow> bool \<times> 'st"

definition storage_laws :: "'st offchain_storage \<Rightarrow> bool" where
  "storage_laws os \<longleftrightarrow>
     (\<forall>st p k v p' k'. os_get os (os_set os st p k v) p' k' =
        (if p' = p \<and> k' = k then Some v else os_get os st p' k')) \<and>
     (\<forall>st p k p' k'. os_get os (os_remove os st p k) p' k' =
        (if p' = p \<and> k' = k then None else os_get os st p' k')) \<and>
     (\<forall>st p k old v. fst (os_compare_and_set os st p k old v) = (os_get os st p k = old)) \<and>
     (\<forall>st p k old v p' k'. os_get os (snd (os_compare_and_set os st p k old v)) p' k' =
        (if os_get os st p k = old \<and> p' = p \<and> k' = k then Some v else os_get os st p' k'))"

definition OFFCHAIN_PREFIX :: bytes where
  "OFFCHAIN_PREFIX = [69, 118, 101, 110, 116, 80, 114, 111, 111, 102, 115]"

text \<open>
  The serialized list of signers under the event's key, \<open>vec![]\<close> where there is none.
\<close>

definition read_signers :: "bincode \<Rightarrow> bytes option \<Rightarrow> string + crypto_pair list" where
  "read_signers bc existing_bytes =
     (case existing_bytes of None \<Rightarrow> Inr [] | Some b \<Rightarrow> de_pairs bc b)"

definition interfere :: "('st \<Rightarrow> 'st) list \<Rightarrow> 'st \<Rightarrow> 'st" where
  "interfere env st = (case env of [] \<Rightarrow> st | g # _ \<Rightarrow> g st)"

section \<open>Operations\<close>

partial_function (option) add_signer_loop ::
    "'st offchain_storage \<Rightarrow> bincode \<Rightarrow> ('st \<Rightarrow> 'st) list \<Rightarrow> 'st \<Rightarrow> witnessed_event
      \<Rightarrow> (unit vs_result \<times> 'st) option" where
  "add_signer_loop os bc env storage event =
     (let key = as_bytes (we_event_id event);
          existing_bytes = os_get os storage OFFCHAIN_PREFIX key;
          storage1 = interfere env storage
      in (case read_signers bc existing_bytes of
            Inl e \<Rightarrow> Some (Inl (Err (error_from_bincode e)), storage1)
          | Inr signers_list \<Rightarrow>
              (case ser_pairs bc (signers_list @ [we_pub_key event]) of
                 Inl e \<Rightarrow> Some (Inl (Err (error_from_bincode e)), storage1)
               | Inr new_bytes \<Rightarrow>
                   (let done_storage =
                      os_compare_and_set os storage1 OFFCHAIN_PREFIX key existing_bytes new_bytes
                    in if fst done_storage then Some (Inr (), snd done_storage)
                       else add_signer_loop os bc (tl env) (snd done_storage) event))))"

definition offchain_add ::
    "'st offchain_storage \<Rightarrow> bincode \<Rightarrow> ('st \<Rightarrow> 'st) list \<Rightarrow> 'st \<Rightarrow> witnessed_event
      \<Rightarrow> unit vs_result \<times> 'st" where
  "offchain_add os bc env storage event =
     (case proof_key bc (we_event_id event) (we_pub_key event) of
        Inl e \<Rightarrow> (Inl (Err (error_from_bincode e)), storage)
      | Inr key \<Rightarrow>
          let storage1 = os_set os storage OFFCHAIN_PREFIX key (we_signature event)
          in (case add_signer_loop os bc env storage1 event of
                None \<Rightarrow> (Inl Diverge, storage1)
              | Some r \<Rightarrow> r))"

fun offchain_lookups ::
    "'st offchain_storage \<Rightarrow> bincode \<Rightarrow> 'st \<Rightarrow> h256 \<Rightarrow> crypto_pair list
      \<Rightarrow> (crypto_pair \<times> bytes option) list vs_result" where
  "offchain_lookups os bc storage event_id [] = Inr []"
| "offchain_lookups os bc storage event_id (pub_key # validators) =
     and_then (unwrap (proof_key bc event_id pub_key)) (\<lambda>key.
       and_then (offchain_lookups os bc storage event_id validators) (\<lambda>rs.
         Inr ((pub_key, os_get os storage OFFCHAIN_PREFIX key) # rs)))"

definition offchain_get ::
    "'st offchain_storage \<Rightarrow> bincode \<Rightarrow> 'st \<Rightarrow> h256 \<Rightarrow> crypto_pair list \<Rightarrow> proofs_map vs_result" where
  "offchain_get os bc storage event_id validators =
     and_then (offchain_lookups os bc storage event_id validators) (\<lambda>rs.
       Inr (hm_collect (List.map_filter (\<lambda>(pub_key, r). map_option (Pair pub_key) r) rs)))"

definition offchain_count ::
    "'st offchain_storage \<Rightarrow> bincode \<Rightarrow> 'st \<Rightarrow> h256 \<Rightarrow> crypto_pair list \<Rightarrow> u16 vs_result" where
  "offchain_count os bc storage event_id validators =
     and_then (offchain_lookups os bc storage event_id validators) (\<lambda>rs.
       Inr (as_u16 (length (filter (\<lambda>(pub_key, r). r \<noteq> None) rs))))"

fun retain_signers ::
    "'st offchain_storage \<Rightarrow> bincode \<Rightarrow> h256 \<Rightarrow> crypto_pair list \<Rightarrow> 'st \<Rightarrow> crypto_pair list
      \<Rightarrow> crypto_pair list vs_result \<times> 'st" where
  "retain_signers os bc event_id validators storage [] = (Inr [], storage)"
| "retain_signers os bc event_id validators storage (pub_key # ks) =
     (if pub_key \<notin> set validators then
        (case unwrap (proof_key bc event_id pub_key) of
           Inl f \<Rightarrow> (Inl f, storage)
         | Inr key \<Rightarrow>
             retain_signers os bc event_id validators (os_remove os storage OFFCHAIN_PREFIX key) ks)
      else
        (case retain_signers os bc event_id validators storage ks of
           (r, storage') \<Rightarrow> (and_then r (\<lambda>rs. Inr (pub_key # rs)), storage')))"

partial_function (option) purge_loop ::
    "'st offchain_storage \<Rightarrow> bincode \<Rightarrow> ('st \<Rightarrow> 'st) list \<Rightarrow> 'st \<Rightarrow> h256 \<Rightarrow> crypto_pair list
      \<Rightarrow> (unit vs_result \<times> 'st) option" where
  "purge_loop os bc env storage event_id validators =
     (let key = as_bytes event_id;
          existing_bytes = os_get os storage OFFCHAIN_PREFIX key
      in (case read_signers bc existing_bytes of
            Inl e \<Rightarrow> Some (Inl (Err (error_from_bincode e)), storage)
          | Inr signers_list \<Rightarrow>
              (let retained = retain_signers os bc event_id validators storage signers_list;
                   storage1 = interfere env (snd retained)
               in (case fst retained of
                     Inl f \<Rightarrow> Some (Inl f, storage1)
                   | Inr kept \<Rightarrow>
                       (case ser_pairs bc kept of
                          Inl e \<Rightarrow> Some (Inl (Err (error_from_bincode e)), storage1)
                        | Inr new_bytes \<Rightarrow>
                            (let done_storage =
                               os_compare_and_set os storage1 OFFCHAIN_PREFIX key existing_bytes new_bytes
                             in if fst done_storage then Some (Inr (), snd done_storage)
                                else purge_loop os bc (tl env) (snd done_storage) event_id validators))))))"

definition offchain_purge ::
    "'st offchain_storage \<Rightarrow> bincode \<Rightarrow> ('st \<Rightarrow> 'st) list \<Rightarrow> 'st \<Rightarrow> h256 \<Rightarrow> crypto_pair list
      \<Rightarrow> unit vs_result \<times> 'st" where
  "offchain_purge os bc env storage event_id validators =
     (case purge_loop os bc env storage event_id validators of
        None \<Rightarrow> (Inl Diverge, storage)
      | Some r \<Rightarrow> r)"

section \<open>What the storage holds\<close>

definition offchain_proof ::
    "'st offchain_storage \<Rightarrow> bincode \<Rightarrow> 'st \<Rightarrow> h256 \<Rightarrow> crypto_pair \<Rightarrow> bytes option" where
  "offchain_proof os bc st e k =
     (case proof_key bc e k of Inl _ \<Rightarrow> None | Inr key \<Rightarrow> os_get os st OFFCHAIN_PREFIX key)"

definition offchain_signers ::
    "'st offchain_storage \<Rightarrow> bincode \<Rightarrow> 'st \<Rightarrow> h256 \<Rightarrow> string + crypto_pair list" where
  "offchain_signers os bc st e = read_signers bc (os_get os st OFFCHAIN_PREFIX (as_bytes e))"

text \<open>
  The invariant: every list of signers can be read, and it lists every key that has a signature
  stored for the event.
\<close>

definition offchain_invar :: "'st offchain_storage \<Rightarrow> bincode \<Rightarrow> 'st \<Rightarrow> bool" where
  "offchain_invar os bc st \<longleftrightarrow>
     storage_laws os \<and> bincode_laws bc \<and>
     (\<forall>e. \<exists>ks. offchain_signers os bc st e = Inr ks \<and>
        (\<forall>k. offchain_proof os bc st e k \<noteq> None \<longrightarrow> k \<in> set ks))"

lemma storage_rules:
  assumes "storage_laws os"
  shows "os_get os (os_set os st p k v) p' k' = (if p' = p \<and> k' = k then Some v else os_get os st p' k')"
    and "os_get os (os_remove os st p k) p' k' = (if p' = p \<and> k' = k then None else os_get os st p' k')"
    and "fst (os_compare_and_set os st p k old v) = (os_get os st p k = old)"
    and "os_get os (snd (os_compare_and_set os st p k old v)) p' k' =
      (if os_get os st p k = old \<and> p' = p \<and> k' = k then Some v else os_get os st p' k')"
  using assms unfolding storage_laws_def by simp_all

text \<open>
  An update of a proof's key or of an event's list, seen through \<open>offchain_proof\<close> and
  \<open>offchain_signers\<close>. The two kinds of keys never meet.
\<close>

lemma offchain_proof_upd:
  assumes "bincode_laws bc" and "proof_key bc e k = Inr key"
    and "\<And>key'. os_get os st' OFFCHAIN_PREFIX key' =
      (if key' = key then v else os_get os st OFFCHAIN_PREFIX key')"
  shows "offchain_proof os bc st' e' k' =
      (if e' = e \<and> k' = k then v else offchain_proof os bc st e' k')"
    and "offchain_signers os bc st' e' = offchain_signers os bc st e'"
proof -
  obtain b where b: "proof_key bc e' k' = Inr b" by (rule proof_keyE [OF assms(1)])
  have "b = key \<longleftrightarrow> e' = e \<and> k' = k"
    using b assms(2) proof_key_inj [OF assms(1) b, of e k] by auto
  then show "offchain_proof os bc st' e' k' =
      (if e' = e \<and> k' = k then v else offchain_proof os bc st e' k')"
    by (simp add: offchain_proof_def b assms(3))
  show "offchain_signers os bc st' e' = offchain_signers os bc st e'"
    using assms(3) proof_key_not_event [OF assms(1,2), of e'] by (auto simp: offchain_signers_def)
qed

lemma offchain_signers_upd:
  assumes "bincode_laws bc" and "read_signers bc v = r"
    and "\<And>key'. os_get os st' OFFCHAIN_PREFIX key' =
      (if key' = as_bytes e then v else os_get os st OFFCHAIN_PREFIX key')"
  shows "offchain_proof os bc st' e' k = offchain_proof os bc st e' k"
    and "offchain_signers os bc st' e' = (if e' = e then r else offchain_signers os bc st e')"
proof -
  show "offchain_proof os bc st' e' k = offchain_proof os bc st e' k"
    using assms(3) proof_key_not_event [OF assms(1), of e' k _ e]
    by (auto simp: offchain_proof_def split: sum.split)
  show "offchain_signers os bc st' e' = (if e' = e then r else offchain_signers os bc st e')"
    using assms(2,3) by (auto simp: offchain_signers_def)
qed

section \<open>The operations, undisturbed\<close>

lemma add_signer_loop_alone:
  assumes laws: "storage_laws os" "bincode_laws bc"
    and ks: "offchain_signers os bc st (we_event_id w) = Inr ks"
  obtains st' where "add_signer_loop os bc [] st w = Some (Inr (), st')"
    and "\<And>e k. offchain_proof os bc st' e k = offchain_proof os bc st e k"
    and "\<And>e. offchain_signers os bc st' e =
      (if e = we_event_id w then Inr (ks @ [we_pub_key w]) else offchain_signers os bc st e)"
proof -
  define key where "key = as_bytes (we_event_id w)"
  obtain nb where nb: "ser_pairs bc (ks @ [we_pub_key w]) = Inr nb" "de_pairs bc nb = Inr (ks @ [we_pub_key w])"
    by (rule bincode_pairsE [OF laws(2)])
  define st' where
    "st' = snd (os_compare_and_set os st OFFCHAIN_PREFIX key (os_get os st OFFCHAIN_PREFIX key) nb)"
  have get': "os_get os st' OFFCHAIN_PREFIX key' =
      (if key' = as_bytes (we_event_id w) then Some nb else os_get os st OFFCHAIN_PREFIX key')" for key'
    by (simp add: st'_def key_def storage_rules [OF laws(1)])
  have "add_signer_loop os bc [] st w = Some (Inr (), st')"
    using ks nb
    by (subst add_signer_loop.simps)
      (simp add: offchain_signers_def interfere_def storage_rules [OF laws(1)] st'_def key_def Let_def)
  moreover have "read_signers bc (Some nb) = Inr (ks @ [we_pub_key w])"
    by (simp add: read_signers_def nb)
  note offchain_signers_upd [OF laws(2) this get']
  ultimately show ?thesis by (rule that)
qed

lemma offchain_add_alone:
  assumes "offchain_invar os bc st"
  obtains st' ks where "offchain_add os bc [] st w = (Inr (), st')"
    and "\<And>e k. offchain_proof os bc st' e k =
      (if e = we_event_id w \<and> k = we_pub_key w then Some (we_signature w) else offchain_proof os bc st e k)"
    and "offchain_signers os bc st (we_event_id w) = Inr ks"
    and "\<And>e. offchain_signers os bc st' e =
      (if e = we_event_id w then Inr (ks @ [we_pub_key w]) else offchain_signers os bc st e)"
proof -
  have laws: "storage_laws os" "bincode_laws bc" using assms by (simp_all add: offchain_invar_def)
  obtain ks where ks: "offchain_signers os bc st (we_event_id w) = Inr ks"
    using assms unfolding offchain_invar_def by blast
  obtain b where key: "proof_key bc (we_event_id w) (we_pub_key w) = Inr (as_bytes (we_event_id w) @ b)"
    by (rule proof_keyE [OF laws(2)])
  define st1 where "st1 = os_set os st OFFCHAIN_PREFIX (as_bytes (we_event_id w) @ b) (we_signature w)"
  have get1: "os_get os st1 OFFCHAIN_PREFIX key' =
      (if key' = as_bytes (we_event_id w) @ b then Some (we_signature w)
       else os_get os st OFFCHAIN_PREFIX key')" for key'
    by (simp add: st1_def storage_rules [OF laws(1)])
  note st1 = offchain_proof_upd [OF laws(2) key get1]
  have "offchain_signers os bc st1 (we_event_id w) = Inr ks" using ks st1(2) by simp
  then obtain st' where "add_signer_loop os bc [] st1 w = Some (Inr (), st')"
    and p: "\<And>e k. offchain_proof os bc st' e k = offchain_proof os bc st1 e k"
    and s: "\<And>e. offchain_signers os bc st' e =
      (if e = we_event_id w then Inr (ks @ [we_pub_key w]) else offchain_signers os bc st1 e)"
    using add_signer_loop_alone [OF laws] by blast
  then have "offchain_add os bc [] st w = (Inr (), st')"
    by (simp add: offchain_add_def key st1_def Let_def)
  then show ?thesis using ks p s st1 by (intro that [of st' ks]) simp_all
qed

lemma offchain_lookups_eq:
  assumes "bincode_laws bc"
  shows "offchain_lookups os bc st e vs = Inr (map (\<lambda>k. (k, offchain_proof os bc st e k)) vs)"
proof (induction vs)
  case (Cons k vs)
  obtain b where "proof_key bc e k = Inr (as_bytes e @ b)" by (rule proof_keyE [OF assms])
  with Cons show ?case by (simp add: offchain_proof_def)
qed simp

lemma offchain_get_eq:
  assumes "bincode_laws bc"
  obtains m where "offchain_get os bc st e vs = Inr m"
    and "\<And>k. fmlookup m k = (if k \<in> set vs then offchain_proof os bc st e k else None)"
proof -
  have "List.map_filter (\<lambda>(k, r). map_option (Pair k) r) (map (\<lambda>k. (k, offchain_proof os bc st e k)) vs) =
      List.map_filter (\<lambda>k. map_option (Pair k) (offchain_proof os bc st e k)) vs"
    by (induction vs) (simp_all add: List.map_filter_simps split: option.split)
  then show ?thesis
    using that fmlookup_hm_collect_fun [where f = "offchain_proof os bc st e" and ks = vs]
    by (simp add: offchain_get_def offchain_lookups_eq [OF assms])
qed

lemma offchain_count_eq:
  assumes "bincode_laws bc"
  shows "offchain_count os bc st e vs =
    Inr (as_u16 (length (filter (\<lambda>k. offchain_proof os bc st e k \<noteq> None) vs)))"
  by (simp add: offchain_count_def offchain_lookups_eq [OF assms] filter_map o_def)

lemma retain_signers_eq:
  assumes laws: "storage_laws os" "bincode_laws bc"
  obtains st' where "retain_signers os bc e vs st ks = (Inr (filter (\<lambda>k. k \<in> set vs) ks), st')"
    and "\<And>e' k. offchain_proof os bc st' e' k =
      (if e' = e \<and> k \<in> set ks \<and> k \<notin> set vs then None else offchain_proof os bc st e' k)"
    and "\<And>e'. os_get os st' OFFCHAIN_PREFIX (as_bytes e') = os_get os st OFFCHAIN_PREFIX (as_bytes e')"
proof (induction ks arbitrary: st thesis)
  case Nil
  then show ?case by simp
next
  case (Cons k ks)
  show ?case
  proof (cases "k \<in> set vs")
    case True
    obtain st' where r: "retain_signers os bc e vs st ks = (Inr (filter (\<lambda>k. k \<in> set vs) ks), st')"
      and p: "\<And>e' k. offchain_proof os bc st' e' k =
        (if e' = e \<and> k \<in> set ks \<and> k \<notin> set vs then None else offchain_proof os bc st e' k)"
      and l: "\<And>e'. os_get os st' OFFCHAIN_PREFIX (as_bytes e') = os_get os st OFFCHAIN_PREFIX (as_bytes e')"
      by (rule Cons.IH [of st]) blast
    with True show ?thesis by (intro Cons.prems [of st']) (auto split: if_splits)
  next
    case False
    obtain b where key: "proof_key bc e k = Inr (as_bytes e @ b)" by (rule proof_keyE [OF laws(2)])
    define st1 where "st1 = os_remove os st OFFCHAIN_PREFIX (as_bytes e @ b)"
    have get1: "os_get os st1 OFFCHAIN_PREFIX key' =
        (if key' = as_bytes e @ b then None else os_get os st OFFCHAIN_PREFIX key')" for key'
      by (simp add: st1_def storage_rules [OF laws(1)])
    note st1 = offchain_proof_upd [OF laws(2) key get1]
    have lists: "os_get os st1 OFFCHAIN_PREFIX (as_bytes e') = os_get os st OFFCHAIN_PREFIX (as_bytes e')" for e'
      using proof_key_not_event [OF laws(2) key, of e'] by (auto simp: get1)
    obtain st' where r: "retain_signers os bc e vs st1 ks = (Inr (filter (\<lambda>k. k \<in> set vs) ks), st')"
      and p: "\<And>e' k. offchain_proof os bc st' e' k =
        (if e' = e \<and> k \<in> set ks \<and> k \<notin> set vs then None else offchain_proof os bc st1 e' k)"
      and l: "\<And>e'. os_get os st' OFFCHAIN_PREFIX (as_bytes e') = os_get os st1 OFFCHAIN_PREFIX (as_bytes e')"
      by (rule Cons.IH [of st1]) blast
    show ?thesis
    proof (rule Cons.prems)
      show "retain_signers os bc e vs st (k # ks) = (Inr (filter (\<lambda>k. k \<in> set vs) (k # ks)), st')"
        using False key r by (simp add: st1_def)
      show "offchain_proof os bc st' e' k' =
          (if e' = e \<and> k' \<in> set (k # ks) \<and> k' \<notin> set vs then None else offchain_proof os bc st e' k')"
        for e' k' using p [of e' k'] st1(1) [of e' k'] False by auto
      show "os_get os st' OFFCHAIN_PREFIX (as_bytes e') = os_get os st OFFCHAIN_PREFIX (as_bytes e')" for e'
        using l lists by simp
    qed
  qed
qed

lemma offchain_purge_alone:
  assumes inv: "offchain_invar os bc st"
  obtains st' ks where "offchain_purge os bc [] st e vs = (Inr (), st')"
    and "\<And>e' k. offchain_proof os bc st' e' k =
      (if e' = e \<and> k \<notin> set vs then None else offchain_proof os bc st e' k)"
    and "offchain_signers os bc st e = Inr ks"
    and "\<And>e'. offchain_signers os bc st' e' =
      (if e' = e then Inr (filter (\<lambda>k. k \<in> set vs) ks) else offchain_signers os bc st e')"
proof -
  have laws: "storage_laws os" "bincode_laws bc" using inv by (simp_all add: offchain_invar_def)
  obtain ks where ks: "offchain_signers os bc st e = Inr ks"
    and all: "\<And>k. offchain_proof os bc st e k \<noteq> None \<Longrightarrow> k \<in> set ks"
    using inv unfolding offchain_invar_def by blast
  obtain st1 where r: "retain_signers os bc e vs st ks = (Inr (filter (\<lambda>k. k \<in> set vs) ks), st1)"
    and p: "\<And>e' k. offchain_proof os bc st1 e' k =
      (if e' = e \<and> k \<in> set ks \<and> k \<notin> set vs then None else offchain_proof os bc st e' k)"
    and l: "\<And>e'. os_get os st1 OFFCHAIN_PREFIX (as_bytes e') = os_get os st OFFCHAIN_PREFIX (as_bytes e')"
    by (rule retain_signers_eq [OF laws, of e vs st ks]) blast
  obtain nb where nb: "ser_pairs bc (filter (\<lambda>k. k \<in> set vs) ks) = Inr nb"
      "de_pairs bc nb = Inr (filter (\<lambda>k. k \<in> set vs) ks)"
    by (rule bincode_pairsE [OF laws(2)])
  define st' where "st' = snd (os_compare_and_set os st1 OFFCHAIN_PREFIX (as_bytes e)
      (os_get os st OFFCHAIN_PREFIX (as_bytes e)) nb)"
  have get': "os_get os st' OFFCHAIN_PREFIX key' =
      (if key' = as_bytes e then Some nb else os_get os st1 OFFCHAIN_PREFIX key')" for key'
    by (simp add: st'_def storage_rules [OF laws(1)] l)
  have "read_signers bc (Some nb) = Inr (filter (\<lambda>k. k \<in> set vs) ks)"
    by (simp add: read_signers_def nb)
  note st' = offchain_signers_upd [OF laws(2) this get']
  have "purge_loop os bc [] st e vs = Some (Inr (), st')"
    using ks r nb
    by (subst purge_loop.simps)
      (simp add: offchain_signers_def interfere_def storage_rules [OF laws(1)] st'_def l Let_def)
  then have run: "offchain_purge os bc [] st e vs = (Inr (), st')" by (simp add: offchain_purge_def)
  have "offchain_proof os bc st' e' k =
      (if e' = e \<and> k \<notin> set vs then None else offchain_proof os bc st e' k)" for e' k
    using p st'(1) all [of k] by (cases "offchain_proof os bc st e k") auto
  moreover have "offchain_signers os bc st' e' =
      (if e' = e then Inr (filter (\<lambda>k. k \<in> set vs) ks) else offchain_signers os bc st e')" for e'
    using st'(2) l by (simp add: offchain_signers_def)
  ultimately show ?thesis using run ks by (intro that)
qed

section \<open>The contract\<close>

lemma offchain_add_invar:
  assumes "offchain_invar os bc st" and "offchain_add os bc [] st w = (r, st')"
  shows "offchain_invar os bc st'"
proof -
  obtain ks where sig: "\<And>e k. offchain_proof os bc st' e k =
      (if e = we_event_id w \<and> k = we_pub_key w then Some (we_signature w) else offchain_proof os bc st e k)"
    and ks: "offchain_signers os bc st (we_event_id w) = Inr ks"
    and lists: "\<And>e. offchain_signers os bc st' e =
      (if e = we_event_id w then Inr (ks @ [we_pub_key w]) else offchain_signers os bc st e)"
    using assms offchain_add_alone [OF assms(1), of w] by (metis prod.inject)
  have "\<exists>ks'. offchain_signers os bc st' e = Inr ks' \<and>
      (\<forall>k. offchain_proof os bc st' e k \<noteq> None \<longrightarrow> k \<in> set ks')" for e
  proof -
    obtain ke where "offchain_signers os bc st e = Inr ke"
      and "\<forall>k. offchain_proof os bc st e k \<noteq> None \<longrightarrow> k \<in> set ke"
      using assms(1) unfolding offchain_invar_def by blast
    with ks sig lists show ?thesis by (cases "e = we_event_id w") auto
  qed
  with assms(1) show ?thesis unfolding offchain_invar_def by blast
qed

lemma offchain_purge_invar:
  assumes "offchain_invar os bc st" and "offchain_purge os bc [] st e vs = (r, st')"
  shows "offchain_invar os bc st'"
proof -
  obtain ks where sig: "\<And>e' k. offchain_proof os bc st' e' k =
      (if e' = e \<and> k \<notin> set vs then None else offchain_proof os bc st e' k)"
    and ks: "offchain_signers os bc st e = Inr ks"
    and lists: "\<And>e'. offchain_signers os bc st' e' =
      (if e' = e then Inr (filter (\<lambda>k. k \<in> set vs) ks) else offchain_signers os bc st e')"
    using assms offchain_purge_alone [OF assms(1), of e vs] by (metis prod.inject)
  have "\<exists>ks'. offchain_signers os bc st' e' = Inr ks' \<and>
      (\<forall>k. offchain_proof os bc st' e' k \<noteq> None \<longrightarrow> k \<in> set ks')" for e'
  proof -
    obtain ke where "offchain_signers os bc st e' = Inr ke"
      and "\<forall>k. offchain_proof os bc st e' k \<noteq> None \<longrightarrow> k \<in> set ke"
      using assms(1) unfolding offchain_invar_def by blast
    with ks sig lists show ?thesis by (cases "e' = e") auto
  qed
  with assms(1) show ?thesis unfolding offchain_invar_def by blast
qed

interpretation oc: event_proofs_trait "offchain_add os bc []" "offchain_get os bc" "offchain_count os bc"
  "offchain_purge os bc []" "offchain_proof os bc" "offchain_invar os bc" for os bc
proof (unfold_locales, goal_cases)
  case (1 s w r s')
  then show ?case by (rule offchain_add_invar)
next
  case (2 s w r s' e k)
  then show ?case using offchain_add_alone [OF 2(1), of w] by (metis prod.inject)
next
  case (3 s w s')
  then show ?case
    using offchain_add_alone [OF 3(1), of w] by (metis option.discI prod.inject)
next
  case (4 s e vs m k)
  then have "bincode_laws bc" by (simp add: offchain_invar_def)
  then show ?case using offchain_get_eq [of bc os s e vs] 4(2) by (metis sum.inject(2))
next
  case (5 s e vs n)
  then have "bincode_laws bc" by (simp add: offchain_invar_def)
  then have "unat n \<le> length (filter (\<lambda>k. offchain_proof os bc s e k \<noteq> None) vs)"
    using 5(2) by (auto simp: offchain_count_eq unat_as_u16)
  then show ?case by (simp add: filter_length_card [OF 5(3)])
next
  case (6 s e vs m n)
  then have bc: "bincode_laws bc" by (simp add: offchain_invar_def)
  then have lk: "fmlookup m k = (if k \<in> set vs then offchain_proof os bc s e k else None)" for k
    using offchain_get_eq [of bc os s e vs] 6(2) by (metis sum.inject(2))
  have "length (filter (\<lambda>k. offchain_proof os bc s e k \<noteq> None) vs) < 65536"
    using 6(5) length_filter_le [of "\<lambda>k. offchain_proof os bc s e k \<noteq> None" vs] by linarith
  then show ?case
    using 6(3,4) hm_len_le_restricted(1) [OF lk]
    by (auto simp: offchain_count_eq [OF bc] filter_length_card)
next
  case (7 s e vs r s')
  then show ?case by (rule offchain_purge_invar)
next
  case (8 s e vs r s' e' k)
  then show ?case using offchain_purge_alone [OF 8(1), of e vs] by (metis prod.inject)
next
  case (9 s e vs s' k)
  then show ?case using offchain_purge_alone [OF 9(1), of e vs] by (metis prod.inject)
qed

interpretation ocr: robust_proofs_trait "offchain_add os bc []" "offchain_get os bc" "offchain_count os bc"
  "offchain_purge os bc []" "offchain_proof os bc" "offchain_invar os bc" for os bc
proof (unfold_locales, goal_cases)
  case (1 s w)
  then show ?case by (rule offchain_add_alone [of os bc s w]) simp
next
  case (2 s e vs)
  then have "bincode_laws bc" by (simp add: offchain_invar_def)
  then show ?case by (rule offchain_get_eq [of bc os s e vs]) simp
next
  case (3 s e vs)
  then show ?case by (simp add: offchain_count_eq offchain_invar_def)
next
  case (4 s e vs)
  then show ?case by (rule offchain_purge_alone [of os bc s e vs]) simp
qed

end
