(* ===== verification/RocksDb_Proofs.thy ===== *)
theory RocksDb_Proofs
  imports Event_Proofs
begin

text \<open>
  \<open>RocksDbEventProofs\<close> (\<open>src/consensus/src/proofs/rocksdb.rs\<close>). The database is a parameter: the record
  \<open>rocksdb\<close> of the functions the code calls, each of which may return a database error, and the map
  \<open>db_entries\<close> of what a database state holds, about which \<open>rocksdb_laws\<close> says: a write or a delete that
  succeeds is applied, one that fails is applied or not; a read that succeeds returns what is stored;
  a prefix iterator yields stored entries only, and where no entry of it is an error it yields every
  key with the prefix (it may run on past the prefix). The interpretation \<open>rd\<close> discharges the trait's
  contract.
\<close>

section \<open>The database\<close>

record 'db rocksdb =
  db_put :: "'db \<Rightarrow> bytes \<Rightarrow> bytes \<Rightarrow> (string + unit) \<times> 'db"
  db_multi_get :: "'db \<Rightarrow> bytes list \<Rightarrow> (string + bytes option) list"
  db_prefix_iterator :: "'db \<Rightarrow> bytes \<Rightarrow> (string + bytes \<times> bytes) list"
  db_delete :: "'db \<Rightarrow> bytes \<Rightarrow> (string + unit) \<times> 'db"
  db_entries :: "'db \<Rightarrow> bytes \<Rightarrow> bytes option"

definition rocksdb_laws :: "'db rocksdb \<Rightarrow> bool" where
  "rocksdb_laws ops \<longleftrightarrow>
     (\<forall>db k v r db'. db_put ops db k v = (r, db') \<longrightarrow>
        db_entries ops db' = (db_entries ops db)(k \<mapsto> v) \<or>
        r \<noteq> Inr () \<and> db_entries ops db' = db_entries ops db) \<and>
     (\<forall>db k r db'. db_delete ops db k = (r, db') \<longrightarrow>
        db_entries ops db' = (db_entries ops db)(k := None) \<or>
        r \<noteq> Inr () \<and> db_entries ops db' = db_entries ops db) \<and>
     (\<forall>db ks. length (db_multi_get ops db ks) = length ks) \<and>
     (\<forall>db ks i v. i < length ks \<longrightarrow> db_multi_get ops db ks ! i = Inr v \<longrightarrow> v = db_entries ops db (ks ! i)) \<and>
     (\<forall>db p k v. Inr (k, v) \<in> set (db_prefix_iterator ops db p) \<longrightarrow> db_entries ops db k = Some v) \<and>
     (\<forall>db p k v. (\<forall>e. Inl e \<notin> set (db_prefix_iterator ops db p)) \<longrightarrow>
        db_entries ops db (p @ k) = Some v \<longrightarrow> Inr (p @ k, v) \<in> set (db_prefix_iterator ops db p))"

definition rocksdb_create :: "(string \<Rightarrow> string + 'db) \<Rightarrow> string \<Rightarrow> 'db vs_result" where
  "rocksdb_create open_default path = unwrap (open_default path)"

definition rocksdb_destroy :: "(string \<Rightarrow> string + unit) \<Rightarrow> string \<Rightarrow> unit vs_result" where
  "rocksdb_destroy destroy path = question error_from_rocksdb (destroy path)"

section \<open>Operations\<close>

definition rocksdb_add ::
    "'db rocksdb \<Rightarrow> bincode \<Rightarrow> 'db \<Rightarrow> witnessed_event \<Rightarrow> unit vs_result \<times> 'db" where
  "rocksdb_add ops bc db event =
     (case proof_key bc (we_event_id event) (we_pub_key event) of
        Inl e \<Rightarrow> (Inl (Err (error_from_bincode e)), db)
      | Inr key \<Rightarrow>
          (case db_put ops db key (we_signature event) of
             (r, db') \<Rightarrow> (question error_from_rocksdb r, db')))"

fun rocksdb_keys :: "bincode \<Rightarrow> h256 \<Rightarrow> crypto_pair list \<Rightarrow> bytes list vs_result" where
  "rocksdb_keys bc event_id [] = Inr []"
| "rocksdb_keys bc event_id (pub_key # validators) =
     and_then (unwrap (proof_key bc event_id pub_key)) (\<lambda>key.
       and_then (rocksdb_keys bc event_id validators) (\<lambda>keys. Inr (key # keys)))"

text \<open>
  Collecting an iterator of results into a \<open>Result\<close>: the first error, or all the pairs.
\<close>

fun collect_proofs :: "(crypto_pair \<times> (string + bytes option)) list \<Rightarrow> (crypto_pair \<times> bytes) list vs_result" where
  "collect_proofs [] = Inr []"
| "collect_proofs ((pub_key, Inr (Some signature)) # rs) =
     and_then (collect_proofs rs) (\<lambda>kvs. Inr ((pub_key, signature) # kvs))"
| "collect_proofs ((pub_key, Inr None) # rs) = collect_proofs rs"
| "collect_proofs ((pub_key, Inl e) # rs) = Inl (Err (error_from_rocksdb e))"

definition rocksdb_get ::
    "'db rocksdb \<Rightarrow> bincode \<Rightarrow> 'db \<Rightarrow> h256 \<Rightarrow> crypto_pair list \<Rightarrow> proofs_map vs_result" where
  "rocksdb_get ops bc db event_id validators =
     and_then (rocksdb_keys bc event_id validators) (\<lambda>keys.
       and_then (collect_proofs (zip validators (db_multi_get ops db keys))) (\<lambda>kvs.
         Inr (hm_collect kvs)))"

definition rocksdb_count ::
    "'db rocksdb \<Rightarrow> bincode \<Rightarrow> 'db \<Rightarrow> h256 \<Rightarrow> crypto_pair list \<Rightarrow> u16 vs_result" where
  "rocksdb_count ops bc db event_id validators =
     and_then (rocksdb_keys bc event_id validators) (\<lambda>keys.
       Inr (as_u16 (length (filter (\<lambda>r. case r of Inr (Some _) \<Rightarrow> True | _ \<Rightarrow> False)
         (db_multi_get ops db keys)))))"

fun rocksdb_purge_loop ::
    "'db rocksdb \<Rightarrow> bincode \<Rightarrow> crypto_pair list \<Rightarrow> 'db \<Rightarrow> (string + bytes \<times> bytes) list
      \<Rightarrow> unit vs_result \<times> 'db" where
  "rocksdb_purge_loop ops bc validators db [] = (Inr (), db)"
| "rocksdb_purge_loop ops bc validators db (Inl e # rs) = (Inl (Err (error_from_rocksdb e)), db)"
| "rocksdb_purge_loop ops bc validators db (Inr (key, signature) # rs) =
     (if length key < 32 then (Inl (Panic ''range start index out of range''), db)
      else (case de_pair bc (drop 32 key) of
              Inl e \<Rightarrow> (Inl (Err (error_from_bincode e)), db)
            | Inr pub_key \<Rightarrow>
                if pub_key \<notin> set validators then
                  (case db_delete ops db key of
                     (Inl e, db') \<Rightarrow> (Inl (Err (error_from_rocksdb e)), db')
                   | (Inr _, db') \<Rightarrow> rocksdb_purge_loop ops bc validators db' rs)
                else rocksdb_purge_loop ops bc validators db rs))"

definition rocksdb_purge ::
    "'db rocksdb \<Rightarrow> bincode \<Rightarrow> 'db \<Rightarrow> h256 \<Rightarrow> crypto_pair list \<Rightarrow> unit vs_result \<times> 'db" where
  "rocksdb_purge ops bc db event_id validators =
     rocksdb_purge_loop ops bc validators db (db_prefix_iterator ops db (as_bytes event_id))"

section \<open>What the database holds\<close>

definition rocksdb_proof ::
    "'db rocksdb \<Rightarrow> bincode \<Rightarrow> 'db \<Rightarrow> h256 \<Rightarrow> crypto_pair \<Rightarrow> bytes option" where
  "rocksdb_proof ops bc db e k =
     (case proof_key bc e k of Inl _ \<Rightarrow> None | Inr key \<Rightarrow> db_entries ops db key)"

text \<open>
  The invariant: every key of the database is the key of a proof.
\<close>

definition rocksdb_invar :: "'db rocksdb \<Rightarrow> bincode \<Rightarrow> 'db \<Rightarrow> bool" where
  "rocksdb_invar ops bc db \<longleftrightarrow>
     rocksdb_laws ops \<and> bincode_laws bc \<and>
     (\<forall>key v. db_entries ops db key = Some v \<longrightarrow> (\<exists>e k. proof_key bc e k = Inr key))"

lemma rocksdb_put_law:
  "rocksdb_laws ops \<Longrightarrow> db_put ops db k v = (r, db') \<Longrightarrow>
   db_entries ops db' = (db_entries ops db)(k \<mapsto> v) \<or>
   r \<noteq> Inr () \<and> db_entries ops db' = db_entries ops db"
  unfolding rocksdb_laws_def by (elim conjE) metis

lemma rocksdb_delete_law:
  "rocksdb_laws ops \<Longrightarrow> db_delete ops db k = (r, db') \<Longrightarrow>
   db_entries ops db' = (db_entries ops db)(k := None) \<or>
   r \<noteq> Inr () \<and> db_entries ops db' = db_entries ops db"
  unfolding rocksdb_laws_def by (elim conjE) metis

lemma rocksdb_multi_get_law:
  assumes "rocksdb_laws ops"
  shows "length (db_multi_get ops db ks) = length ks"
    and "i < length ks \<Longrightarrow> db_multi_get ops db ks ! i = Inr v \<Longrightarrow> v = db_entries ops db (ks ! i)"
  using assms unfolding rocksdb_laws_def by blast+

lemma rocksdb_iterator_law:
  assumes "rocksdb_laws ops"
  shows "Inr (k, v) \<in> set (db_prefix_iterator ops db p) \<Longrightarrow> db_entries ops db k = Some v"
    and "(\<And>e. Inl e \<notin> set (db_prefix_iterator ops db p)) \<Longrightarrow>
      db_entries ops db (p @ k) = Some v \<Longrightarrow> Inr (p @ k, v) \<in> set (db_prefix_iterator ops db p)"
  using assms unfolding rocksdb_laws_def by blast+

lemma rocksdb_proof_upd:
  assumes "bincode_laws bc" and "proof_key bc e k = Inr key"
    and "db_entries ops db' = (db_entries ops db)(key := v)"
  shows "rocksdb_proof ops bc db' e' k' =
    (if e' = e \<and> k' = k then v else rocksdb_proof ops bc db e' k')"
proof -
  obtain b where b: "proof_key bc e' k' = Inr b" by (rule proof_keyE [OF assms(1)])
  have "b = key \<longleftrightarrow> e' = e \<and> k' = k"
    using b assms(2) proof_key_inj [OF assms(1) b, of e k] by auto
  then show ?thesis by (simp add: rocksdb_proof_def b assms(3))
qed

lemma rocksdb_proof_same:
  "db_entries ops db' = db_entries ops db \<Longrightarrow> rocksdb_proof ops bc db' = rocksdb_proof ops bc db"
  by (intro ext) (simp add: rocksdb_proof_def split: sum.split)

section \<open>Reads\<close>

text \<open>
  What \<open>multi_get\<close> returns for the keys of the validators: for each validator an error or its proof.
\<close>

abbreviation answers ::
    "'db rocksdb \<Rightarrow> bincode \<Rightarrow> 'db \<Rightarrow> h256 \<Rightarrow> crypto_pair list \<Rightarrow> (string + bytes option) list \<Rightarrow> bool" where
  "answers ops bc db e vs rs \<equiv>
     list_all2 (\<lambda>k r. \<forall>v. r = Inr v \<longrightarrow> v = rocksdb_proof ops bc db e k) vs rs"

lemma rocksdb_keys_eq:
  assumes "bincode_laws bc"
  obtains keys where "rocksdb_keys bc e vs = Inr keys"
    and "list_all2 (\<lambda>k key. proof_key bc e k = Inr key) vs keys"
proof (induction vs arbitrary: thesis)
  case (Cons k vs)
  obtain keys where "rocksdb_keys bc e vs = Inr keys"
    and "list_all2 (\<lambda>k key. proof_key bc e k = Inr key) vs keys"
    by (rule Cons.IH)
  moreover obtain b where "proof_key bc e k = Inr (as_bytes e @ b)" by (rule proof_keyE [OF assms])
  ultimately show ?case by (intro Cons.prems) auto
qed simp

lemma rocksdb_answers:
  assumes "rocksdb_laws ops" and "bincode_laws bc"
  obtains keys where "rocksdb_keys bc e vs = Inr keys"
    and "answers ops bc db e vs (db_multi_get ops db keys)"
proof -
  obtain keys where keys: "rocksdb_keys bc e vs = Inr keys"
    and ok: "list_all2 (\<lambda>k key. proof_key bc e k = Inr key) vs keys"
    by (rule rocksdb_keys_eq [OF assms(2)])
  have "answers ops bc db e vs (db_multi_get ops db keys)"
  proof (rule list_all2_all_nthI)
    show "length vs = length (db_multi_get ops db keys)"
      using list_all2_lengthD [OF ok] rocksdb_multi_get_law(1) [OF assms(1)] by simp
  next
    fix i assume i: "i < length vs"
    then have "proof_key bc e (vs ! i) = Inr (keys ! i)" and "i < length keys"
      using list_all2_nthD [OF ok] list_all2_lengthD [OF ok] by auto
    then show "\<forall>v. db_multi_get ops db keys ! i = Inr v \<longrightarrow> v = rocksdb_proof ops bc db e (vs ! i)"
      using rocksdb_multi_get_law(2) [OF assms(1)] by (simp add: rocksdb_proof_def)
  qed
  with keys show ?thesis by (rule that)
qed

lemma collect_proofs_eq:
  assumes "answers ops bc db e vs rs" and "collect_proofs (zip vs rs) = Inr kvs"
  shows "kvs = List.map_filter (\<lambda>k. map_option (Pair k) (rocksdb_proof ops bc db e k)) vs"
    and "length (filter (\<lambda>r. case r of Inr (Some _) \<Rightarrow> True | _ \<Rightarrow> False) rs) =
      length (filter (\<lambda>k. rocksdb_proof ops bc db e k \<noteq> None) vs)"
  using assms
proof (induction vs rs arbitrary: kvs rule: list_all2_induct)
  case (Cons k vs r rs)
  {
    case 1
    then show ?case
      using Cons by (cases r; cases "projr r") (auto simp: List.map_filter_simps and_then_eq_Inr)
  next
    case 2
    then show ?case
      using Cons by (cases r; cases "projr r") (auto simp: and_then_eq_Inr)
  }
qed (simp_all add: List.map_filter_simps)

lemma answers_count_le:
  "answers ops bc db e vs rs \<Longrightarrow>
   length (filter (\<lambda>r. case r of Inr (Some _) \<Rightarrow> True | _ \<Rightarrow> False) rs) \<le>
   length (filter (\<lambda>k. rocksdb_proof ops bc db e k \<noteq> None) vs)"
  by (induction vs rs rule: list_all2_induct) (auto split: sum.splits option.splits)

lemma rocksdb_get_spec:
  assumes "rocksdb_laws ops" "bincode_laws bc" and "rocksdb_get ops bc db e vs = Inr m"
  shows "fmlookup m k = (if k \<in> set vs then rocksdb_proof ops bc db e k else None)"
proof -
  obtain keys where keys: "rocksdb_keys bc e vs = Inr keys"
    and ans: "answers ops bc db e vs (db_multi_get ops db keys)"
    by (rule rocksdb_answers [OF assms(1,2)])
  obtain kvs where "collect_proofs (zip vs (db_multi_get ops db keys)) = Inr kvs" and "m = hm_collect kvs"
    using assms(3) keys by (auto simp: rocksdb_get_def and_then_eq_Inr)
  then show ?thesis
    using collect_proofs_eq(1) [OF ans] fmlookup_hm_collect_fun [where f = "rocksdb_proof ops bc db e"]
    by simp
qed

lemma rocksdb_count_bound:
  assumes "rocksdb_laws ops" "bincode_laws bc" and "rocksdb_count ops bc db e vs = Inr n"
  shows "unat n \<le> length (filter (\<lambda>k. rocksdb_proof ops bc db e k \<noteq> None) vs)"
    and "rocksdb_get ops bc db e vs = Inr m \<Longrightarrow> length vs < 65536 \<Longrightarrow>
      unat n = length (filter (\<lambda>k. rocksdb_proof ops bc db e k \<noteq> None) vs)"
proof -
  obtain keys where keys: "rocksdb_keys bc e vs = Inr keys"
    and ans: "answers ops bc db e vs (db_multi_get ops db keys)"
    by (rule rocksdb_answers [OF assms(1,2)])
  let ?c = "length (filter (\<lambda>r. case r of Inr (Some _) \<Rightarrow> True | _ \<Rightarrow> False) (db_multi_get ops db keys))"
  have n: "n = as_u16 ?c" using assms(3) keys by (simp add: rocksdb_count_def)
  show "unat n \<le> length (filter (\<lambda>k. rocksdb_proof ops bc db e k \<noteq> None) vs)"
    using answers_count_le [OF ans] by (simp add: n unat_as_u16)
  assume "rocksdb_get ops bc db e vs = Inr m" and len: "length vs < 65536"
  then obtain kvs where "collect_proofs (zip vs (db_multi_get ops db keys)) = Inr kvs"
    using keys by (auto simp: rocksdb_get_def and_then_eq_Inr)
  then have c: "?c = length (filter (\<lambda>k. rocksdb_proof ops bc db e k \<noteq> None) vs)"
    by (rule collect_proofs_eq(2) [OF ans])
  moreover have "?c < 65536"
    using c len length_filter_le [of "\<lambda>k. rocksdb_proof ops bc db e k \<noteq> None" vs] by linarith
  ultimately show "unat n = length (filter (\<lambda>k. rocksdb_proof ops bc db e k \<noteq> None) vs)"
    by (simp add: n)
qed

section \<open>Purging\<close>

lemma rocksdb_delete_proof:
  assumes "rocksdb_laws ops" "bincode_laws bc" and "proof_key bc e k = Inr key"
    and "db_delete ops db key = (r, db')"
  shows "rocksdb_proof ops bc db' e' k' = rocksdb_proof ops bc db e' k' \<or>
      e' = e \<and> k' = k \<and> rocksdb_proof ops bc db' e' k' = None"
    and "r = Inr () \<Longrightarrow> rocksdb_proof ops bc db' e k = None"
    and "db_entries ops db' key' = Some v \<Longrightarrow> db_entries ops db key' = Some v"
proof -
  note del = rocksdb_delete_law [OF assms(1,4)]
  show "rocksdb_proof ops bc db' e' k' = rocksdb_proof ops bc db e' k' \<or>
      e' = e \<and> k' = k \<and> rocksdb_proof ops bc db' e' k' = None"
    using del rocksdb_proof_upd [OF assms(2,3), of ops db' db None e' k']
      rocksdb_proof_same [of ops db' db bc] by (auto split: if_splits)
  show "r = Inr () \<Longrightarrow> rocksdb_proof ops bc db' e k = None"
    using del rocksdb_proof_upd [OF assms(2,3), of ops db' db None e k] by simp
  show "db_entries ops db' key' = Some v \<Longrightarrow> db_entries ops db key' = Some v"
    using del by (auto split: if_splits)
qed

abbreviation proof_entries :: "bincode \<Rightarrow> (string + bytes \<times> bytes) list \<Rightarrow> bool" where
  "proof_entries bc rs \<equiv> \<forall>key v. Inr (key, v) \<in> set rs \<longrightarrow> (\<exists>e k. proof_key bc e k = Inr key)"

text \<open>
  One iteration on the entry of key \<open>k\<close>: kept, or deleted with or without an error.
\<close>

lemma rocksdb_purge_loop_cases:
  assumes "bincode_laws bc" and "proof_entries bc (x # rs)"
    and "rocksdb_purge_loop ops bc vs db (x # rs) = (r, db')"
  obtains (error) err where "x = Inl err" and "r \<noteq> Inr ()" and "db' = db"
  | (keep) e k key v where "x = Inr (key, v)" and "proof_key bc e k = Inr key" and "k \<in> set vs"
    and "rocksdb_purge_loop ops bc vs db rs = (r, db')"
  | (failed) e k key v err where "x = Inr (key, v)" and "proof_key bc e k = Inr key" and "k \<notin> set vs"
    and "db_delete ops db key = (Inl err, db')" and "r \<noteq> Inr ()"
  | (deleted) e k key v db1 where "x = Inr (key, v)" and "proof_key bc e k = Inr key" and "k \<notin> set vs"
    and "db_delete ops db key = (Inr (), db1)" and "rocksdb_purge_loop ops bc vs db1 rs = (r, db')"
proof (cases x)
  case (Inl err)
  then show ?thesis using assms(3) error by auto
next
  case (Inr kv)
  obtain key v where x: "x = Inr (key, v)" using Inr by (cases kv) auto
  then obtain e k where key: "proof_key bc e k = Inr key"
    using assms(2) by (metis list.set_intros(1))
  obtain b where b: "key = as_bytes e @ b" "de_pair bc b = Inr k"
    using key proof_keyE [OF assms(1), of e k] by (metis Inr_inject)
  show ?thesis
    using assms(3) x b keep [OF x key] failed [OF x key] deleted [OF x key]
    by (auto split: if_splits prod.splits sum.splits)
qed

lemma rocksdb_purge_loop_keeps:
  assumes "rocksdb_laws ops" "bincode_laws bc" and "proof_entries bc rs"
    and "rocksdb_purge_loop ops bc vs db rs = (r, db')"
  shows "rocksdb_proof ops bc db' e' k' = rocksdb_proof ops bc db e' k' \<or>
      k' \<notin> set vs \<and> rocksdb_proof ops bc db' e' k' = None"
  using assms(3,4)
proof (induction rs arbitrary: db)
  case (Cons x rs)
  have rs: "proof_entries bc rs" using Cons.prems(1) by auto
  from assms(2) Cons.prems show ?case
  proof (cases rule: rocksdb_purge_loop_cases)
    case (keep e k key v)
    then show ?thesis using Cons.IH [OF rs] by blast
  next
    case (failed e k key v err)
    then show ?thesis using rocksdb_delete_proof(1) [OF assms(1,2) failed(2,4)] by auto
  next
    case (deleted e k key v db1)
    show ?thesis
      using Cons.IH [OF rs deleted(5)] rocksdb_delete_proof(1) [OF assms(1,2) deleted(2,4)] deleted(3)
      by metis
  qed simp
qed simp

lemma rocksdb_purge_loop_entries:
  assumes "rocksdb_laws ops" "bincode_laws bc" and "proof_entries bc rs"
    and "rocksdb_purge_loop ops bc vs db rs = (r, db')" and "db_entries ops db' key' = Some v'"
  shows "db_entries ops db key' = Some v'"
  using assms(3,4)
proof (induction rs arbitrary: db)
  case (Cons x rs)
  have rs: "proof_entries bc rs" using Cons.prems(1) by auto
  from assms(2) Cons.prems show ?case
    by (cases rule: rocksdb_purge_loop_cases)
      (use Cons.IH [OF rs] rocksdb_delete_proof(3) [OF assms(1,2)] assms(5) in \<open>blast+\<close>)
qed (use assms(5) in simp)

lemma rocksdb_purge_loop_ok:
  assumes "rocksdb_laws ops" "bincode_laws bc" and "proof_entries bc rs"
    and "rocksdb_purge_loop ops bc vs db rs = (Inr (), db')"
  shows "Inl err \<notin> set rs"
    and "Inr (key0, v0) \<in> set rs \<Longrightarrow> proof_key bc e0 k0 = Inr key0 \<Longrightarrow> k0 \<notin> set vs \<Longrightarrow>
      rocksdb_proof ops bc db' e0 k0 = None"
  using assms(3,4)
proof (induction rs arbitrary: db)
  case (Cons x rs)
  have rs: "proof_entries bc rs" if "proof_entries bc (x # rs)" using that by auto
  {
    case 1
    from assms(2) 1 show ?case
      by (cases rule: rocksdb_purge_loop_cases) (use Cons.IH(1) rs 1 in auto)
  next
    case 2
    note tl = rs [OF 2(4)]
    from assms(2) 2(4,5) show ?case
    proof (cases rule: rocksdb_purge_loop_cases)
      case (keep e k key v)
      then show ?thesis
        using 2(1-3) proof_key_inj [OF assms(2) keep(2), of e0 k0] Cons.IH(2) [OF _ 2(2,3) tl keep(4)]
        by auto
    next
      case (deleted e k key v db1)
      have "rocksdb_proof ops bc db1 e k = None"
        using rocksdb_delete_proof(2) [OF assms(1,2) deleted(2,4)] by simp
      then have "rocksdb_proof ops bc db' e k = None"
        using rocksdb_purge_loop_keeps [OF assms(1,2) tl deleted(5), of e k] by auto
      then show ?thesis
        using 2(1-3) proof_key_inj [OF assms(2) deleted(2), of e0 k0] deleted(1)
          Cons.IH(2) [OF _ 2(2,3) tl deleted(5)] by auto
    qed simp_all
  }
qed simp_all

lemma rocksdb_purge_loop_no_panic:
  assumes "bincode_laws bc" and "proof_entries bc rs"
  shows "no_panic (fst (rocksdb_purge_loop ops bc vs db rs))"
  using assms(2)
proof (induction rs arbitrary: db)
  case (Cons x rs)
  have rs: "proof_entries bc rs" using Cons.prems by auto
  show ?case
  proof (cases x)
    case (Inr kv)
    obtain key v where x: "x = Inr (key, v)" using Inr by (cases kv) auto
    then obtain e k where key: "proof_key bc e k = Inr key"
      using Cons.prems by (metis list.set_intros(1))
    obtain b where b: "key = as_bytes e @ b" "de_pair bc b = Inr k"
      using key proof_keyE [OF assms(1), of e k] by (metis Inr_inject)
    show ?thesis using Cons.IH [OF rs] x b by (auto split: prod.splits sum.splits)
  qed simp
qed simp

lemma rocksdb_purge_sound:
  assumes inv: "rocksdb_invar ops bc db" and run: "rocksdb_purge ops bc db e vs = (r, db')"
  shows "rocksdb_proof ops bc db' e' k = rocksdb_proof ops bc db e' k \<or>
      k \<notin> set vs \<and> rocksdb_proof ops bc db' e' k = None"
    and "r = Inr () \<Longrightarrow> k \<notin> set vs \<Longrightarrow> rocksdb_proof ops bc db' e k = None"
    and "rocksdb_invar ops bc db'"
proof -
  let ?rs = "db_prefix_iterator ops db (as_bytes e)"
  have laws: "rocksdb_laws ops" "bincode_laws bc" using inv by (simp_all add: rocksdb_invar_def)
  have keys: "\<forall>key v. Inr (key, v) \<in> set ?rs \<longrightarrow> (\<exists>e k. proof_key bc e k = Inr key)"
    using inv rocksdb_iterator_law(1) [OF laws(1)] unfolding rocksdb_invar_def by blast
  note loop = rocksdb_purge_loop_keeps [OF laws keys run [unfolded rocksdb_purge_def]]
    rocksdb_purge_loop_entries [OF laws keys run [unfolded rocksdb_purge_def]]
  show sound: "rocksdb_proof ops bc db' e' k = rocksdb_proof ops bc db e' k \<or>
      k \<notin> set vs \<and> rocksdb_proof ops bc db' e' k = None" for e' k
    using loop(1) by blast
  show "rocksdb_invar ops bc db'"
    using inv loop(2) unfolding rocksdb_invar_def by blast
  show "rocksdb_proof ops bc db' e k = None" if "r = Inr ()" and "k \<notin> set vs"
  proof (cases "rocksdb_proof ops bc db e k")
    case None
    then show ?thesis using sound [of e k] by auto
  next
    case (Some v)
    have "rocksdb_purge_loop ops bc vs db ?rs = (Inr (), db')"
      using run that(1) by (simp add: rocksdb_purge_def)
    note ok = rocksdb_purge_loop_ok [OF laws keys this]
    obtain b where b: "proof_key bc e k = Inr (as_bytes e @ b)" by (rule proof_keyE [OF laws(2)])
    with Some have "db_entries ops db (as_bytes e @ b) = Some v" by (simp add: rocksdb_proof_def)
    then have "Inr (as_bytes e @ b, v) \<in> set ?rs"
      using rocksdb_iterator_law(2) [OF laws(1)] ok(1) by blast
    then show ?thesis using ok(2) [OF _ b that(2)] by blast
  qed
qed

section \<open>The contract\<close>

lemma rocksdb_add_sound:
  assumes inv: "rocksdb_invar ops bc db" and run: "rocksdb_add ops bc db w = (r, db')"
  shows "rocksdb_proof ops bc db' e k = rocksdb_proof ops bc db e k \<or>
      e = we_event_id w \<and> k = we_pub_key w \<and> rocksdb_proof ops bc db' e k = Some (we_signature w)"
    and "r = Inr () \<Longrightarrow> rocksdb_proof ops bc db' (we_event_id w) (we_pub_key w) = Some (we_signature w)"
    and "rocksdb_invar ops bc db'"
proof -
  have laws: "rocksdb_laws ops" "bincode_laws bc" using inv by (simp_all add: rocksdb_invar_def)
  obtain key where key: "proof_key bc (we_event_id w) (we_pub_key w) = Inr key"
    by (rule proof_keyE [OF laws(2)])
  obtain d where put: "db_put ops db key (we_signature w) = (d, db')" and r: "r = question error_from_rocksdb d"
    using run key by (auto simp: rocksdb_add_def split: prod.splits)
  note law = rocksdb_put_law [OF laws(1) put]
  note upd = rocksdb_proof_upd [OF laws(2) key, of ops db' db "Some (we_signature w)"]
  show "rocksdb_proof ops bc db' e k = rocksdb_proof ops bc db e k \<or>
      e = we_event_id w \<and> k = we_pub_key w \<and> rocksdb_proof ops bc db' e k = Some (we_signature w)"
    using law upd rocksdb_proof_same [of ops db' db bc] by (auto split: if_splits)
  show "r = Inr () \<Longrightarrow> rocksdb_proof ops bc db' (we_event_id w) (we_pub_key w) = Some (we_signature w)"
    using law upd r by (cases d) auto
  show "rocksdb_invar ops bc db'"
    using law inv key unfolding rocksdb_invar_def by (metis fun_upd_apply)
qed

interpretation rd: event_proofs_trait "rocksdb_add ops bc" "rocksdb_get ops bc" "rocksdb_count ops bc"
  "rocksdb_purge ops bc" "rocksdb_proof ops bc" "rocksdb_invar ops bc" for ops bc
proof (unfold_locales, goal_cases)
  case (1 s w r s')
  then show ?case by (rule rocksdb_add_sound(3))
next
  case (2 s w r s' e k)
  then show ?case by (rule rocksdb_add_sound(1))
next
  case (3 s w s')
  then show ?case using rocksdb_add_sound(2) [OF 3] by simp
next
  case (4 s e vs m k)
  then show ?case by (intro rocksdb_get_spec) (simp_all add: rocksdb_invar_def)
next
  case (5 s e vs n)
  then have laws: "rocksdb_laws ops" "bincode_laws bc" by (simp_all add: rocksdb_invar_def)
  show ?case using rocksdb_count_bound(1) [OF laws 5(2)] by (simp add: filter_length_card [OF 5(3)])
next
  case (6 s e vs m n)
  then have laws: "rocksdb_laws ops" "bincode_laws bc" by (simp_all add: rocksdb_invar_def)
  show ?case
    using rocksdb_count_bound(2) [OF laws 6(3,2,5)]
      hm_len_le_restricted(1) [OF rocksdb_get_spec [OF laws 6(2)]]
    by (simp add: filter_length_card [OF 6(4)])
next
  case (7 s e vs r s')
  then show ?case by (rule rocksdb_purge_sound(3))
next
  case (8 s e vs r s' e' k)
  then show ?case by (rule rocksdb_purge_sound(1))
next
  case (9 s e vs s' k)
  then show ?case using rocksdb_purge_sound(2) [OF 9(1,2)] by simp
qed

lemma collect_proofs_no_panic: "no_panic (collect_proofs rs)"
  by (induction rs rule: collect_proofs.induct) simp_all

interpretation rdr: robust_proofs_trait "rocksdb_add ops bc" "rocksdb_get ops bc" "rocksdb_count ops bc"
  "rocksdb_purge ops bc" "rocksdb_proof ops bc" "rocksdb_invar ops bc" for ops bc
proof (unfold_locales, goal_cases)
  case (1 s w)
  then show ?case by (simp add: rocksdb_add_def split: sum.split prod.split)
next
  case (2 s e vs)
  then have "bincode_laws bc" by (simp add: rocksdb_invar_def)
  then obtain keys where "rocksdb_keys bc e vs = Inr keys" by (rule rocksdb_keys_eq)
  then show ?case by (simp add: rocksdb_get_def collect_proofs_no_panic)
next
  case (3 s e vs)
  then have "bincode_laws bc" by (simp add: rocksdb_invar_def)
  then obtain keys where "rocksdb_keys bc e vs = Inr keys" by (rule rocksdb_keys_eq)
  then show ?case by (simp add: rocksdb_count_def)
next
  case (4 s e vs)
  then have "proof_entries bc (db_prefix_iterator ops s (as_bytes e))" and "bincode_laws bc"
    using rocksdb_iterator_law(1) [of ops] unfolding rocksdb_invar_def by blast+
  then show ?case by (simp add: rocksdb_purge_def rocksdb_purge_loop_no_panic)
qed

end
