(* ===== verification/Gossip_Handler.thy ===== *)
theory Gossip_Handler
  imports Pallet In_Memory_Proofs Offchain_Proofs RocksDb_Proofs
begin

text \<open>
  \<open>EventGossipHandler\<close> (\<open>src/consensus/src/events/gossip.rs\<close>): what a node does with every message it
  receives or sends. The message is deserialized, checked against the authorities of the last
  finalized block, stored, and when the stored proofs reach the target an extrinsic goes to the
  transaction pool. \<open>off_chain_proofs\<close> is the cargo feature of that name. The transaction pool and the
  iteration order of a \<open>HashMap\<close> are parameters. The lemmas are proved once for any store that meets
  \<open>event_proofs_trait\<close> and reach the three stores through \<open>im\<close>, \<open>oc\<close> and \<open>rd\<close>.
\<close>

section \<open>State and environment\<close>

record 's event_proofs_ops =
  ep_add :: "'s \<Rightarrow> witnessed_event \<Rightarrow> unit vs_result \<times> 's"
  ep_get :: "'s \<Rightarrow> h256 \<Rightarrow> crypto_pair list \<Rightarrow> proofs_map vs_result"
  ep_count :: "'s \<Rightarrow> h256 \<Rightarrow> crypto_pair list \<Rightarrow> u16 vs_result"
  ep_purge :: "'s \<Rightarrow> h256 \<Rightarrow> crypto_pair list \<Rightarrow> unit vs_result \<times> 's"

datatype pool_error = AlreadyImported | PoolInvalidTransaction invalid_transaction | PoolOther string

text \<open>
  The error of \<open>submit_local\<close> as \<open>into_pool_error\<close> gives it: a pool error, or another error known by its
  text.
\<close>

datatype submit_error = IntoPoolError pool_error | NotPoolError string

record ('ext, 'pool) tx_pool_ops =
  submit_local :: "'pool \<Rightarrow> h256 \<Rightarrow> 'ext \<Rightarrow> (submit_error + unit) \<times> 'pool"
  pool_error_to_string :: "pool_error \<Rightarrow> string"

type_synonym hash_iter = "proofs_map \<Rightarrow> (crypto_pair \<times> bytes) list"

text \<open>
  Everything the handler calls, gathered: the store, the cache, the codec, the signature scheme, the
  pool and the order in which a \<open>HashMap\<close> is iterated.
\<close>

record ('s, 'c, 'aid, 'ext, 'pool) handler_env =
  he_proofs :: "'s event_proofs_ops"
  he_lru :: "'c lru_ops"
  he_from_id :: "'aid \<Rightarrow> crypto_pair"
  he_bincode :: bincode
  he_sr25519 :: sr25519
  he_pool :: "('ext, 'pool) tx_pool_ops"
  he_iter :: hash_iter
  he_off_chain_proofs :: bool

record ('s, 'c, 'pool) gossip_handler =
  gh_event_proofs :: 's
  gh_tx_pool :: 'pool
  gh_block_state :: "'c block_state"

definition event_gossip_handler_new :: "'s \<Rightarrow> 'pool \<Rightarrow> 'c block_state \<Rightarrow> ('s, 'c, 'pool) gossip_handler" where
  [simp]: "event_gossip_handler_new event_proofs tx_pool block_state =
     \<lparr>gh_event_proofs = event_proofs, gh_tx_pool = tx_pool, gh_block_state = block_state\<rparr>"

definition WITNESSED_EVENTS_TOPIC :: string where
  "WITNESSED_EVENTS_TOPIC = ''WitnessedEvent''"

definition get_topics :: "string list" where
  "get_topics = [WITNESSED_EVENTS_TOPIC]"

section \<open>Submitting an extrinsic\<close>

text \<open>
  The two \<open>unwrap\<close>s on every entry of the proofs map.
\<close>

fun unwrap_proofs :: "sr25519 \<Rightarrow> (crypto_pair \<times> bytes) list \<Rightarrow> (public \<times> sr_signature) list vs_result" where
  "unwrap_proofs sr [] = Inr []"
| "unwrap_proofs sr ((k, v) # kvs) =
     (case public_from_slice sr (raw_public k) of
        None \<Rightarrow> Inl (Panic ''called `Result::unwrap()` on an `Err` value: ()'')
      | Some pubkey \<Rightarrow>
          (case signature_from_slice sr v of
             None \<Rightarrow> Inl (Panic ''called `Option::unwrap()` on a `None` value'')
           | Some signature \<Rightarrow>
               and_then (unwrap_proofs sr kvs) (\<lambda>rs. Inr ((pubkey, signature) # rs))))"

definition convert_proofs :: "hash_iter \<Rightarrow> sr25519 \<Rightarrow> proofs_map option \<Rightarrow> btree_proofs option vs_result" where
  "convert_proofs iter sr event_proofs =
     (case event_proofs of
        None \<Rightarrow> Inr None
      | Some x \<Rightarrow> and_then (unwrap_proofs sr (iter x)) (\<lambda>rs. Inr (Some (hm_collect rs))))"

definition submit_result :: "(pool_error \<Rightarrow> string) \<Rightarrow> submit_error + unit \<Rightarrow> unit vs_result" where
  "submit_result to_string r =
     (case r of
        Inr _ \<Rightarrow> Inr ()
      | Inl (IntoPoolError AlreadyImported) \<Rightarrow> Inr ()
      | Inl (IntoPoolError (PoolInvalidTransaction InvalidStale)) \<Rightarrow> Inr ()
      | Inl (IntoPoolError e) \<Rightarrow> Inl (Err (Other (to_string e)))
      | Inl (NotPoolError e) \<Rightarrow> Inl (Err (Other e)))"

definition submit_event_extrinsic ::
    "('s, 'c, 'aid, 'ext, 'pool) handler_env \<Rightarrow> ('aid, 'ext) client \<Rightarrow> 'pool \<Rightarrow> h256
      \<Rightarrow> proofs_map option \<Rightarrow> unit vs_result \<times> 'pool" where
  "submit_event_extrinsic he client tx_pool event_id event_proofs =
     (case convert_proofs (he_iter he) (he_sr25519 he) event_proofs of
        Inl f \<Rightarrow> (Inl f, tx_pool)
      | Inr proofs \<Rightarrow>
          let best = best_hash (cl_info client)
          in (case cl_create_unsigned_extrinsic client best event_id proofs of
                Inl e \<Rightarrow> (Inl (Err (error_from_api e)), tx_pool)
              | Inr unsigned_extrinsic \<Rightarrow>
                  (case submit_local (he_pool he) tx_pool best unsigned_extrinsic of
                     (r, tx_pool') \<Rightarrow>
                       (submit_result (pool_error_to_string (he_pool he)) r, tx_pool'))))"

section \<open>Handling a message\<close>

text \<open>
  From the count on: submit when the target is reached.
\<close>

definition submit_if_target ::
    "('s, 'c, 'aid, 'ext, 'pool) handler_env \<Rightarrow> ('aid, 'ext) client \<Rightarrow> authorities_list
      \<Rightarrow> ('s, 'c, 'pool) gossip_handler \<Rightarrow> h256 \<Rightarrow> bool vs_result \<times> ('s, 'c, 'pool) gossip_handler" where
  "submit_if_target he client al self event_id =
     (case ep_count (he_proofs he) (gh_event_proofs self) event_id (authorities al) of
        Inl f \<Rightarrow> (Inl f, self)
      | Inr proof_count \<Rightarrow>
          if target al \<le> proof_count then
            (case (if he_off_chain_proofs he then Inr None
                   else and_then (ep_get (he_proofs he) (gh_event_proofs self) event_id (authorities al))
                          (\<lambda>m. Inr (Some m))) of
               Inl f \<Rightarrow> (Inl f, self)
             | Inr proofs \<Rightarrow>
                 (case submit_event_extrinsic he client (gh_tx_pool self) event_id proofs of
                    (r, tx_pool') \<Rightarrow> (and_then r (\<lambda>_. Inr True), self\<lparr>gh_tx_pool := tx_pool'\<rparr>)))
          else (Inr True, self))"

definition handle_witnessed_event ::
    "('s, 'c, 'aid, 'ext, 'pool) handler_env \<Rightarrow> ('aid, 'ext) client \<Rightarrow> ('s, 'c, 'pool) gossip_handler
      \<Rightarrow> witnessed_event \<Rightarrow> bool vs_result \<times> ('s, 'c, 'pool) gossip_handler" where
  "handle_witnessed_event he client self witnessed_event =
     (case get_latest_authorities_list (he_lru he) (he_from_id he) (gh_block_state self) client of
        (Inl f, bs) \<Rightarrow> (Inl f, self\<lparr>gh_block_state := bs\<rparr>)
      | (Inr al, bs) \<Rightarrow>
          let self1 = self\<lparr>gh_block_state := bs\<rparr>
          in (case verify_witnessed_event_origin (he_sr25519 he) al witnessed_event of
                Inl f \<Rightarrow> (Inl f, self1)
              | Inr w \<Rightarrow>
                  (case ep_add (he_proofs he) (gh_event_proofs self1) w of
                     (Inl f, s2) \<Rightarrow> (Inl f, self1\<lparr>gh_event_proofs := s2\<rparr>)
                   | (Inr _, s2) \<Rightarrow>
                       (case ep_purge (he_proofs he) s2 (we_event_id w) (authorities al) of
                          (Inl f, s3) \<Rightarrow> (Inl f, self1\<lparr>gh_event_proofs := s3\<rparr>)
                        | (Inr _, s3) \<Rightarrow>
                            submit_if_target he client al (self1\<lparr>gh_event_proofs := s3\<rparr>)
                              (we_event_id w)))))"

text \<open>
  \<open>handle\<close> logs an error and drops it; a panic of the handler goes on.
\<close>

definition gossip_handle ::
    "('s, 'c, 'aid, 'ext, 'pool) handler_env \<Rightarrow> ('aid, 'ext) client \<Rightarrow> ('s, 'c, 'pool) gossip_handler
      \<Rightarrow> bytes \<Rightarrow> unit vs_result \<times> ('s, 'c, 'pool) gossip_handler" where
  "gossip_handle he client self message_data =
     (case de_event (he_bincode he) message_data of
        Inl e \<Rightarrow> (Inr (), self)
      | Inr witnessed_event \<Rightarrow>
          (case handle_witnessed_event he client self witnessed_event of
             (Inl (Err e), self') \<Rightarrow> (Inr (), self')
           | (Inl f, self') \<Rightarrow> (Inl f, self')
           | (Inr _, self') \<Rightarrow> (Inr (), self')))"

section \<open>What a message can change\<close>

lemma submit_if_target_cases:
  assumes "submit_if_target he client al self e = (r, self')"
  obtains (idle) "self' = self"
  | (submitted) n proofs ps ext where "ep_count (he_proofs he) (gh_event_proofs self) e (authorities al) = Inr n"
    and "target al \<le> n"
    and "if he_off_chain_proofs he then proofs = None
      else \<exists>m. ep_get (he_proofs he) (gh_event_proofs self) e (authorities al) = Inr m \<and> proofs = Some m"
    and "convert_proofs (he_iter he) (he_sr25519 he) proofs = Inr ps"
    and "cl_create_unsigned_extrinsic client (best_hash (cl_info client)) e ps = Inr ext"
    and "self' = self\<lparr>gh_tx_pool :=
      snd (submit_local (he_pool he) (gh_tx_pool self) (best_hash (cl_info client)) ext)\<rparr>"
proof (cases "self' = self")
  case False
  then show ?thesis
    using assms submitted
    by (auto simp: submit_if_target_def submit_event_extrinsic_def Let_def and_then_eq_Inr
        split: sum.splits if_splits prod.splits)
qed (rule idle)

lemma handle_witnessed_event_cases:
  assumes "handle_witnessed_event he client self w = (r, self')"
  obtains (rejected) e bs where "r = Inl (Err e)" and "self' = self\<lparr>gh_block_state := bs\<rparr>"
  | (add_failed) al bs f s2 where
    "get_latest_authorities_list (he_lru he) (he_from_id he) (gh_block_state self) client = (Inr al, bs)"
    and "verify_witnessed_event_origin (he_sr25519 he) al w = Inr w"
    and "ep_add (he_proofs he) (gh_event_proofs self) w = (Inl f, s2)"
    and "r = Inl f" and "self' = self\<lparr>gh_block_state := bs, gh_event_proofs := s2\<rparr>"
  | (purge_failed) al bs f s2 s3 where
    "get_latest_authorities_list (he_lru he) (he_from_id he) (gh_block_state self) client = (Inr al, bs)"
    and "verify_witnessed_event_origin (he_sr25519 he) al w = Inr w"
    and "ep_add (he_proofs he) (gh_event_proofs self) w = (Inr (), s2)"
    and "ep_purge (he_proofs he) s2 (we_event_id w) (authorities al) = (Inl f, s3)"
    and "r = Inl f" and "self' = self\<lparr>gh_block_state := bs, gh_event_proofs := s3\<rparr>"
  | (stored) al bs s2 s3 where
    "get_latest_authorities_list (he_lru he) (he_from_id he) (gh_block_state self) client = (Inr al, bs)"
    and "verify_witnessed_event_origin (he_sr25519 he) al w = Inr w"
    and "ep_add (he_proofs he) (gh_event_proofs self) w = (Inr (), s2)"
    and "ep_purge (he_proofs he) s2 (we_event_id w) (authorities al) = (Inr (), s3)"
    and "submit_if_target he client al (self\<lparr>gh_block_state := bs, gh_event_proofs := s3\<rparr>) (we_event_id w) =
      (r, self')"
proof -
  obtain g bs where g: "get_latest_authorities_list (he_lru he) (he_from_id he) (gh_block_state self) client = (g, bs)"
    by (cases "get_latest_authorities_list (he_lru he) (he_from_id he) (gh_block_state self) client")
  show ?thesis
  proof (cases g)
    case (Inl f)
    have "no_panic g" using g get_authorities_list_no_panic unfolding get_latest_authorities_list_def by (metis fst_conv)
    then show ?thesis using assms g Inl rejected by (auto simp: handle_witnessed_event_def no_panic_Inl_iff)
  next
    case (Inr al)
    consider (bad) m where "verify_witnessed_event_origin (he_sr25519 he) al w = Inl (Err (BadWitnessedEventSignature m))"
      | (good) "verify_witnessed_event_origin (he_sr25519 he) al w = Inr w"
      using verify_origin_total by blast
    then show ?thesis
    proof cases
      case bad
      then show ?thesis using assms g Inr rejected by (auto simp: handle_witnessed_event_def)
    next
      case good
      show ?thesis
        using assms g [unfolded Inr] good add_failed [OF g [unfolded Inr] good]
          purge_failed [OF g [unfolded Inr] good] stored [OF g [unfolded Inr] good]
        by (auto simp: handle_witnessed_event_def Let_def split: prod.splits sum.splits)
    qed
  qed
qed

lemma submit_if_target_keeps:
  assumes "submit_if_target he client al self e = (r, self')"
  shows "gh_event_proofs self' = gh_event_proofs self" and "gh_block_state self' = gh_block_state self"
  using assms by (rule submit_if_target_cases; simp)+

lemma handle_block_state:
  assumes "lru_laws (he_lru he)" and "cache_of (he_lru he) (he_from_id he) chain (gh_block_state self)"
    and "view_of chain client" and "handle_witnessed_event he client self w = (r, self')"
  shows "cache_of (he_lru he) (he_from_id he) chain (gh_block_state self')"
proof -
  obtain g bs where g: "get_authorities_list (he_lru he) (he_from_id he) (gh_block_state self) client
      (finalized_hash (cl_info client)) = (g, bs)"
    by (cases "get_authorities_list (he_lru he) (he_from_id he) (gh_block_state self) client
      (finalized_hash (cl_info client))")
  have "gh_block_state self' = bs"
    using assms(4) g
    by (auto simp: handle_witnessed_event_def get_latest_authorities_list_def Let_def
        dest!: submit_if_target_keeps(2) split: sum.splits prod.splits)
  then show ?thesis using get_authorities_list_of(2) [OF assms(1-3) g] by simp
qed

text \<open>
  Every stored proof is a correct signature of its event.
\<close>

definition all_signed :: "sr25519 \<Rightarrow> ('s \<Rightarrow> h256 \<Rightarrow> crypto_pair \<Rightarrow> bytes option) \<Rightarrow> 's \<Rightarrow> bool" where
  "all_signed sr proof_of s \<longleftrightarrow> (\<forall>e k g. proof_of s e k = Some g \<longrightarrow> signed_by sr k e g)"

text \<open>
  The iteration of a \<open>HashMap\<close> yields its entries, each key once.
\<close>

definition hash_iter_laws :: "hash_iter \<Rightarrow> bool" where
  "hash_iter_laws iter \<longleftrightarrow> (\<forall>m. distinct (map fst (iter m)) \<and> map_of (iter m) = fmlookup m)"

lemma hash_iter_set: "hash_iter_laws iter \<Longrightarrow> (k, v) \<in> set (iter m) \<longleftrightarrow> fmlookup m k = Some v"
  unfolding hash_iter_laws_def by (metis map_of_eq_Some_iff)

lemma unwrap_proofs_signed:
  assumes "\<forall>(k, g) \<in> set kvs. signed_by sr k e g"
  obtains rs where "unwrap_proofs sr kvs = Inr rs"
    and "list_all2 (\<lambda>(k, g) (p, s). public_from_slice sr (raw_public k) = Some p \<and>
      signature_from_slice sr g = Some s \<and> sr_verify sr p (as_bytes e) s) kvs rs"
  using assms
proof (induction kvs arbitrary: thesis)
  case (Cons kv kvs)
  obtain k g where kv: "kv = (k, g)" by (cases kv)
  obtain rs where "unwrap_proofs sr kvs = Inr rs"
    and "list_all2 (\<lambda>(k, g) (p, s). public_from_slice sr (raw_public k) = Some p \<and>
      signature_from_slice sr g = Some s \<and> sr_verify sr p (as_bytes e) s) kvs rs"
    using Cons.IH Cons.prems(2) by auto
  moreover obtain p s where "public_from_slice sr (raw_public k) = Some p"
    and "signature_from_slice sr g = Some s" and "sr_verify sr p (as_bytes e) s"
    using Cons.prems(2) kv by (auto simp: signed_by_def split: option.splits)
  ultimately show ?case
    using kv by (intro Cons.prems(1) [of "(p, s) # rs"]) simp_all
qed simp

lemma convert_proofs_no_panic:
  assumes "hash_iter_laws iter" and "\<And>m k g. ps = Some m \<Longrightarrow> fmlookup m k = Some g \<Longrightarrow> signed_by sr k e g"
  shows "\<exists>bs. convert_proofs iter sr ps = Inr bs"
proof (cases ps)
  case (Some m)
  then have "\<forall>(k, g) \<in> set (iter m). signed_by sr k e g"
    using assms hash_iter_set by blast
  then obtain rs where "unwrap_proofs sr (iter m) = Inr rs" by (rule unwrap_proofs_signed)
  with Some show ?thesis by (simp add: convert_proofs_def)
qed (simp add: convert_proofs_def)

lemma submit_result_no_panic: "no_panic (submit_result f r)"
  by (simp add: submit_result_def split: sum.split submit_error.split pool_error.split invalid_transaction.split)

section \<open>Any store that meets the contract\<close>

definition store_ops ::
    "('s \<Rightarrow> witnessed_event \<Rightarrow> unit vs_result \<times> 's) \<Rightarrow> ('s \<Rightarrow> h256 \<Rightarrow> crypto_pair list \<Rightarrow> proofs_map vs_result)
      \<Rightarrow> ('s \<Rightarrow> h256 \<Rightarrow> crypto_pair list \<Rightarrow> u16 vs_result)
      \<Rightarrow> ('s \<Rightarrow> h256 \<Rightarrow> crypto_pair list \<Rightarrow> unit vs_result \<times> 's) \<Rightarrow> 's event_proofs_ops" where
  [simp]: "store_ops add get count purge = \<lparr>ep_add = add, ep_get = get, ep_count = count, ep_purge = purge\<rparr>"

context event_proofs_trait
begin

lemma handle_invar:
  assumes ops: "he_proofs he =
      store_ops add_event_proof get_event_proofs get_event_proof_count purge_event_stale_signatures"
    and inv: "invar (gh_event_proofs self)" and run: "handle_witnessed_event he client self w = (r, self')"
  shows "invar (gh_event_proofs self')"
  using run
proof (cases rule: handle_witnessed_event_cases)
  case (add_failed al bs f s2)
  then show ?thesis using add_invar [OF inv, of w "Inl f" s2] ops by simp
next
  case (purge_failed al bs f s2 s3)
  then have "invar s2" using add_invar [OF inv, of w "Inr ()" s2] ops by simp
  then show ?thesis using purge_invar [OF _ purge_failed(4) [unfolded ops store_ops_def event_proofs_ops.simps]] purge_failed(6) by simp
next
  case (stored al bs s2 s3)
  then have "invar s2" using add_invar [OF inv, of w "Inr ()" s2] ops by simp
  then show ?thesis
    using purge_invar [OF _ stored(4) [unfolded ops store_ops_def event_proofs_ops.simps]]
      submit_if_target_keeps(1) [OF stored(5)] by simp
qed (use inv in simp)

text \<open>
  The proofs after a message are proofs from before, or the one proof in the message, whose signature
  has been checked then.
\<close>

lemma handle_proofs:
  assumes ops: "he_proofs he =
      store_ops add_event_proof get_event_proofs get_event_proof_count purge_event_stale_signatures"
    and inv: "invar (gh_event_proofs self)" and run: "handle_witnessed_event he client self w = (r, self')"
    and p: "proof_of (gh_event_proofs self') e k = Some g"
  shows "proof_of (gh_event_proofs self) e k = Some g \<or>
    e = we_event_id w \<and> k = we_pub_key w \<and> g = we_signature w \<and> signed_by (he_sr25519 he) k e g"
  using run
proof (cases rule: handle_witnessed_event_cases)
  case (add_failed al bs f s2)
  then have a: "add_event_proof (gh_event_proofs self) w = (Inl f, s2)" using ops by simp
  show ?thesis using add_sound [OF inv a, of e k] p add_failed(2,5) by (auto simp: verify_origin_Inr)
next
  case (purge_failed al bs f s2 s3)
  then have a: "add_event_proof (gh_event_proofs self) w = (Inr (), s2)"
    and d: "purge_event_stale_signatures s2 (we_event_id w) (authorities al) = (Inl f, s3)" using ops by simp_all
  show ?thesis
    using add_sound [OF inv a, of e k] purge_sound [OF add_invar [OF inv a] d, of e k] p purge_failed(2,6)
    by (auto simp: verify_origin_Inr)
next
  case (stored al bs s2 s3)
  then have a: "add_event_proof (gh_event_proofs self) w = (Inr (), s2)"
    and d: "purge_event_stale_signatures s2 (we_event_id w) (authorities al) = (Inr (), s3)" using ops by simp_all
  have "gh_event_proofs self' = s3" using submit_if_target_keeps(1) [OF stored(5)] by simp
  then show ?thesis
    using add_sound [OF inv a, of e k] purge_sound [OF add_invar [OF inv a] d, of e k] p stored(2)
    by (auto simp: verify_origin_Inr)
qed (use p in simp)

lemma handle_all_signed:
  assumes "he_proofs he =
      store_ops add_event_proof get_event_proofs get_event_proof_count purge_event_stale_signatures"
    and "invar (gh_event_proofs self)" and "handle_witnessed_event he client self w = (r, self')"
    and "all_signed (he_sr25519 he) proof_of (gh_event_proofs self)"
  shows "all_signed (he_sr25519 he) proof_of (gh_event_proofs self')"
  using handle_proofs [OF assms(1-3)] assms(4) unfolding all_signed_def by blast

text \<open>
  The pool changes only when a quorum of the authorities has signed the event in the message, and the
  store then holds their signatures.
\<close>

lemma handle_submits:
  assumes ops: "he_proofs he =
      store_ops add_event_proof get_event_proofs get_event_proof_count purge_event_stale_signatures"
    and inv: "invar (gh_event_proofs self)" and run: "handle_witnessed_event he client self w = (r, self')"
    and signed: "all_signed (he_sr25519 he) proof_of (gh_event_proofs self)"
    and al: "fst (get_latest_authorities_list (he_lru he) (he_from_id he) (gh_block_state self) client) = Inr al"
    and d: "distinct (authorities al)" "length (authorities al) \<le> 98302"
    and changed: "gh_tx_pool self' \<noteq> gh_tx_pool self"
  shows "\<exists>S. authority_quorum al S \<and> (\<forall>k \<in> S. \<exists>g. proof_of (gh_event_proofs self') (we_event_id w) k = Some g
    \<and> signed_by (he_sr25519 he) k (we_event_id w) g)"
  using run
proof (cases rule: handle_witnessed_event_cases)
  case (stored al' bs s2 s3)
  then have [simp]: "al' = al" using al by simp
  have s3: "gh_event_proofs self' = s3" using submit_if_target_keeps(1) [OF stored(5)] by simp
  have inv': "invar s3" using handle_invar [OF ops inv run] s3 by simp
  from stored(5) changed obtain n where
    n: "get_event_proof_count s3 (we_event_id w) (authorities al) = Inr n" "target al \<le> n"
    by (cases rule: submit_if_target_cases) (use ops in auto)
  let ?S = "{k \<in> set (authorities al). proof_of s3 (we_event_id w) k \<noteq> None}"
  have "unat (target al) \<le> card ?S"
    using count_le [OF inv' n(1) d(1)] n(2) by (meson order_trans word_le_nat_alt)
  then have "authority_quorum al ?S" using d by (auto simp: authority_quorum_def)
  moreover have "all_signed (he_sr25519 he) proof_of s3"
    using handle_all_signed [OF ops inv run signed] s3 by simp
  ultimately show ?thesis using s3 unfolding all_signed_def by (intro exI [of _ ?S]) auto
qed (use changed in simp_all)

end

text \<open>
  The messages a node handles, one after the other, each with the view of the chain at that time. A
  panic ends the loop.
\<close>

fun handle_messages ::
    "('s, 'c, 'aid, 'ext, 'pool) handler_env \<Rightarrow> ('s, 'c, 'pool) gossip_handler
      \<Rightarrow> (('aid, 'ext) client \<times> bytes) list \<Rightarrow> unit vs_result \<times> ('s, 'c, 'pool) gossip_handler" where
  "handle_messages he self [] = (Inr (), self)"
| "handle_messages he self ((client, message) # ms) =
     (case gossip_handle he client self message of
        (Inl f, self') \<Rightarrow> (Inl f, self')
      | (Inr _, self') \<Rightarrow> handle_messages he self' ms)"

text \<open>
  What holds of the handler's store at all times.
\<close>

definition handler_ok ::
    "sr25519 \<Rightarrow> ('s \<Rightarrow> h256 \<Rightarrow> crypto_pair \<Rightarrow> bytes option) \<Rightarrow> ('s \<Rightarrow> bool)
      \<Rightarrow> ('s, 'c, 'pool) gossip_handler \<Rightarrow> bool" where
  "handler_ok sr proof_of invar self \<longleftrightarrow>
     invar (gh_event_proofs self) \<and> all_signed sr proof_of (gh_event_proofs self)"

text \<open>
  \<open>message_carries bc ms e k g\<close>: one of the messages is the witnessed event \<open>e\<close> of key \<open>k\<close> with signature \<open>g\<close>.
\<close>

definition message_carries ::
    "bincode \<Rightarrow> (('aid, 'ext) client \<times> bytes) list \<Rightarrow> h256 \<Rightarrow> crypto_pair \<Rightarrow> bytes \<Rightarrow> bool" where
  "message_carries bc ms e k g \<longleftrightarrow>
     (\<exists>(client, m) \<in> set ms.
        de_event bc m = Inr \<lparr>we_signature = g, we_pub_key = k, we_event_id = e\<rparr>)"

context robust_proofs_trait
begin

lemma submit_no_panic:
  assumes ops: "he_proofs he =
      store_ops add_event_proof get_event_proofs get_event_proof_count purge_event_stale_signatures"
    and iter: "hash_iter_laws (he_iter he)"
    and ok: "handler_ok (he_sr25519 he) proof_of invar self"
  shows "no_panic (fst (submit_if_target he client al self e))"
proof -
  let ?s = "gh_event_proofs self"
  have inv: "invar ?s" using ok by (simp add: handler_ok_def)
  have sub: "no_panic (fst (submit_event_extrinsic he client pool e ps))"
    if "\<And>m k g. ps = Some m \<Longrightarrow> fmlookup m k = Some g \<Longrightarrow> signed_by (he_sr25519 he) k e g" for ps pool
  proof -
    have "\<exists>bs. convert_proofs (he_iter he) (he_sr25519 he) ps = Inr bs"
      by (rule convert_proofs_no_panic [OF iter]) (rule that)
    then show ?thesis
      by (auto simp: submit_event_extrinsic_def Let_def submit_result_no_panic split: sum.split prod.split)
  qed
  have signed: "signed_by (he_sr25519 he) k e g"
    if "get_event_proofs ?s e (authorities al) = Inr m" "fmlookup m k = Some g" for m k g
    using get_spec [OF inv that(1), of k] that(2) ok
    by (auto simp: handler_ok_def all_signed_def split: if_splits)
  have some: "no_panic (fst (submit_event_extrinsic he client pool e (Some m)))"
    if "get_event_proofs ?s e (authorities al) = Inr m" for m pool
    using sub [of "Some m"] signed [OF that] by blast
  have none: "no_panic (fst (submit_event_extrinsic he client pool e None))" for pool
    by (rule sub) simp
  note reads = get_no_panic [OF inv, of e "authorities al"] count_no_panic [OF inv, of e "authorities al"]
  note sums = no_panic_Inl_iff case_prod_unfold
  show ?thesis
  proof (cases "get_event_proof_count ?s e (authorities al)")
    case (Inl f)
    then show ?thesis using reads(2) ops by (simp add: submit_if_target_def sums)
  next
    case (Inr n)
    then show ?thesis
      using reads(1) some none ops
      by (cases "get_event_proofs ?s e (authorities al)") (simp_all add: submit_if_target_def sums)
  qed
qed

lemma handle_no_panic:
  assumes ops: "he_proofs he =
      store_ops add_event_proof get_event_proofs get_event_proof_count purge_event_stale_signatures"
    and iter: "hash_iter_laws (he_iter he)"
    and ok: "handler_ok (he_sr25519 he) proof_of invar self"
    and run: "handle_witnessed_event he client self w = (r, self')"
  shows "no_panic r" and "handler_ok (he_sr25519 he) proof_of invar self'"
proof -
  have inv: "invar (gh_event_proofs self)" using ok by (simp add: handler_ok_def)
  show ok': "handler_ok (he_sr25519 he) proof_of invar self'"
    using handle_invar [OF ops inv run] handle_all_signed [OF ops inv run] ok by (simp add: handler_ok_def)
  show "no_panic r"
    using run
  proof (cases rule: handle_witnessed_event_cases)
    case (add_failed al bs f s2)
    then show ?thesis using add_no_panic [OF inv, of w] ops by (simp add: no_panic_Inl_iff)
  next
    case (purge_failed al bs f s2 s3)
    then have "invar s2" using add_invar [OF inv, of w "Inr ()" s2] ops by simp
    then show ?thesis
      using purge_no_panic [of s2 "we_event_id w" "authorities al"] purge_failed(4,5) ops
      by (simp add: no_panic_Inl_iff)
  next
    case (stored al bs s2 s3)
    have "gh_event_proofs self' = s3" using submit_if_target_keeps(1) [OF stored(5)] by simp
    then have "handler_ok (he_sr25519 he) proof_of invar (self\<lparr>gh_block_state := bs, gh_event_proofs := s3\<rparr>)"
      using ok' by (simp add: handler_ok_def)
    from submit_no_panic [OF ops iter this, of client al "we_event_id w"]
    show ?thesis using stored(5) by simp
  qed simp
qed

lemma gossip_handle_ok:
  assumes ops: "he_proofs he =
      store_ops add_event_proof get_event_proofs get_event_proof_count purge_event_stale_signatures"
    and iter: "hash_iter_laws (he_iter he)"
    and ok: "handler_ok (he_sr25519 he) proof_of invar self"
    and run: "gossip_handle he client self m = (r, self')"
  shows "r = Inr ()" and "handler_ok (he_sr25519 he) proof_of invar self'"
    and "proof_of (gh_event_proofs self') e k = Some g \<Longrightarrow>
      proof_of (gh_event_proofs self) e k = Some g \<or> message_carries (he_bincode he) [(client, m)] e k g"
proof -
  have "r = Inr () \<and> handler_ok (he_sr25519 he) proof_of invar self' \<and>
    (proof_of (gh_event_proofs self') e k = Some g \<longrightarrow>
      proof_of (gh_event_proofs self) e k = Some g \<or> message_carries (he_bincode he) [(client, m)] e k g)"
  proof (cases "de_event (he_bincode he) m")
    case (Inl err)
    then show ?thesis using run ok by (simp add: gossip_handle_def)
  next
    case (Inr w)
    obtain r1 where run1: "handle_witnessed_event he client self w = (r1, self')"
      using run Inr by (auto simp: gossip_handle_def split: prod.splits sum.splits failure.splits)
    note h = handle_no_panic [OF ops iter ok run1]
    have inv: "invar (gh_event_proofs self)" using ok by (simp add: handler_ok_def)
    have "r = Inr ()"
      using run Inr run1 h(1) by (auto simp: gossip_handle_def split: sum.splits failure.splits)
    then show ?thesis
      using h(2) handle_proofs [OF ops inv run1, of e k g] Inr by (auto simp: message_carries_def)
  qed
  then show "r = Inr ()" and "handler_ok (he_sr25519 he) proof_of invar self'"
    and "proof_of (gh_event_proofs self') e k = Some g \<Longrightarrow>
      proof_of (gh_event_proofs self) e k = Some g \<or> message_carries (he_bincode he) [(client, m)] e k g"
    by blast+
qed

lemma handle_messages_ok:
  assumes ops: "he_proofs he =
      store_ops add_event_proof get_event_proofs get_event_proof_count purge_event_stale_signatures"
    and iter: "hash_iter_laws (he_iter he)"
    and ok: "handler_ok (he_sr25519 he) proof_of invar self"
  obtains self' where "handle_messages he self ms = (Inr (), self')"
    and "handler_ok (he_sr25519 he) proof_of invar self'"
    and "\<And>e k g. proof_of (gh_event_proofs self') e k = Some g \<Longrightarrow>
      proof_of (gh_event_proofs self) e k = Some g \<or> message_carries (he_bincode he) ms e k g"
  using ok
proof (induction ms arbitrary: self thesis)
  case (Cons cm ms)
  obtain client m where cm: "cm = (client, m)" by (cases cm)
  obtain r self1 where run: "gossip_handle he client self m = (r, self1)"
    by (cases "gossip_handle he client self m")
  note g = gossip_handle_ok [OF ops iter Cons.prems(2) run]
  obtain self' where "handle_messages he self1 ms = (Inr (), self')"
    and "handler_ok (he_sr25519 he) proof_of invar self'"
    and "\<And>e k g. proof_of (gh_event_proofs self') e k = Some g \<Longrightarrow>
      proof_of (gh_event_proofs self1) e k = Some g \<or> message_carries (he_bincode he) ms e k g"
    using Cons.IH [OF _ g(2)] by blast
  then show ?case
    using g(1,3) run cm by (intro Cons.prems(1) [of self']) (auto simp: message_carries_def, blast+)
qed simp

end

section \<open>With the offchain storage\<close>

definition offchain_ops :: "'st offchain_storage \<Rightarrow> bincode \<Rightarrow> 'st event_proofs_ops" where
  "offchain_ops os bc =
     store_ops (offchain_add os bc []) (offchain_get os bc) (offchain_count os bc) (offchain_purge os bc [])"

text \<open>
  A correctly signed event of an authority is stored, stale proofs of the event are dropped, and the
  target is checked on the result.
\<close>

lemma offchain_handle_stores:
  assumes ops: "he_proofs he = offchain_ops os bc" and inv: "offchain_invar os bc (gh_event_proofs self)"
    and al: "get_latest_authorities_list (he_lru he) (he_from_id he) (gh_block_state self) client = (Inr al, bs)"
    and w: "verify_witnessed_event_origin (he_sr25519 he) al w = Inr w"
  obtains st where "offchain_invar os bc st"
    and "\<And>e k. offchain_proof os bc st e k =
      (if e = we_event_id w \<and> k = we_pub_key w then Some (we_signature w)
       else if e = we_event_id w \<and> k \<notin> set (authorities al) then None
       else offchain_proof os bc (gh_event_proofs self) e k)"
    and "handle_witnessed_event he client self w =
      submit_if_target he client al (self\<lparr>gh_block_state := bs, gh_event_proofs := st\<rparr>) (we_event_id w)"
proof -
  obtain st1 where st1: "offchain_add os bc [] (gh_event_proofs self) w = (Inr (), st1)"
    and p1: "\<And>e k. offchain_proof os bc st1 e k = (if e = we_event_id w \<and> k = we_pub_key w
      then Some (we_signature w) else offchain_proof os bc (gh_event_proofs self) e k)"
    by (rule offchain_add_alone [OF inv]) blast
  have inv1: "offchain_invar os bc st1" by (rule offchain_add_invar [OF inv st1])
  obtain st2 where st2: "offchain_purge os bc [] st1 (we_event_id w) (authorities al) = (Inr (), st2)"
    and p2: "\<And>e k. offchain_proof os bc st2 e k =
      (if e = we_event_id w \<and> k \<notin> set (authorities al) then None else offchain_proof os bc st1 e k)"
    by (rule offchain_purge_alone [OF inv1]) blast
  have "we_pub_key w \<in> set (authorities al)" using w by (simp add: verify_origin_Inr)
  then show ?thesis
    using p1 p2 ops al w st1 st2
    by (intro that [OF offchain_purge_invar [OF inv1 st2]])
      (auto simp: handle_witnessed_event_def offchain_ops_def)
qed

text \<open>
  Once enough authorities have signed, the event is submitted.
\<close>

lemma offchain_submit:
  assumes ops: "he_proofs he = offchain_ops os bc" and inv: "offchain_invar os bc (gh_event_proofs self)"
    and d: "distinct (authorities al)" "length (authorities al) < 65536"
    and t: "unat (target al) \<le> card {k \<in> set (authorities al). offchain_proof os bc (gh_event_proofs self) e k \<noteq> None}"
    and off: "he_off_chain_proofs he"
    and ext: "cl_create_unsigned_extrinsic client (best_hash (cl_info client)) e None = Inr ext"
  shows "gh_tx_pool (snd (submit_if_target he client al self e)) =
    snd (submit_local (he_pool he) (gh_tx_pool self) (best_hash (cl_info client)) ext)"
proof -
  let ?n = "length (filter (\<lambda>k. offchain_proof os bc (gh_event_proofs self) e k \<noteq> None) (authorities al))"
  have bc: "bincode_laws bc" using inv by (simp add: offchain_invar_def)
  have "?n < 65536" using d(2) length_filter_le le_less_trans by blast
  then have "target al \<le> as_u16 ?n"
    using t by (simp add: word_le_nat_alt filter_length_card [OF d(1)])
  then show ?thesis
    using off ext ops
    by (simp add: submit_if_target_def offchain_ops_def offchain_count_eq [OF bc] submit_event_extrinsic_def
        convert_proofs_def Let_def split: prod.split)
qed

lemma offchain_handle_submits:
  assumes ops: "he_proofs he = offchain_ops os bc" and inv: "offchain_invar os bc (gh_event_proofs self)"
    and al: "get_latest_authorities_list (he_lru he) (he_from_id he) (gh_block_state self) client = (Inr al, bs)"
    and w: "verify_witnessed_event_origin (he_sr25519 he) al w = Inr w"
    and d: "distinct (authorities al)" "length (authorities al) < 65536"
    and t: "unat (target al) \<le> card {k \<in> set (authorities al).
      k = we_pub_key w \<or> offchain_proof os bc (gh_event_proofs self) (we_event_id w) k \<noteq> None}"
    and off: "he_off_chain_proofs he"
    and ext: "cl_create_unsigned_extrinsic client (best_hash (cl_info client)) (we_event_id w) None = Inr ext"
  shows "gh_tx_pool (snd (handle_witnessed_event he client self w)) =
      snd (submit_local (he_pool he) (gh_tx_pool self) (best_hash (cl_info client)) ext) \<and>
    offchain_proof os bc (gh_event_proofs (snd (handle_witnessed_event he client self w)))
      (we_event_id w) (we_pub_key w) = Some (we_signature w)"
proof -
  obtain st where st: "offchain_invar os bc st"
    and p: "\<And>e k. offchain_proof os bc st e k =
      (if e = we_event_id w \<and> k = we_pub_key w then Some (we_signature w)
       else if e = we_event_id w \<and> k \<notin> set (authorities al) then None
       else offchain_proof os bc (gh_event_proofs self) e k)"
    and run: "handle_witnessed_event he client self w =
      submit_if_target he client al (self\<lparr>gh_block_state := bs, gh_event_proofs := st\<rparr>) (we_event_id w)"
    by (rule offchain_handle_stores [OF ops inv al w]) blast
  have "{k \<in> set (authorities al). offchain_proof os bc st (we_event_id w) k \<noteq> None} =
      {k \<in> set (authorities al).
        k = we_pub_key w \<or> offchain_proof os bc (gh_event_proofs self) (we_event_id w) k \<noteq> None}"
    by (auto simp: p)
  then have "unat (target al) \<le> card {k \<in> set (authorities al). offchain_proof os bc
      (gh_event_proofs (self\<lparr>gh_block_state := bs, gh_event_proofs := st\<rparr>)) (we_event_id w) k \<noteq> None}"
    using t by simp
  from offchain_submit [OF ops _ d this off ext] st
  have "gh_tx_pool (snd (handle_witnessed_event he client self w)) =
      snd (submit_local (he_pool he) (gh_tx_pool self) (best_hash (cl_info client)) ext)"
    unfolding run by simp
  moreover have "gh_event_proofs (snd (handle_witnessed_event he client self w)) = st"
    unfolding run by (simp add: submit_if_target_keeps(1) [OF prod.collapse [symmetric]])
  ultimately show ?thesis using p by simp
qed

end
