(* ===== verification/Port_Config.thy ===== *)
theory Port_Config
  imports VS_Errors
begin

text \<open>
  The network configuration of the node (\<open>src/consensus/src/config.rs\<close>): \<open>PortOrOffset\<close>, its textual
  form, and how it adjusts a port number and a multiaddress. Ports are \<open>u16\<close> and offsets \<open>i16\<close>, both
  sixteen-bit words (an offset is read by \<open>sint\<close>). The decimal printer and parser of the standard
  library's integers are written out, since the round trip of the command-line option goes through them.
  Negating \<open>i16::MIN\<close> panics where overflow checks are on and wraps where they are off: both builds are
  modelled, by the flag \<open>overflow_checks\<close>.
  A multiaddress is the stack of its protocol components, first component first.
\<close>

section \<open>Decimal numerals of the standard library\<close>

fun show_nat :: "nat \<Rightarrow> string" where
  "show_nat n =
     (if n < 10 then [char_of (48 + n)] else show_nat (n div 10) @ [char_of (48 + n mod 10)])"

declare show_nat.simps [simp del]

definition show_i16 :: "i16 \<Rightarrow> string" where
  "show_i16 x =
     (if sint x < 0 then CHR ''-'' # show_nat (nat (- sint x)) else show_nat (nat (sint x)))"

datatype int_error_kind = Empty | InvalidDigit | PosOverflow | NegOverflow

definition to_digit :: "char \<Rightarrow> int option" where
  "to_digit c =
     (if 48 \<le> (of_char c :: nat) \<and> (of_char c :: nat) \<le> 57 then Some (int (of_char c) - 48) else None)"

fun parse_pos :: "int \<Rightarrow> int \<Rightarrow> string \<Rightarrow> int_error_kind + int" where
  "parse_pos mx acc [] = Inr acc"
| "parse_pos mx acc (c # cs) =
     (case to_digit c of
        None \<Rightarrow> Inl InvalidDigit
      | Some d \<Rightarrow>
          if mx < acc * 10 then Inl PosOverflow
          else if mx < acc * 10 + d then Inl PosOverflow
          else parse_pos mx (acc * 10 + d) cs)"

fun parse_neg :: "int \<Rightarrow> int \<Rightarrow> string \<Rightarrow> int_error_kind + int" where
  "parse_neg mn acc [] = Inr acc"
| "parse_neg mn acc (c # cs) =
     (case to_digit c of
        None \<Rightarrow> Inl InvalidDigit
      | Some d \<Rightarrow>
          if acc * 10 < mn then Inl NegOverflow
          else if acc * 10 - d < mn then Inl NegOverflow
          else parse_neg mn (acc * 10 - d) cs)"

definition u16_from_str :: "string \<Rightarrow> int_error_kind + u16" where
  "u16_from_str s =
     (case s of
        [] \<Rightarrow> Inl Empty
      | c # cs \<Rightarrow>
          if (c = CHR ''+'' \<or> c = CHR ''-'') \<and> cs = [] then Inl InvalidDigit
          else map_sum id word_of_int (parse_pos 65535 0 (if c = CHR ''+'' then cs else s)))"

definition i16_from_str :: "string \<Rightarrow> int_error_kind + i16" where
  "i16_from_str s =
     (case s of
        [] \<Rightarrow> Inl Empty
      | c # cs \<Rightarrow>
          if (c = CHR ''+'' \<or> c = CHR ''-'') \<and> cs = [] then Inl InvalidDigit
          else if c = CHR ''+'' then map_sum id word_of_int (parse_pos 32767 0 cs)
          else if c = CHR ''-'' then map_sum id word_of_int (parse_neg (- 32768) 0 cs)
          else map_sum id word_of_int (parse_pos 32767 0 s))"

section \<open>PortOrOffset\<close>

datatype port_or_offset = Port u16 | Offset i16

definition saturating_add_signed :: "u16 \<Rightarrow> i16 \<Rightarrow> u16" where
  "saturating_add_signed p d =
     (let r = uint p + sint d
      in if r < 0 then 0 else if 65535 < r then 65535 else word_of_int r)"

fun adjust_port :: "port_or_offset \<Rightarrow> u16 \<Rightarrow> u16" where
  "adjust_port (Port q) port = q"
| "adjust_port (Offset offset) port = saturating_add_signed port offset"

text \<open>
  The components of a multiaddress the code tells apart; every other component is \<open>OtherProtocol\<close>
  with its text.
\<close>

datatype protocol = Udp u16 | Tcp u16 | P2p bytes | OtherProtocol string

type_synonym multiaddr = "protocol list"

text \<open>
  The loop of \<open>adjust_multiaddr\<close>: components are popped from the end of the address and pushed on
  \<open>protocols\<close>, up to and including the first port found. The result is what is left of the address
  and the collected components, in the order in which they were popped.
\<close>

function adjust_loop :: "port_or_offset \<Rightarrow> multiaddr \<Rightarrow> protocol list \<Rightarrow> multiaddr \<times> protocol list" where
  "adjust_loop self addr protocols =
     (if addr = [] then (addr, protocols)
      else (case last addr of
              Udp port \<Rightarrow> (butlast addr, protocols @ [Udp (adjust_port self port)])
            | Tcp port \<Rightarrow> (butlast addr, protocols @ [Tcp (adjust_port self port)])
            | protocol \<Rightarrow> adjust_loop self (butlast addr) (protocols @ [protocol])))"
  by pat_completeness auto
termination
  by (relation "measure (\<lambda>(self, addr, protocols). length addr)") auto

declare adjust_loop.simps [simp del]

definition adjust_multiaddr :: "port_or_offset \<Rightarrow> multiaddr \<Rightarrow> multiaddr" where
  "adjust_multiaddr self addr =
     (case adjust_loop self addr [] of
        (rest, protocols) \<Rightarrow> foldl (\<lambda>addr protocol. addr @ [protocol]) rest protocols)"

text \<open>
  Negation of an \<open>i16\<close>: \<open>None\<close> is the overflow panic of a build with overflow checks.
\<close>

definition neg_i16 :: "bool \<Rightarrow> i16 \<Rightarrow> i16 option" where
  "neg_i16 overflow_checks x =
     (if overflow_checks \<and> sint x = - 32768 then None else Some (- x))"

fun port_to_string :: "bool \<Rightarrow> port_or_offset \<Rightarrow> string option" where
  "port_to_string overflow_checks (Port port) = Some (show_nat (unat port))"
| "port_to_string overflow_checks (Offset offset) =
     (if 0 \<le> sint offset then Some (CHR ''+'' # show_i16 offset)
      else map_option (\<lambda>n. CHR ''-'' # show_i16 n) (neg_i16 overflow_checks offset))"

datatype parse_failure = ParseErr int_error_kind | NegateOverflow

definition port_from_str :: "bool \<Rightarrow> string \<Rightarrow> parse_failure + port_or_offset" where
  "port_from_str overflow_checks s =
     (if s \<noteq> [] \<and> hd s = CHR ''+'' then map_sum ParseErr Offset (i16_from_str (tl s))
      else if s \<noteq> [] \<and> hd s = CHR ''-'' then
        (case i16_from_str (tl s) of
           Inl e \<Rightarrow> Inl (ParseErr e)
         | Inr x \<Rightarrow> (case neg_i16 overflow_checks x of
                      None \<Rightarrow> Inl NegateOverflow
                    | Some n \<Rightarrow> Inr (Offset n)))
      else map_sum ParseErr Port (u16_from_str s))"

definition default_gossip_port :: port_or_offset where
  "default_gossip_port = Offset 10"

section \<open>Numerals read back what they print\<close>

lemma to_digit_char_of [simp]: "d < 10 \<Longrightarrow> to_digit (char_of (48 + d)) = Some (int d)"
  by (simp add: to_digit_def of_char_of)

lemma parse_pos_append:
  "parse_pos mx acc (xs @ ys) =
     (case parse_pos mx acc xs of Inl e \<Rightarrow> Inl e | Inr a \<Rightarrow> parse_pos mx a ys)"
  by (induction mx acc xs rule: parse_pos.induct) (auto split: option.splits)

lemma parse_neg_append:
  "parse_neg mn acc (xs @ ys) =
     (case parse_neg mn acc xs of Inl e \<Rightarrow> Inl e | Inr a \<Rightarrow> parse_neg mn a ys)"
  by (induction mn acc xs rule: parse_neg.induct) (auto split: option.splits)

lemma parse_pos_show_nat: "int n \<le> mx \<Longrightarrow> parse_pos mx 0 (show_nat n) = Inr (int n)"
proof (induction n rule: show_nat.induct)
  case (1 n)
  show ?case
  proof (cases "n < 10")
    case True
    with "1.prems" show ?thesis by (simp add: show_nat.simps [of n])
  next
    case False
    have split: "int n = int (n div 10) * 10 + int (n mod 10)" by presburger
    have "parse_pos mx 0 (show_nat (n div 10)) = Inr (int (n div 10))"
      using False "1" by simp
    then show ?thesis
      using False "1.prems" split by (simp add: show_nat.simps [of n] parse_pos_append)
  qed
qed

lemma parse_neg_show_nat: "mn \<le> - int n \<Longrightarrow> parse_neg mn 0 (show_nat n) = Inr (- int n)"
proof (induction n rule: show_nat.induct)
  case (1 n)
  show ?case
  proof (cases "n < 10")
    case True
    with "1.prems" show ?thesis by (simp add: show_nat.simps [of n])
  next
    case False
    have split: "int n = int (n div 10) * 10 + int (n mod 10)" by presburger
    have "parse_neg mn 0 (show_nat (n div 10)) = Inr (- int (n div 10))"
      using False "1" by simp
    then show ?thesis
      using False "1.prems" split by (simp add: show_nat.simps [of n] parse_neg_append)
  qed
qed

lemma show_nat_digits: "\<forall>c \<in> set (show_nat n). to_digit c \<noteq> None"
proof (induction n rule: show_nat.induct)
  case (1 n)
  then show ?case by (subst show_nat.simps) auto
qed

lemma show_nat_Cons:
  obtains c cs where "show_nat n = c # cs" and "c \<noteq> CHR ''+''" and "c \<noteq> CHR ''-''"
proof -
  have "show_nat n \<noteq> []" by (subst show_nat.simps) simp
  then obtain c cs where c: "show_nat n = c # cs" by (cases "show_nat n") auto
  have "to_digit c \<noteq> None" using show_nat_digits [of n] c by simp
  then have "c \<noteq> CHR ''+''" and "c \<noteq> CHR ''-''" by (auto simp: to_digit_def)
  with c show ?thesis by (rule that)
qed

lemma u16_from_str_show: "u16_from_str (show_nat (unat p)) = Inr p"
proof -
  obtain c cs where c: "show_nat (unat p) = c # cs" "c \<noteq> CHR ''+''" "c \<noteq> CHR ''-''"
    by (rule show_nat_Cons)
  have "int (unat p) \<le> 65535"
    using uint_lt2p [of p] by simp
  then have "parse_pos 65535 0 (c # cs) = Inr (int (unat p))"
    using parse_pos_show_nat [of "unat p" 65535] c by simp
  with c show ?thesis by (simp add: u16_from_str_def del: parse_pos.simps)
qed

lemma sint_i16_bounds: "- 32768 \<le> sint (x :: i16)" "sint (x :: i16) \<le> 32767"
  using sint_ge [of x] sint_lt [of x] by simp_all

lemma i16_from_str_show: "i16_from_str (show_i16 x) = Inr x"
proof (cases "sint x < 0")
  case True
  have "parse_neg (- 32768) 0 (show_nat (nat (- sint x))) = Inr (sint x)"
    using parse_neg_show_nat [of "- 32768" "nat (- sint x)"] True sint_i16_bounds(1) [of x] by simp
  moreover have "show_nat (nat (- sint x)) \<noteq> []"
    using show_nat_Cons [of "nat (- sint x)"] by (metis list.discI)
  ultimately show ?thesis
    using True by (simp add: i16_from_str_def show_i16_def)
next
  case False
  obtain c cs where c: "show_nat (nat (sint x)) = c # cs" "c \<noteq> CHR ''+''" "c \<noteq> CHR ''-''"
    by (rule show_nat_Cons)
  have "parse_pos 32767 0 (c # cs) = Inr (sint x)"
    using parse_pos_show_nat [of "nat (sint x)" 32767] False sint_i16_bounds(2) [of x] c by simp
  with c False show ?thesis
    by (simp add: i16_from_str_def show_i16_def del: parse_pos.simps)
qed

lemma neg_i16_twice: "neg_i16 ck x = Some y \<Longrightarrow> neg_i16 ck y = Some x"
proof -
  assume y: "neg_i16 ck x = Some y"
  then have "y = - x" and nov: "\<not> (ck \<and> sint x = - 32768)"
    by (auto simp: neg_i16_def split: if_splits)
  moreover have "sint (- x) = - 32768 \<Longrightarrow> sint x = - 32768"
  proof -
    assume "sint (- x) = - 32768"
    then have "(of_int (sint (- x)) :: i16) = of_int (- 32768)" by simp
    then have "- x = - 32768" by (simp only: of_int_sint) simp
    then have "x = 32768" by (metis minus_minus)
    then show "sint x = - 32768" by simp
  qed
  ultimately show ?thesis by (auto simp: neg_i16_def)
qed

section \<open>Adjusting ports and addresses\<close>

lemma uint_saturating_add_signed:
  "uint (saturating_add_signed p d) = max 0 (min 65535 (uint p + sint d))"
proof -
  have "uint (word_of_int r :: u16) = r" if "0 \<le> r" "r \<le> 65535" for r
    using that by (simp add: uint_word_of_int)
  then show ?thesis
    unfolding saturating_add_signed_def Let_def
    by (cases "uint p + sint d < 0"; cases "65535 < uint p + sint d")
      (simp_all del: of_int_add)
qed

definition is_port :: "protocol \<Rightarrow> bool" where
  "is_port c = (case c of Udp _ \<Rightarrow> True | Tcp _ \<Rightarrow> True | _ \<Rightarrow> False)"

definition adjust_protocol :: "port_or_offset \<Rightarrow> protocol \<Rightarrow> protocol" where
  "adjust_protocol self c =
     (case c of Udp p \<Rightarrow> Udp (adjust_port self p) | Tcp p \<Rightarrow> Tcp (adjust_port self p) | _ \<Rightarrow> c)"

lemma adjust_loop_snoc:
  "adjust_loop self (addr @ [c]) protocols =
     (if is_port c then (addr, protocols @ [adjust_protocol self c])
      else adjust_loop self addr (protocols @ [c]))"
  by (simp add: adjust_loop.simps [of self "addr @ [c]"] is_port_def adjust_protocol_def
      split: protocol.split)

lemma adjust_loop_suffix:
  "\<forall>c \<in> set post. \<not> is_port c \<Longrightarrow>
   adjust_loop self (pre @ post) protocols = adjust_loop self pre (protocols @ rev post)"
proof (induction post arbitrary: protocols rule: rev_induct)
  case Nil
  then show ?case by simp
next
  case (snoc c post)
  then show ?case
    using adjust_loop_snoc [of self "pre @ post" c protocols] by simp
qed

lemma foldl_snoc: "foldl (\<lambda>a c. a @ [c]) xs ys = xs @ ys"
  by (induction ys arbitrary: xs) simp_all

lemma adjust_multiaddr_port:
  assumes "\<forall>d \<in> set post. \<not> is_port d" and "is_port c"
  shows "adjust_multiaddr self (pre @ c # post) = pre @ rev post @ [adjust_protocol self c]"
proof -
  have "adjust_loop self ((pre @ [c]) @ post) [] = (pre, rev post @ [adjust_protocol self c])"
    using assms by (simp add: adjust_loop_suffix adjust_loop_snoc del: append_assoc)
  then show ?thesis by (simp add: adjust_multiaddr_def foldl_snoc)
qed

lemma adjust_multiaddr_no_port:
  assumes "\<forall>d \<in> set post. \<not> is_port d"
  shows "adjust_multiaddr self post = rev post"
proof -
  have "adjust_loop self ([] @ post) [] = ([], rev post)"
    unfolding adjust_loop_suffix [OF assms, of self "[]" "[]"] by (simp add: adjust_loop.simps)
  then show ?thesis by (simp add: adjust_multiaddr_def foldl_snoc)
qed

section \<open>Properties\<close>

text \<open>
  C33. The textual form of a \<open>PortOrOffset\<close> reads back as the same value, in builds with and without
  overflow checks: whenever \<open>Display\<close> produces a text, \<open>FromStr\<close> accepts it and returns the value
  printed.
\<close>

theorem port_roundtrip:
  assumes "port_to_string overflow_checks p = Some s"
  shows "port_from_str overflow_checks s = Inr p"
proof (cases p)
  case (Port q)
  obtain c cs where c: "show_nat (unat q) = c # cs" "c \<noteq> CHR ''+''" "c \<noteq> CHR ''-''"
    by (rule show_nat_Cons)
  with Port assms show ?thesis
    using u16_from_str_show [of q] by (auto simp: port_from_str_def)
next
  case (Offset d)
  show ?thesis
  proof (cases "0 \<le> sint d")
    case True
    with Offset assms show ?thesis by (auto simp: port_from_str_def i16_from_str_show)
  next
    case False
    with Offset assms obtain n where n: "neg_i16 overflow_checks d = Some n"
      and s: "s = CHR ''-'' # show_i16 n"
      by auto
    from n have "neg_i16 overflow_checks n = Some d" by (rule neg_i16_twice)
    with Offset s show ?thesis by (simp add: port_from_str_def i16_from_str_show)
  qed
qed

theorem port_roundtrip_witness:
  "port_to_string True (Offset (- 7)) = Some ''-7'' \<and> port_from_str True ''-7'' = Inr (Offset (- 7))"
proof -
  have p: "port_to_string True (Offset (- 7)) = Some ''-7''"
    by code_simp
  show ?thesis using p port_roundtrip [OF p] by simp
qed

text \<open>
  \<open>adjust_port\<close> with an offset is addition clamped to the range of a port number: the result is
  the exact sum when that is a port, zero when the sum is negative and 65535 when it is too large.
\<close>

theorem adjust_port_clamps:
  "uint (adjust_port (Offset offset) port) = max 0 (min 65535 (uint port + sint offset))"
  by (simp add: uint_saturating_add_signed)

text \<open>
  C34. What \<open>adjust_multiaddr\<close> computes, on every address. Where the address has a port, the last
  port \<open>c\<close> is adjusted and everything before it is kept, but the components after it end up in front
  of it and in reverse order; an address without a port is reversed.
\<close>

theorem adjust_multiaddr_behaviour:
  assumes "\<forall>d \<in> set post. \<not> is_port d" and "is_port c"
  shows "adjust_multiaddr self (pre @ c # post) = pre @ rev post @ [adjust_protocol self c]
    \<and> adjust_multiaddr self post = rev post"
  using assms by (simp add: adjust_multiaddr_port adjust_multiaddr_no_port)

theorem adjust_multiaddr_behaviour_witness:
  "adjust_multiaddr (Offset 10) ([OtherProtocol ''ip4''] @ Tcp 30333 # [OtherProtocol ''ws'']) =
     [OtherProtocol ''ip4'', OtherProtocol ''ws'', Tcp 30343]"
proof -
  have "\<forall>d \<in> set [OtherProtocol ''ws'']. \<not> is_port d" and "is_port (Tcp 30333)"
    by (simp_all add: is_port_def)
  from adjust_multiaddr_behaviour [OF this, of "Offset 10" "[OtherProtocol ''ip4'']"]
  have "adjust_multiaddr (Offset 10) ([OtherProtocol ''ip4''] @ Tcp 30333 # [OtherProtocol ''ws'']) =
      [OtherProtocol ''ip4''] @ rev [OtherProtocol ''ws''] @ [adjust_protocol (Offset 10) (Tcp 30333)]"
    by (rule conjunct1)
  also have "adjust_protocol (Offset 10) (Tcp 30333) = Tcp 30343"
    by (simp add: adjust_protocol_def saturating_add_signed_def)
  finally show ?thesis by simp
qed

end
