(* ===== verification/Gossip.thy ===== *)
theory Gossip
  imports VS_Errors Port_Config
begin

text \<open>
  The gossip actor (\<open>src/consensus/src/gossip/mod.rs\<close>). \<open>Gossip\<close> is the sending half of a channel of
  orders, \<open>GossipService\<close> the task that takes orders from it and events from the libp2p swarm, one at a
  time. The swarm is a parameter, the record \<open>swarm_ops\<close> of the calls the code makes on it. The
  handler of messages is the interface \<open>gossip_handler_trait\<close>; it also sees the outside world (the
  chain) as it is when the message arrives.

  The service's \<open>select!\<close> loop never returns, so it is the step relation \<open>gossip_step\<close>: a sender puts an
  order into the channel, or the service takes the oldest order or a network event. If the handler
  panics the task is gone; its receiver is dropped and every later \<open>send\<close> fails and is logged. The
  channel has a buffer of 64 orders; that a sender may have to wait for the service to make room is not
  part of this model, in which sending an order is one step. (The orders sent before the service runs are in
  \<open>Node\<close>, with the buffer.)
\<close>

section \<open>Orders and network events\<close>

datatype gossip_order = SendMessage string bytes | DialPeers "multiaddr list" | Listen multiaddr

datatype 'peer swarm_event =
    NewListenAddr multiaddr
  | GossipsubSubscribed 'peer string
  | GossipsubMessage bytes
  | IdentifyReceived "multiaddr list" 'peer
  | OtherSwarmEvent

record ('sw, 'peer) swarm_ops =
  sw_subscribe :: "'sw \<Rightarrow> string \<Rightarrow> (string + bool) \<times> 'sw"
  sw_publish :: "'sw \<Rightarrow> string \<Rightarrow> bytes \<Rightarrow> (string + unit) \<times> 'sw"
  sw_dial :: "'sw \<Rightarrow> multiaddr \<Rightarrow> (string + unit) \<times> 'sw"
  sw_listen_on :: "'sw \<Rightarrow> multiaddr \<Rightarrow> (string + unit) \<times> 'sw"
  kad_add_address :: "'sw \<Rightarrow> 'peer \<Rightarrow> multiaddr \<Rightarrow> 'sw"

type_synonym ('v, 'h) message_handler = "'v \<Rightarrow> 'h \<Rightarrow> bytes \<Rightarrow> unit vs_result \<times> 'h"

section \<open>The sending half\<close>

text \<open>
  The channel: the orders waiting in it, and whether its receiver still exists.
\<close>

record channel =
  ch_orders :: "gossip_order list"
  ch_receiver :: bool

definition gossip_create :: channel where
  "gossip_create = \<lparr>ch_orders = [], ch_receiver = True\<rparr>"

definition send_order :: "channel \<Rightarrow> gossip_order \<Rightarrow> channel" where
  "send_order tx order = (if ch_receiver tx then tx\<lparr>ch_orders := ch_orders tx @ [order]\<rparr> else tx)"

definition publish :: "channel \<Rightarrow> string \<Rightarrow> bytes \<Rightarrow> channel" where
  "publish tx topic message = send_order tx (SendMessage topic message)"

definition connect_to :: "channel \<Rightarrow> multiaddr list \<Rightarrow> channel" where
  "connect_to tx peers = send_order tx (DialPeers peers)"

definition listen :: "channel \<Rightarrow> multiaddr \<Rightarrow> channel" where
  "listen tx address = send_order tx (Listen address)"

section \<open>The service\<close>

fun dial_peers :: "('sw, 'peer) swarm_ops \<Rightarrow> 'sw \<Rightarrow> multiaddr list \<Rightarrow> 'sw" where
  "dial_peers ops swarm [] = swarm"
| "dial_peers ops swarm (peer # peers) = dial_peers ops (snd (sw_dial ops swarm peer)) peers"

definition handle_incoming_order ::
    "('sw, 'peer) swarm_ops \<Rightarrow> ('v, 'h) message_handler \<Rightarrow> 'v \<Rightarrow> 'sw \<Rightarrow> 'h \<Rightarrow> gossip_order
      \<Rightarrow> unit vs_result \<times> 'sw \<times> 'h" where
  "handle_incoming_order ops handle v swarm handler order =
     (case order of
        SendMessage topic message \<Rightarrow>
          let swarm' = snd (sw_publish ops swarm topic message)
          in (case handle v handler message of (r, handler') \<Rightarrow> (r, swarm', handler'))
      | DialPeers peers \<Rightarrow> (Inr (), dial_peers ops swarm peers, handler)
      | Listen listen_addr \<Rightarrow> (Inr (), snd (sw_listen_on ops swarm listen_addr), handler))"

definition handle_incoming_event ::
    "('sw, 'peer) swarm_ops \<Rightarrow> ('v, 'h) message_handler \<Rightarrow> 'v \<Rightarrow> 'sw \<Rightarrow> 'h \<Rightarrow> 'peer swarm_event
      \<Rightarrow> unit vs_result \<times> 'sw \<times> 'h" where
  "handle_incoming_event ops handle v swarm handler event =
     (case event of
        GossipsubMessage message_data \<Rightarrow>
          (case handle v handler message_data of (r, handler') \<Rightarrow> (r, swarm, handler'))
      | IdentifyReceived listen_addrs peer_id \<Rightarrow>
          (Inr (), foldl (\<lambda>sw addr. kad_add_address ops sw peer_id addr) swarm listen_addrs, handler)
      | _ \<Rightarrow> (Inr (), swarm, handler))"

record ('sw, 'h) gossip_service =
  gs_channel :: channel
  gs_swarm :: 'sw
  gs_handler :: 'h

text \<open>
  The state of the task after it has handled an order or an event.
\<close>

definition after_handling ::
    "('sw, 'h) gossip_service \<Rightarrow> channel \<Rightarrow> unit vs_result \<times> 'sw \<times> 'h \<Rightarrow> ('sw, 'h) gossip_service" where
  "after_handling s ch outcome =
     (case outcome of
        (Inr _, swarm, handler) \<Rightarrow> s\<lparr>gs_channel := ch, gs_swarm := swarm, gs_handler := handler\<rparr>
      | (Inl _, swarm, handler) \<Rightarrow>
          s\<lparr>gs_channel := ch\<lparr>ch_receiver := False\<rparr>, gs_swarm := swarm, gs_handler := handler\<rparr>)"

text \<open>
  \<open>run\<close> up to its loop: a new swarm, subscribed to the handler's topics.
\<close>

definition run_service ::
    "('sw, 'peer) swarm_ops \<Rightarrow> 'sw \<Rightarrow> channel \<Rightarrow> string list \<Rightarrow> 'h \<Rightarrow> ('sw, 'h) gossip_service" where
  "run_service ops created_swarm rc topics handler =
     \<lparr>gs_channel = rc,
      gs_swarm = foldl (\<lambda>sw topic. snd (sw_subscribe ops sw topic)) created_swarm topics,
      gs_handler = handler\<rparr>"

datatype ('v, 'peer) gossip_label =
    Sent gossip_order
  | TookOrder 'v gossip_order
  | TookEvent 'v "'peer swarm_event"

inductive gossip_step ::
    "('sw, 'peer) swarm_ops \<Rightarrow> ('v, 'h) message_handler \<Rightarrow> ('sw, 'h) gossip_service
      \<Rightarrow> ('v, 'peer) gossip_label \<Rightarrow> ('sw, 'h) gossip_service \<Rightarrow> bool"
  for ops handle where
  Send: "gossip_step ops handle s (Sent order) (s\<lparr>gs_channel := send_order (gs_channel s) order\<rparr>)"
| Order: "ch_receiver (gs_channel s) \<Longrightarrow> ch_orders (gs_channel s) = order # rest \<Longrightarrow>
    gossip_step ops handle s (TookOrder v order)
      (after_handling s ((gs_channel s)\<lparr>ch_orders := rest\<rparr>)
        (handle_incoming_order ops handle v (gs_swarm s) (gs_handler s) order))"
| Event: "ch_receiver (gs_channel s) \<Longrightarrow>
    gossip_step ops handle s (TookEvent v event)
      (after_handling s (gs_channel s)
        (handle_incoming_event ops handle v (gs_swarm s) (gs_handler s) event))"

inductive gossip_run ::
    "('sw, 'peer) swarm_ops \<Rightarrow> ('v, 'h) message_handler \<Rightarrow> ('sw, 'h) gossip_service
      \<Rightarrow> ('v, 'peer) gossip_label list \<Rightarrow> ('sw, 'h) gossip_service \<Rightarrow> bool"
  for ops handle where
  Stop: "gossip_run ops handle s [] s"
| Step: "gossip_step ops handle s l s1 \<Longrightarrow> gossip_run ops handle s1 ls s2 \<Longrightarrow>
    gossip_run ops handle s (l # ls) s2"

inductive_cases gossip_stepE: "gossip_step ops handle s l s'"
inductive_cases gossip_runE: "gossip_run ops handle s (l # ls) s'"

section \<open>Traces\<close>

fun sent :: "('v, 'peer) gossip_label list \<Rightarrow> gossip_order list" where
  "sent [] = []"
| "sent (Sent order # ls) = order # sent ls"
| "sent (_ # ls) = sent ls"

fun taken :: "('v, 'peer) gossip_label list \<Rightarrow> gossip_order list" where
  "taken [] = []"
| "taken (TookOrder v order # ls) = order # taken ls"
| "taken (_ # ls) = taken ls"

text \<open>
  The messages of a trace: those sent by this node when their order is taken, and those received.
\<close>

fun messages :: "('v, 'peer) gossip_label list \<Rightarrow> ('v \<times> bytes) list" where
  "messages [] = []"
| "messages (TookOrder v (SendMessage topic m) # ls) = (v, m) # messages ls"
| "messages (TookEvent v (GossipsubMessage m) # ls) = (v, m) # messages ls"
| "messages (_ # ls) = messages ls"

fun deliver_all :: "('v, 'h) message_handler \<Rightarrow> 'h \<Rightarrow> ('v \<times> bytes) list \<Rightarrow> unit vs_result \<times> 'h" where
  "deliver_all handle h [] = (Inr (), h)"
| "deliver_all handle h ((v, m) # ms) =
     (case handle v h m of (Inl f, h') \<Rightarrow> (Inl f, h') | (Inr _, h') \<Rightarrow> deliver_all handle h' ms)"

lemma deliver_all_append:
  "deliver_all handle h (xs @ ys) =
     (case deliver_all handle h xs of (Inl f, h') \<Rightarrow> (Inl f, h') | (Inr _, h') \<Rightarrow> deliver_all handle h' ys)"
  by (induction handle h xs rule: deliver_all.induct) (auto split: prod.splits sum.splits)

lemma sent_Cons: "sent (l # ls) = sent [l] @ sent ls"
  by (cases "l # ls" rule: sent.cases) simp_all

lemma taken_Cons: "taken (l # ls) = taken [l] @ taken ls"
  by (cases "l # ls" rule: taken.cases) simp_all

lemma messages_Cons: "messages (l # ls) = messages [l] @ messages ls"
  by (cases "l # ls" rule: messages.cases) simp_all

section \<open>Handlers that never fail\<close>

text \<open>
  \<open>live ok s\<close>: the task runs and its handler is in a good state.
\<close>

definition live :: "('h \<Rightarrow> bool) \<Rightarrow> ('sw, 'h) gossip_service \<Rightarrow> bool" where
  "live ok s \<longleftrightarrow> ch_receiver (gs_channel s) \<and> ok (gs_handler s)"

text \<open>
  \<open>label_seen seen l\<close>: the world as the handler sees it in step \<open>l\<close> is one of those \<open>seen\<close> describes.
\<close>

fun label_seen :: "('v \<Rightarrow> bool) \<Rightarrow> ('v, 'peer) gossip_label \<Rightarrow> bool" where
  "label_seen seen (Sent order) = True"
| "label_seen seen (TookOrder v order) = seen v"
| "label_seen seen (TookEvent v event) = seen v"

locale gossip_handler_trait =
  fixes handle :: "('v, 'h) message_handler" and seen :: "'v \<Rightarrow> bool" and ok :: "'h \<Rightarrow> bool"
  assumes handle_ok: "seen v \<Longrightarrow> ok h \<Longrightarrow> handle v h m = (r, h') \<Longrightarrow> r = Inr () \<and> ok h'"
begin

lemma order_ok:
  assumes "seen v" and "ok h" and "handle_incoming_order ops handle v sw h order = (r, sw', h')"
  shows "r = Inr ()" and "ok h'"
    and "deliver_all handle h (messages [TookOrder v order]) = (Inr (), h')"
  using assms handle_ok [OF assms(1,2)]
  by (auto simp: handle_incoming_order_def Let_def split: gossip_order.splits prod.splits sum.splits)

lemma event_ok:
  assumes "seen v" and "ok h" and "handle_incoming_event ops handle v sw h event = (r, sw', h')"
  shows "r = Inr ()" and "ok h'"
    and "deliver_all handle h (messages [TookEvent v event]) = (Inr (), h')"
  using assms handle_ok [OF assms(1,2)]
  by (auto simp: handle_incoming_event_def split: swarm_event.splits prod.splits sum.splits)

lemma step_live:
  assumes "gossip_step ops handle s l s'" and "live ok s" and "label_seen seen l"
  shows "live ok s'" and "ch_orders (gs_channel s) @ sent [l] = taken [l] @ ch_orders (gs_channel s')"
    and "deliver_all handle (gs_handler s) (messages [l]) = (Inr (), gs_handler s')"
proof -
  have ok: "ok (gs_handler s)" and rc: "ch_receiver (gs_channel s)" using assms(2) by (simp_all add: live_def)
  have "live ok s' \<and> ch_orders (gs_channel s) @ sent [l] = taken [l] @ ch_orders (gs_channel s') \<and>
      deliver_all handle (gs_handler s) (messages [l]) = (Inr (), gs_handler s')"
    using assms(1)
  proof (cases rule: gossip_step.cases)
    case (Send order)
    then show ?thesis using ok rc by (simp add: live_def send_order_def)
  next
    case (Order order rest v)
    obtain r sw h where out: "handle_incoming_order ops handle v (gs_swarm s) (gs_handler s) order = (r, sw, h)"
      by (cases "handle_incoming_order ops handle v (gs_swarm s) (gs_handler s) order")
    show ?thesis using Order out order_ok [OF _ ok out] rc assms(3) by (simp add: after_handling_def live_def)
  next
    case (Event v event)
    obtain r sw h where out: "handle_incoming_event ops handle v (gs_swarm s) (gs_handler s) event = (r, sw, h)"
      by (cases "handle_incoming_event ops handle v (gs_swarm s) (gs_handler s) event")
    show ?thesis using Event out event_ok [OF _ ok out] rc assms(3) by (simp add: after_handling_def live_def)
  qed
  then show "live ok s'" and "ch_orders (gs_channel s) @ sent [l] = taken [l] @ ch_orders (gs_channel s')"
    and "deliver_all handle (gs_handler s) (messages [l]) = (Inr (), gs_handler s')" by blast+
qed

text \<open>
  Over a whole run: the task stays alive, every order is taken once and in the order of sending, and
  the handler has seen exactly the messages of the trace.
\<close>

lemma run_live:
  assumes "gossip_run ops handle s ls s'" and "live ok s" and "list_all (label_seen seen) ls"
  shows "live ok s' \<and> ch_orders (gs_channel s) @ sent ls = taken ls @ ch_orders (gs_channel s') \<and>
    deliver_all handle (gs_handler s) (messages ls) = (Inr (), gs_handler s')"
  using assms
proof (induction rule: gossip_run.induct)
  case (Step s l s1 ls s2)
  have seen: "label_seen seen l" "list_all (label_seen seen) ls" using Step.prems(2) by simp_all
  note st = step_live [OF Step.hyps(1) Step.prems(1) seen(1)]
  note IH = Step.IH [OF st(1) seen(2)]
  have "deliver_all handle (gs_handler s) (messages (l # ls)) = (Inr (), gs_handler s2)"
    using st(3) IH by (simp add: messages_Cons [of l ls] deliver_all_append)
  moreover have "ch_orders (gs_channel s) @ sent (l # ls) = taken (l # ls) @ ch_orders (gs_channel s2)"
    using st(2) IH by (simp add: sent_Cons [of l ls] taken_Cons [of l ls]) (metis append_assoc)
  ultimately show ?case using IH by blast
qed simp

text \<open>
  The service can always go on and empty its channel.
\<close>

lemma drain:
  assumes "live ok s" and "seen v"
  shows "\<exists>ls s'. gossip_run ops handle s ls s' \<and> list_all (label_seen seen) ls \<and> taken ls = ch_orders (gs_channel s) \<and> sent ls = [] \<and>
    ch_orders (gs_channel s') = []"
  using assms(1)
proof (induction "ch_orders (gs_channel s)" arbitrary: s)
  case Nil
  then show ?case by (intro exI [of _ "[]"] exI [of _ s]) (simp add: gossip_run.Stop)
next
  case (Cons order rest)
  let ?l = "TookOrder v order"
  let ?s1 = "after_handling s ((gs_channel s)\<lparr>ch_orders := rest\<rparr>)
    (handle_incoming_order ops handle v (gs_swarm s) (gs_handler s) order)"
  have step: "gossip_step ops handle s ?l ?s1"
    using Cons.prems Cons.hyps(2) by (intro gossip_step.Order) (simp_all add: live_def)
  have seen: "label_seen seen ?l" using assms(2) by simp
  note st = step_live [OF step Cons.prems seen]
  have rest: "rest = ch_orders (gs_channel ?s1)" using st(2) Cons.hyps(2) by simp
  obtain ls s' where run: "gossip_run ops handle ?s1 ls s'" "list_all (label_seen seen) ls" "taken ls = ch_orders (gs_channel ?s1)"
    "sent ls = []" "ch_orders (gs_channel s') = []"
    using Cons.hyps(1) [OF rest st(1)] by blast
  then have "gossip_run ops handle s (?l # ls) s'" using step gossip_run.Step by blast
  moreover have "taken (?l # ls) = ch_orders (gs_channel s)" "sent (?l # ls) = []"
    using run(3,4) rest Cons.hyps(2) by simp_all
  moreover have "list_all (label_seen seen) (?l # ls)" using run(2) seen by simp
  ultimately show ?case using run(5) by blast
qed

end

end
