(* ===== verification/Witness.thy ===== *)
theory Witness
  imports Gossip_Handler Gossip
begin

text \<open>
  \<open>EventWitnesser\<close> (\<open>src/consensus/src/events/witness.rs\<close>): signing an event with a key of this node
  that is an authority and publishing it. The keystore is a parameter; \<open>keystore_laws\<close> states what it
  promises: the supported keys are among those asked about, and a signature made with a supported
  key verifies.
\<close>

record keystore =
  ks_supported_keys :: "crypto_pair list \<Rightarrow> string + crypto_pair list"
  ks_sign_with :: "crypto_pair \<Rightarrow> bytes \<Rightarrow> string + bytes option"

definition keystore_laws :: "sr25519 \<Rightarrow> keystore \<Rightarrow> bool" where
  "keystore_laws sr ks \<longleftrightarrow>
     (\<forall>keys supported. ks_supported_keys ks keys = Inr supported \<longrightarrow> set supported \<subseteq> set keys) \<and>
     (\<forall>k e g. ks_sign_with ks k (as_bytes e) = Inr (Some g) \<longrightarrow> signed_by sr k e g)"

record 'c event_witnesser =
  ew_gossip :: channel
  ew_block_state :: "'c block_state"

definition event_witnesser_new :: "channel \<Rightarrow> 'c block_state \<Rightarrow> 'c event_witnesser" where
  [simp]: "event_witnesser_new gossip block_state = \<lparr>ew_gossip = gossip, ew_block_state = block_state\<rparr>"

text \<open>
  The part after the authorities are known: what is sent, or why not.
\<close>

definition sign_event :: "bincode \<Rightarrow> keystore \<Rightarrow> authorities_list \<Rightarrow> h256 \<Rightarrow> bytes vs_result" where
  "sign_event bc ks al event_id =
     and_then (question error_from_keystore (ks_supported_keys ks (authorities al))) (\<lambda>supported_keys.
       (case supported_keys of
          [] \<Rightarrow> Inl (Err NotAValidator)
        | pub_key # _ \<Rightarrow>
            and_then (question error_from_keystore (ks_sign_with ks pub_key (as_bytes event_id))) (\<lambda>s.
              (case s of
                 None \<Rightarrow> Inl (Err (SigningFailure ''Failed getting a signature''))
               | Some signature \<Rightarrow>
                   question SerilizationFailure
                     (ser_event bc \<lparr>we_signature = signature, we_pub_key = pub_key,
                                    we_event_id = event_id\<rparr>)))))"

definition witness_event ::
    "'c lru_ops \<Rightarrow> ('aid \<Rightarrow> crypto_pair) \<Rightarrow> bincode \<Rightarrow> keystore \<Rightarrow> ('aid, 'ext) client
      \<Rightarrow> 'c event_witnesser \<Rightarrow> h256 \<Rightarrow> unit vs_result \<times> 'c event_witnesser" where
  "witness_event lru from_id bc ks client self event_id =
     (case get_latest_authorities_list lru from_id (ew_block_state self) client of
        (Inl f, bs) \<Rightarrow> (Inl f, self\<lparr>ew_block_state := bs\<rparr>)
      | (Inr al, bs) \<Rightarrow>
          (case sign_event bc ks al event_id of
             Inl f \<Rightarrow> (Inl f, self\<lparr>ew_block_state := bs\<rparr>)
           | Inr serilized_event \<Rightarrow>
               (Inr (), self\<lparr>ew_block_state := bs,
                  ew_gossip := publish (ew_gossip self) WITNESSED_EVENTS_TOPIC serilized_event\<rparr>)))"

section \<open>What is published\<close>

lemma sign_event_cases:
  assumes "keystore_laws sr ks" and "bincode_laws bc" and "sign_event bc ks al e = Inr m"
  obtains w where "de_event bc m = Inr w" and "we_event_id w = e"
    and "verify_witnessed_event_origin sr al w = Inr w"
proof -
  obtain k rest g where k: "ks_supported_keys ks (authorities al) = Inr (k # rest)"
    and g: "ks_sign_with ks k (as_bytes e) = Inr (Some g)"
    and m: "ser_event bc \<lparr>we_signature = g, we_pub_key = k, we_event_id = e\<rparr> = Inr m"
    using assms(3) by (auto simp: sign_event_def question_def and_then_eq_Inr split: sum.splits list.splits option.splits)
  have "k \<in> set (authorities al)" using assms(1) k unfolding keystore_laws_def by fastforce
  moreover have "signed_by sr k e g" using assms(1) g unfolding keystore_laws_def by blast
  moreover have "de_event bc m = Inr \<lparr>we_signature = g, we_pub_key = k, we_event_id = e\<rparr>"
    using m bincode_eventE [OF assms(2)] by (metis Inr_inject)
  ultimately show ?thesis
    using that [of "\<lparr>we_signature = g, we_pub_key = k, we_event_id = e\<rparr>"] by (simp add: verify_origin_Inr)
qed

lemma sign_event_no_panic: "no_panic (sign_event bc ks al e)"
  by (simp add: sign_event_def split: list.split option.split)

lemma witness_event_Ok:
  assumes "witness_event lru from_id bc ks client self e = (Inr (), self')"
  obtains al bs m where
    "get_latest_authorities_list lru from_id (ew_block_state self) client = (Inr al, bs)"
    and "sign_event bc ks al e = Inr m"
    and "self' = self\<lparr>ew_block_state := bs, ew_gossip := publish (ew_gossip self) WITNESSED_EVENTS_TOPIC m\<rparr>"
  using assms by (auto simp: witness_event_def split: prod.splits sum.splits)

lemma witness_event_Err:
  assumes "witness_event lru from_id bc ks client self e = (Inl f, self')"
  shows "ew_gossip self' = ew_gossip self" and "\<exists>err. f = Err err"
proof -
  show "ew_gossip self' = ew_gossip self"
    using assms by (auto simp: witness_event_def split: prod.splits sum.splits)
  have "no_panic (fst (get_latest_authorities_list lru from_id (ew_block_state self) client))"
    unfolding get_latest_authorities_list_def by (rule get_authorities_list_no_panic)
  then show "\<exists>err. f = Err err"
    using assms sign_event_no_panic
    by (auto simp: witness_event_def no_panic_Inl_iff split: prod.splits sum.splits) (metis no_panic_Inl_iff)
qed

end
