(* ===== verification/Validate.thy ===== *)
theory Validate
  imports Authorities
begin

text \<open>
  \<open>EventValidator\<close> (\<open>src/consensus/src/events/validate.rs\<close>): the events of a finalized block, waiting for
  the block to be finalized. While the call waits the chain moves on: the future is the list of the
  finality notifications the call receives, each with the hash it announces and the client's view
  of the chain from then on. A list that ends before the block is finalized leaves the call waiting,
  \<open>None\<close>.
\<close>

type_synonym ('aid, 'ext) notification = "h256 \<times> ('aid, 'ext) client"

text \<open>
  The test in the loop: the block at \<open>block_num\<close> on the client's chain, if it is an ancestor of the
  finalized block.
\<close>

definition finalized_block_at :: "('aid, 'ext) client \<Rightarrow> h256 \<Rightarrow> u32 \<Rightarrow> h256 option" where
  "finalized_block_at client last_finalized block_num =
     (case cl_block_hash client block_num of
        Inr (Some block_hash) \<Rightarrow>
          (case cl_lowest_common_ancestor client last_finalized block_hash of
             Inr common_ancestor \<Rightarrow> if common_ancestor = block_hash then Some block_hash else None
           | Inl _ \<Rightarrow> None)
      | _ \<Rightarrow> None)"

fun wait_finalized ::
    "('aid, 'ext) client \<Rightarrow> h256 \<Rightarrow> u32 \<Rightarrow> ('aid, 'ext) notification list
      \<Rightarrow> (h256 \<times> ('aid, 'ext) client) option" where
  "wait_finalized client last_finalized block_num notifications =
     (case finalized_block_at client last_finalized block_num of
        Some block_hash \<Rightarrow> Some (block_hash, client)
      | None \<Rightarrow>
          (case notifications of
             [] \<Rightarrow> None
           | (hash, client') # notifications' \<Rightarrow> wait_finalized client' hash block_num notifications'))"

definition block_events :: "('aid, 'ext) client \<Rightarrow> h256 \<Rightarrow> h256 list" where
  "block_events client block_id =
     (let block_extrinsics = (case cl_block_body client block_id of Inr (Some body) \<Rightarrow> body | _ \<Rightarrow> [])
      in (case cl_get_extrinsic_ids client block_id block_extrinsics of Inr ids \<Rightarrow> ids | Inl _ \<Rightarrow> []))"

definition get_finalized_block_events ::
    "('aid, 'ext) client \<Rightarrow> ('aid, 'ext) notification list \<Rightarrow> u32 \<Rightarrow> h256 list vs_result option" where
  "get_finalized_block_events client notifications block_num =
     map_option (\<lambda>(block_id, client'). Inr (block_events client' block_id))
       (wait_finalized client (finalized_hash (cl_info client)) block_num notifications)"

definition get_latest_finalized_block :: "('aid, 'ext) client \<Rightarrow> u32 vs_result" where
  "get_latest_finalized_block client = Inr (finalized_number (cl_info client))"

section \<open>Lemmas\<close>

declare wait_finalized.simps [simp del]

text \<open>
  The views the loop tests, in order.
\<close>

definition views :: "('aid, 'ext) client \<Rightarrow> ('aid, 'ext) notification list \<Rightarrow> ('aid, 'ext) notification list" where
  "views client notifications = (finalized_hash (cl_info client), client) # notifications"

lemma wait_finalized_find:
  "wait_finalized client h n ns =
     (case find (\<lambda>(h, c). finalized_block_at c h n \<noteq> None) ((h, client) # ns) of
        None \<Rightarrow> None
      | Some (h, c) \<Rightarrow> map_option (\<lambda>b. (b, c)) (finalized_block_at c h n))"
proof (induction ns arbitrary: client h)
  case Nil
  then show ?case by (subst wait_finalized.simps) (auto split: option.split)
next
  case (Cons a ns)
  then show ?case
    by (subst wait_finalized.simps) (cases a; auto split: option.split)
qed

lemma finalized_block_at_Some:
  "finalized_block_at c h n = Some b \<longleftrightarrow>
     cl_block_hash c n = Inr (Some b) \<and> cl_lowest_common_ancestor c h b = Inr b"
  by (auto simp: finalized_block_at_def split: sum.splits option.splits if_splits)

text \<open>
  The call returns in the first view in which the block is finalized, and waits when there is none.
\<close>

lemma get_finalized_block_events_Some:
  "get_finalized_block_events client ns n = Some r \<longleftrightarrow>
     (\<exists>pre h c post b. views client ns = pre @ (h, c) # post \<and>
        (\<forall>(h', c') \<in> set pre. finalized_block_at c' h' n = None) \<and>
        finalized_block_at c h n = Some b \<and> r = Inr (block_events c b))"
  (is "?l \<longleftrightarrow> ?r")
proof
  assume ?l
  then obtain b c where w: "wait_finalized client (finalized_hash (cl_info client)) n ns = Some (b, c)"
    and r: "r = Inr (block_events c b)"
    by (auto simp: get_finalized_block_events_def)
  then obtain h where "find (\<lambda>(h, c). finalized_block_at c h n \<noteq> None) (views client ns) = Some (h, c)"
    and b: "finalized_block_at c h n = Some b"
    unfolding wait_finalized_find views_def [symmetric] by (auto split: option.splits)
  then obtain i where i: "i < length (views client ns)" "views client ns ! i = (h, c)"
    and pre: "\<forall>j < i. \<not> (case views client ns ! j of (h, c) \<Rightarrow> finalized_block_at c h n \<noteq> None)"
    unfolding find_Some_iff by metis
  have "views client ns = take i (views client ns) @ (h, c) # drop (Suc i) (views client ns)"
    using i id_take_nth_drop by metis
  moreover have "\<forall>(h', c') \<in> set (take i (views client ns)). finalized_block_at c' h' n = None"
    using pre i(1) by (auto simp: in_set_conv_nth split: prod.splits)
  ultimately show ?r using b r by blast
next
  assume ?r
  then obtain pre h c post b where v: "views client ns = pre @ (h, c) # post"
    and pre: "\<forall>(h', c') \<in> set pre. finalized_block_at c' h' n = None"
    and b: "finalized_block_at c h n = Some b" and r: "r = Inr (block_events c b)" by blast
  have "find (\<lambda>(h, c). finalized_block_at c h n \<noteq> None) (pre @ (h, c) # post) = Some (h, c)"
    using pre b by (induction pre) auto
  then have "wait_finalized client (finalized_hash (cl_info client)) n ns = Some (b, c)"
    unfolding wait_finalized_find views_def [symmetric] v using b by simp
  then show ?l using r by (simp add: get_finalized_block_events_def)
qed

end
