(* ===== verification/Server.thy ===== *)
theory Server
  imports Witness Validate
begin

text \<open>
  The gRPC service (\<open>src/consensus/src/server.rs\<close>), for any witnesser and validator. \<open>witness_event\<close> is a
  request and its reply; \<open>validated_events\<close> is a stream, unfolded block by block. Block numbers are
  \<open>u32\<close> and \<open>block_num + 1\<close> wraps, as in the release build. An item the validator still waits for is
  \<open>None\<close>.
\<close>

datatype status = invalid_argument string | aborted string

record validated_events_request =
  from_block :: u32
  from_latest :: bool

record validated_events_response =
  next_block :: u32
  vr_events :: "bytes list"

section \<open>Serving\<close>

text \<open>
  \<open>try_join_all\<close> on the servers of all addresses: \<open>pending\<close> of them still run, and the list has how servers
  ended, in that order. The first error ends it; \<open>None\<close> is that it waits for ever.
\<close>

fun try_join_all :: "nat \<Rightarrow> (string + unit) list \<Rightarrow> (string + unit) option" where
  "try_join_all 0 ended = Some (Inr ())"
| "try_join_all (Suc pending) [] = None"
| "try_join_all (Suc pending) (Inl e # ended) = Some (Inl e)"
| "try_join_all (Suc pending) (Inr _ # ended) = try_join_all pending ended"

definition server_run :: "string list \<Rightarrow> (string + unit) list \<Rightarrow> unit vs_result" where
  "server_run grpc_addrs ended =
     (case try_join_all (length grpc_addrs) ended of
        None \<Rightarrow> Inl Diverge
      | Some (Inl e) \<Rightarrow> Inl (Err (Other e))
      | Some (Inr _) \<Rightarrow> Inr ())"

text \<open>
  One server that fails, for instance since its address is taken, ends those of the other addresses.
\<close>

lemma try_join_all_fails:
  "length oks < pending \<Longrightarrow> list_all (\<lambda>r. \<not> isl r) oks \<Longrightarrow> try_join_all pending (oks @ Inl e # ended) = Some (Inl e)"
proof (induction oks arbitrary: pending)
  case Nil
  then show ?case by (cases pending) simp_all
next
  case (Cons r oks)
  then show ?case by (cases pending; cases r) simp_all
qed

lemma server_run_cases:
  shows "length oks < length grpc_addrs \<Longrightarrow> list_all (\<lambda>r. \<not> isl r) oks \<Longrightarrow>
      server_run grpc_addrs (oks @ Inl e # ended) = Inl (Err (Other e))"
    and "server_run [] ended = Inr ()"
    and "grpc_addrs \<noteq> [] \<Longrightarrow> server_run grpc_addrs [] = Inl Diverge"
  by (simp_all add: server_run_def try_join_all_fails neq_Nil_conv) auto

section \<open>Witnessing\<close>

text \<open>
  A failure of the inner call as the task of the request ends: with a status, or by a panic.
\<close>

datatype grpc_failure = Status status | TaskPanic string | TaskDiverges

fun grpc_failure_of :: "failure \<Rightarrow> grpc_failure" where
  "grpc_failure_of (Err e) = Status (aborted (error_to_string e))"
| "grpc_failure_of (Panic m) = TaskPanic m"
| "grpc_failure_of Diverge = TaskDiverges"

definition grpc_witness_event ::
    "('w \<Rightarrow> h256 \<Rightarrow> unit vs_result \<times> 'w) \<Rightarrow> 'w \<Rightarrow> bytes \<Rightarrow> (grpc_failure + unit) \<times> 'w" where
  "grpc_witness_event witness event_witnesser event_id_bytes =
     (case (if length event_id_bytes = 32 then h256_from_slice event_id_bytes else None) of
        None \<Rightarrow> (Inl (Status (invalid_argument ''invalid event_id length (expected 32 bytes)'')), event_witnesser)
      | Some event_id \<Rightarrow>
          (case witness event_witnesser event_id of
             (r, event_witnesser') \<Rightarrow> (map_sum grpc_failure_of id r, event_witnesser')))"

section \<open>The stream of validated events\<close>

definition stream_start :: "u32 vs_result \<Rightarrow> validated_events_request \<Rightarrow> u32" where
  "stream_start latest request =
     (if from_block request = 0 \<and> from_latest request
      then (case latest of Inr n \<Rightarrow> n | Inl _ \<Rightarrow> 0)
      else from_block request)"

text \<open>
  One step of \<open>unfold\<close>: the item for \<open>block_num\<close> and the next state.
\<close>

definition stream_step ::
    "(u32 \<Rightarrow> h256 list vs_result option) \<Rightarrow> u32 \<Rightarrow> ((grpc_failure + validated_events_response) \<times> u32) option" where
  "stream_step finalized_events block_num =
     (let next = block_num + 1
      in (case finalized_events block_num of
            None \<Rightarrow> None
          | Some (Inl f) \<Rightarrow> Some (Inl (grpc_failure_of f), next)
          | Some (Inr events) \<Rightarrow>
              Some (Inr \<lparr>next_block = next, vr_events = map as_bytes events\<rparr>, next)))"

text \<open>
  The first \<open>n\<close> items of the stream, or those up to the first the validator still waits for.
\<close>

fun stream_take ::
    "(u32 \<Rightarrow> h256 list vs_result option) \<Rightarrow> nat \<Rightarrow> u32 \<Rightarrow> (grpc_failure + validated_events_response) list" where
  "stream_take finalized_events 0 block_num = []"
| "stream_take finalized_events (Suc n) block_num =
     (case stream_step finalized_events block_num of
        None \<Rightarrow> []
      | Some (item, next) \<Rightarrow> item # stream_take finalized_events n next)"

definition validated_events ::
    "(u32 \<Rightarrow> h256 list vs_result option) \<Rightarrow> u32 vs_result \<Rightarrow> validated_events_request \<Rightarrow> nat
      \<Rightarrow> (grpc_failure + validated_events_response) list" where
  "validated_events finalized_events latest request n =
     stream_take finalized_events n (stream_start latest request)"

section \<open>Lemmas\<close>

lemma stream_step_Inr:
  assumes "finalized_events b = Some (Inr es)"
  shows "stream_step finalized_events b =
    Some (Inr \<lparr>next_block = b + 1, vr_events = map as_bytes es\<rparr>, b + 1)"
  using assms by (simp add: stream_step_def Let_def)

lemma stream_start_latest: "stream_start (Inr n) \<lparr>from_block = 0, from_latest = True\<rparr> = n"
  by (simp add: stream_start_def)

text \<open>
  Where the validator answers for all of the blocks, item \<open>i\<close> is the answer for block \<open>b + i\<close>.
\<close>

lemma stream_take_answers:
  assumes "\<And>i. i < n \<Longrightarrow> finalized_events (b + of_nat i) = Some (Inr (es i))"
  shows "stream_take finalized_events n b =
    map (\<lambda>i. Inr \<lparr>next_block = b + of_nat i + 1, vr_events = map as_bytes (es i)\<rparr>) [0..<n]"
  using assms
proof (induction n arbitrary: b es)
  case (Suc n)
  have "stream_take finalized_events n (b + 1) =
      map (\<lambda>i. Inr \<lparr>next_block = b + 1 + of_nat i + 1, vr_events = map as_bytes (es (Suc i))\<rparr>) [0..<n]"
    using Suc.prems [of "Suc _"] by (intro Suc.IH) (simp add: add.assoc)
  moreover have "finalized_events b = Some (Inr (es 0))" using Suc.prems [of 0] by simp
  ultimately show ?case
    by (simp add: stream_step_Inr upt_conv_Cons del: upt_Suc)
      (simp add: map_Suc_upt [symmetric] algebra_simps del: upt_Suc)
qed simp

text \<open>
  A client that reconnects at the \<open>next_block\<close> of the last item it got goes on where it was.
\<close>

lemma stream_take_resume:
  assumes "\<And>i. i < m \<Longrightarrow> finalized_events (b + of_nat i) \<noteq> None"
  shows "stream_take finalized_events (m + n) b =
    stream_take finalized_events m b @ stream_take finalized_events n (b + of_nat m)"
  using assms
proof (induction m arbitrary: b)
  case (Suc m)
  obtain item where item: "stream_step finalized_events b = Some (item, b + 1)"
    using Suc.prems [of 0] by (cases "the (finalized_events b)") (auto simp: stream_step_def Let_def)
  have "stream_take finalized_events (m + n) (b + 1) =
      stream_take finalized_events m (b + 1) @ stream_take finalized_events n (b + 1 + of_nat m)"
    using Suc.prems [of "Suc _"] by (intro Suc.IH) (simp add: add.assoc)
  with item show ?case by (simp add: algebra_simps)
qed simp

end
