(* ===== verification/Block_Import.thy ===== *)
theory Block_Import
  imports Authorities
begin

text \<open>
  \<open>ValidatedStreamsBlockImport\<close> (\<open>src/consensus/src/block_import.rs\<close>): a block goes to the inner import
  only if every event in it has enough witnesses, unless the node is catching up. The inner import
  and the sync service are parameters. \<open>ImportPending\<close> is a call that waits for a sync service that has
  not been provided yet.
\<close>

datatype consensus_error = ClientImport string | OtherConsensusError string

datatype import_failure = ImportErr consensus_error | ImportPanic string | ImportPending

text \<open>
  The one-shot channel the sync service arrives through.
\<close>

datatype 'sync sync_slot = Waiting | Provided 'sync | SenderDropped

record 'ext block_import_params =
  bip_parent_hash :: h256
  bip_post_hash :: h256
  bip_body :: "'ext list option"

record ('i, 'r, 'ext) block_import_ops =
  parent_check_block :: "'i \<Rightarrow> h256 \<Rightarrow> (consensus_error + 'r) \<times> 'i"
  parent_import_block :: "'i \<Rightarrow> 'ext block_import_params \<Rightarrow> (consensus_error + 'r) \<times> 'i"

record ('i, 's, 'c, 'sync) block_import =
  parent_block_import :: 'i
  bi_event_proofs :: 's
  sync_service :: "'sync sync_slot"
  bi_block_state :: "'c block_state"

definition block_import_new :: "'i \<Rightarrow> 's \<Rightarrow> 'c block_state \<Rightarrow> ('i, 's, 'c, 'sync) block_import" where
  "block_import_new parent event_proofs block_state =
     \<lparr>parent_block_import = parent, bi_event_proofs = event_proofs, sync_service = Waiting,
      bi_block_state = block_state\<rparr>"

text \<open>
  The closure \<open>new\<close> returns: it sends the sync service, once.
\<close>

definition provide_sync_service ::
    "'sync \<Rightarrow> ('i, 's, 'c, 'sync) block_import \<Rightarrow> ('i, 's, 'c, 'sync) block_import" where
  "provide_sync_service sync self = self\<lparr>sync_service := Provided sync\<rparr>"

text \<open>
  The closure owns the sending half of the channel: when it is dropped without having been called, nothing
  will ever arrive.
\<close>

definition drop_sync_sender :: "('i, 's, 'c, 'sync) block_import \<Rightarrow> ('i, 's, 'c, 'sync) block_import" where
  "drop_sync_sender self =
     self\<lparr>sync_service := (case sync_service self of Provided sync \<Rightarrow> Provided sync | _ \<Rightarrow> SenderDropped)\<rparr>"

text \<open>
  \<open>clone\<close>: the clone refers to the same proofs, cache and channel, and so does the clone of the inner import
  to its state. One value stands for all clones.
\<close>

definition block_import_clone :: "('i, 's, 'c, 'sync) block_import \<Rightarrow> ('i, 's, 'c, 'sync) block_import" where
  "block_import_clone self =
     \<lparr>parent_block_import = parent_block_import self, bi_event_proofs = bi_event_proofs self,
      sync_service = sync_service self, bi_block_state = bi_block_state self\<rparr>"

definition lift_parent ::
    "('i, 's, 'c, 'sync) block_import \<Rightarrow> (consensus_error + 'r) \<times> 'i
      \<Rightarrow> (import_failure + 'r) \<times> ('i, 's, 'c, 'sync) block_import" where
  "lift_parent self outcome =
     (map_sum ImportErr id (fst outcome), self\<lparr>parent_block_import := snd outcome\<rparr>)"

definition check_block ::
    "('i, 'r, 'ext) block_import_ops \<Rightarrow> ('i, 's, 'c, 'sync) block_import \<Rightarrow> h256
      \<Rightarrow> (import_failure + 'r) \<times> ('i, 's, 'c, 'sync) block_import" where
  "check_block ops self block = lift_parent self (parent_check_block ops (parent_block_import self) block)"

text \<open>
  The error of a failed check becomes the text of a \<open>ClientImport\<close> error; a panic goes on.
\<close>

fun import_failure_of :: "failure \<Rightarrow> import_failure" where
  "import_failure_of (Err e) = ImportErr (ClientImport (error_to_string e))"
| "import_failure_of (Panic m) = ImportPanic m"
| "import_failure_of Diverge = ImportPending"

definition import_block ::
    "('i, 'r, 'ext) block_import_ops \<Rightarrow> 'c lru_ops \<Rightarrow> ('aid \<Rightarrow> crypto_pair)
      \<Rightarrow> ('s \<Rightarrow> h256 \<Rightarrow> crypto_pair list \<Rightarrow> u16 vs_result) \<Rightarrow> ('sync \<Rightarrow> bool) \<Rightarrow> ('aid, 'ext) client
      \<Rightarrow> ('i, 's, 'c, 'sync) block_import \<Rightarrow> 'ext block_import_params
      \<Rightarrow> (import_failure + 'r) \<times> ('i, 's, 'c, 'sync) block_import" where
  "import_block ops lru from_id count is_major_syncing client self block =
     (case sync_service self of
        Waiting \<Rightarrow> (Inl ImportPending, self)
      | SenderDropped \<Rightarrow> (Inl (ImportPanic ''called `Result::unwrap()` on an `Err` value: RecvError(())''), self)
      | Provided sync \<Rightarrow>
          if is_major_syncing sync
          then lift_parent self (parent_import_block ops (parent_block_import self) block)
          else
            (case bip_body block of
               None \<Rightarrow> lift_parent self (parent_import_block ops (parent_block_import self) block)
             | Some block_extrinsics \<Rightarrow>
                 let parent_block_id = bip_parent_hash block;
                     extrinsic_ids = (case cl_get_extrinsic_ids client parent_block_id block_extrinsics of
                                        Inr ids \<Rightarrow> ids | Inl _ \<Rightarrow> [])
                 in (case verify_events_validity lru from_id count (bi_block_state self) client
                            parent_block_id (bi_event_proofs self) extrinsic_ids of
                       (Inr unwitnessed_ids, bs) \<Rightarrow>
                         let self' = self\<lparr>bi_block_state := bs\<rparr>
                         in if unwitnessed_ids \<noteq> []
                            then (Inl (ImportErr (ClientImport ''Block contains unwitnessed events'')), self')
                            else lift_parent self' (parent_import_block ops (parent_block_import self) block)
                     | (Inl f, bs) \<Rightarrow> (Inl (import_failure_of f), self\<lparr>bi_block_state := bs\<rparr>))))"

section \<open>Lemmas\<close>

text \<open>
  The events of a block as the import sees them.
\<close>

definition block_event_ids :: "('aid, 'ext) client \<Rightarrow> 'ext block_import_params \<Rightarrow> h256 list" where
  "block_event_ids client block =
     (case bip_body block of
        None \<Rightarrow> []
      | Some exts \<Rightarrow>
          (case cl_get_extrinsic_ids client (bip_parent_hash block) exts of Inr ids \<Rightarrow> ids | Inl _ \<Rightarrow> []))"

lemma collect_unprepared_Nil:
  "collect_unprepared count tgt ids = Inr [] \<longleftrightarrow>
     (\<forall>e \<in> set ids. \<exists>n. count e = Inr n \<and> tgt \<le> n)"
  unfolding collect_unprepared_Inr eq_commute [of "[]"] filter_empty_conv by (auto simp: not_less)

text \<open>
  \<open>import_block\<close> on a block with a body when the node is not catching up.
\<close>

lemma import_block_checked:
  assumes "sync_service self = Provided sync" and "\<not> is_major_syncing sync" and "bip_body block = Some exts"
    and "get_authorities_list lru from_id (bi_block_state self) client (bip_parent_hash block) = (g, bs)"
  shows "import_block ops lru from_id count is_major_syncing client self block =
    (case and_then g (\<lambda>al. collect_unprepared
            (\<lambda>e. count (bi_event_proofs self) e (authorities al)) (target al) (block_event_ids client block)) of
       Inl f \<Rightarrow> (Inl (import_failure_of f), self\<lparr>bi_block_state := bs\<rparr>)
     | Inr us \<Rightarrow>
         if us \<noteq> []
         then (Inl (ImportErr (ClientImport ''Block contains unwitnessed events'')), self\<lparr>bi_block_state := bs\<rparr>)
         else lift_parent (self\<lparr>bi_block_state := bs\<rparr>)
                (parent_import_block ops (parent_block_import self) block))"
  using assms
  unfolding import_block_def verify_events_validity_def block_event_ids_def Let_def
  by (cases g) simp_all

text \<open>
  Such a block reaches the inner import exactly if the authorities of its parent are known and every
  event has the target number of witnesses; otherwise the inner import is left as it was.
\<close>

lemma import_block_forwards:
  assumes "sync_service self = Provided sync" and "\<not> is_major_syncing sync" and "bip_body block = Some exts"
    and "get_authorities_list lru from_id (bi_block_state self) client (bip_parent_hash block) = (Inr al, bs)"
    and "\<forall>e \<in> set (block_event_ids client block).
      \<exists>n. count (bi_event_proofs self) e (authorities al) = Inr n \<and> target al \<le> n"
  shows "import_block ops lru from_id count is_major_syncing client self block =
    lift_parent (self\<lparr>bi_block_state := bs\<rparr>) (parent_import_block ops (parent_block_import self) block)"
proof -
  have "collect_unprepared (\<lambda>e. count (bi_event_proofs self) e (authorities al)) (target al)
      (block_event_ids client block) = Inr []"
    using assms(5) by (simp add: collect_unprepared_Nil)
  then show ?thesis by (simp add: import_block_checked [where is_major_syncing = is_major_syncing, OF assms(1-4)])
qed

lemma import_block_blocks:
  assumes "sync_service self = Provided sync" and "\<not> is_major_syncing sync" and "bip_body block = Some exts"
    and "import_block ops lru from_id count is_major_syncing client self block = (r, self')"
    and "r = Inr x \<or> parent_block_import self' \<noteq> parent_block_import self"
  obtains al bs where
    "get_authorities_list lru from_id (bi_block_state self) client (bip_parent_hash block) = (Inr al, bs)"
    and "\<And>e. e \<in> set (block_event_ids client block) \<Longrightarrow>
      \<exists>n. count (bi_event_proofs self) e (authorities al) = Inr n \<and> target al \<le> n"
proof -
  obtain g bs where g: "get_authorities_list lru from_id (bi_block_state self) client (bip_parent_hash block) = (g, bs)"
    by (cases "get_authorities_list lru from_id (bi_block_state self) client (bip_parent_hash block)")
  have "and_then g (\<lambda>al. collect_unprepared
      (\<lambda>e. count (bi_event_proofs self) e (authorities al)) (target al) (block_event_ids client block)) = Inr []"
    using assms(4,5) unfolding import_block_checked [where is_major_syncing = is_major_syncing, OF assms(1-3) g] by (auto split: sum.splits if_splits)
  then obtain al where "g = Inr al" and "collect_unprepared
      (\<lambda>e. count (bi_event_proofs self) e (authorities al)) (target al) (block_event_ids client block) = Inr []"
    by (auto simp: and_then_eq_Inr)
  then show ?thesis using that g unfolding collect_unprepared_Nil by blast
qed

text \<open>
  While the node is catching up, and for a block without a body, the block goes on unchecked.
\<close>

lemma import_block_unchecked:
  assumes "sync_service self = Provided sync" and "is_major_syncing sync \<or> bip_body block = None"
  shows "import_block ops lru from_id count is_major_syncing client self block =
    lift_parent self (parent_import_block ops (parent_block_import self) block)"
  using assms by (auto simp: import_block_def)

end
