(* ===== verification/Node.thy ===== *)
theory Node
  imports Server Block_Import Gossip
begin

text \<open>
  \<open>start\<close> (\<open>src/consensus/src/node.rs\<close>): the addresses the gossip listens on and the peers it dials,
  computed from the node's network configuration, and the services it starts with the state they share.
\<close>

section \<open>Addresses\<close>

record vs_network_configuration =
  grpc_addr :: "string list"
  gossip_port :: port_or_offset
  gossip_bootnodes :: "multiaddr list"

record network_configuration =
  listen_addresses :: "multiaddr list"
  boot_nodes :: "multiaddr list"

definition gossip_listen_addresses :: "vs_network_configuration \<Rightarrow> network_configuration \<Rightarrow> multiaddr list" where
  "gossip_listen_addresses vs net = map (adjust_multiaddr (gossip_port vs)) (listen_addresses net)"

text \<open>
  The closure on a boot node: adjust the port, then drop a final \<open>/p2p/..\<close> component.
\<close>

definition boot_node_address :: "port_or_offset \<Rightarrow> multiaddr \<Rightarrow> multiaddr" where
  "boot_node_address port addr0 =
     (let addr = adjust_multiaddr port addr0
      in (case rev addr of
            P2p _ # _ \<Rightarrow> butlast addr
          | x # _ \<Rightarrow> butlast addr @ [x]
          | [] \<Rightarrow> addr))"

definition gossip_peers :: "vs_network_configuration \<Rightarrow> network_configuration \<Rightarrow> multiaddr list" where
  "gossip_peers vs net =
     (if gossip_bootnodes vs \<noteq> [] then gossip_bootnodes vs
      else map (boot_node_address (gossip_port vs)) (boot_nodes net))"

text \<open>
  A boot node \<open>../tcp/p/p2p/X\<close>: \<open>adjust_multiaddr\<close> puts the \<open>/p2p/X\<close> in front of the port, so it is not
  the final component when the closure looks for it.
\<close>

lemma boot_node_address_p2p:
  "boot_node_address port (pre @ [Tcp p, P2p i]) = pre @ [P2p i, Tcp (adjust_port port p)]"
proof -
  have "adjust_multiaddr port (pre @ Tcp p # [P2p i]) = pre @ rev [P2p i] @ [adjust_protocol port (Tcp p)]"
    by (rule adjust_multiaddr_port) (simp_all add: is_port_def)
  then show ?thesis by (simp add: boot_node_address_def adjust_protocol_def butlast_append)
qed

lemma boot_node_address_plain:
  "boot_node_address port (pre @ [Tcp p]) = pre @ [Tcp (adjust_port port p)]"
proof -
  have "adjust_multiaddr port (pre @ Tcp p # []) = pre @ rev [] @ [adjust_protocol port (Tcp p)]"
    by (rule adjust_multiaddr_port) (simp_all add: is_port_def)
  then show ?thesis by (simp add: boot_node_address_def adjust_protocol_def butlast_append)
qed

section \<open>The services of a node\<close>

text \<open>
  A node: the gossip service, whose handler owns the event proofs, the transaction pool and the cache
  of authority lists, and the block import. The witnesser shares the channel and the cache, the block
  import the proofs and the cache.
\<close>

record ('s, 'c, 'pool, 'sw, 'i, 'sync) node =
  nd_service :: "('sw, ('s, 'c, 'pool) gossip_handler) gossip_service"
  nd_parent_import :: 'i
  nd_sync :: "'sync sync_slot"

record ('s, 'c, 'aid, 'ext, 'pool, 'sw, 'peer, 'i, 'r, 'sync) node_env =
  ne_handler :: "('s, 'c, 'aid, 'ext, 'pool) handler_env"
  ne_swarm :: "('sw, 'peer) swarm_ops"
  ne_keystore :: keystore
  ne_import :: "('i, 'r, 'ext) block_import_ops"
  ne_is_major_syncing :: "'sync \<Rightarrow> bool"

text \<open>
  The orders \<open>start\<close> puts into the channel before the service runs: one \<open>Listen\<close> for each address, then
  the peers to dial.
\<close>

definition start_channel :: "vs_network_configuration \<Rightarrow> network_configuration \<Rightarrow> channel" where
  "start_channel vs net =
     connect_to (foldl listen gossip_create (gossip_listen_addresses vs net)) (gossip_peers vs net)"

text \<open>
  The gossip task sends these orders before it runs the service, so nobody takes them meanwhile. Each
  send returns when the channel has \<open>room\<close> for the orders in it, which it has up to its buffer of 64;
  \<open>None\<close> is a task that waits for ever.
\<close>

definition GOSSIP_BUFFER :: nat where
  "GOSSIP_BUFFER = 64"

fun send_all :: "(nat \<Rightarrow> bool) \<Rightarrow> channel \<Rightarrow> gossip_order list \<Rightarrow> channel option" where
  "send_all room tx [] = Some tx"
| "send_all room tx (order # orders) =
     (let tx' = send_order tx order
      in if room (length (ch_orders tx')) then send_all room tx' orders else None)"

definition gossip_task :: "(nat \<Rightarrow> bool) \<Rightarrow> vs_network_configuration \<Rightarrow> network_configuration \<Rightarrow> channel option" where
  "gossip_task room vs net =
     send_all room gossip_create (map Listen (gossip_listen_addresses vs net) @ [DialPeers (gossip_peers vs net)])"

definition node_start ::
    "('s, 'c, 'aid, 'ext, 'pool, 'sw, 'peer, 'i, 'r, 'sync) node_env \<Rightarrow> vs_network_configuration
      \<Rightarrow> network_configuration \<Rightarrow> 'sw \<Rightarrow> 's \<Rightarrow> 'pool \<Rightarrow> 'c block_state \<Rightarrow> 'i \<Rightarrow> 'sync
      \<Rightarrow> ('s, 'c, 'pool, 'sw, 'i, 'sync) node" where
  "node_start ne vs net created_swarm event_proofs tx_pool block_state parent sync =
     (let bi = provide_sync_service sync (block_import_new parent event_proofs block_state)
      in \<lparr>nd_service = run_service (ne_swarm ne) created_swarm (start_channel vs net) get_topics
            (event_gossip_handler_new (bi_event_proofs bi) tx_pool (bi_block_state bi)),
          nd_parent_import = parent_block_import bi, nd_sync = sync_service bi\<rparr>)"

text \<open>
  The task of the gRPC server, which unwraps the result.
\<close>

definition grpc_task :: "vs_network_configuration \<Rightarrow> (string + unit) list \<Rightarrow> unit vs_result" where
  "grpc_task vs ended =
     (case server_run (grpc_addr vs) ended of
        Inl (Err e) \<Rightarrow> Inl (Panic (error_to_string e)) | r \<Rightarrow> r)"

definition set_block_state ::
    "'c block_state \<Rightarrow> ('sw, ('s, 'c, 'pool) gossip_handler) gossip_service
      \<Rightarrow> ('sw, ('s, 'c, 'pool) gossip_handler) gossip_service" where
  "set_block_state bs svc = svc\<lparr>gs_handler := (gs_handler svc)\<lparr>gh_block_state := bs\<rparr>\<rparr>"

text \<open>
  A client asks the gRPC server to witness an event.
\<close>

definition node_witness ::
    "('s, 'c, 'aid, 'ext, 'pool, 'sw, 'peer, 'i, 'r, 'sync) node_env \<Rightarrow> ('aid, 'ext) client
      \<Rightarrow> ('s, 'c, 'pool, 'sw, 'i, 'sync) node \<Rightarrow> bytes
      \<Rightarrow> (grpc_failure + unit) \<times> ('s, 'c, 'pool, 'sw, 'i, 'sync) node" where
  "node_witness ne client nd event_id_bytes =
     (let he = ne_handler ne; svc = nd_service nd
      in (case grpc_witness_event
                 (witness_event (he_lru he) (he_from_id he) (he_bincode he) (ne_keystore ne) client)
                 (event_witnesser_new (gs_channel svc) (gh_block_state (gs_handler svc)))
                 event_id_bytes of
            (r, ew) \<Rightarrow>
              (r, nd\<lparr>nd_service :=
                    set_block_state (ew_block_state ew) (svc\<lparr>gs_channel := ew_gossip ew\<rparr>)\<rparr>)))"

text \<open>
  A block arrives.
\<close>

definition node_import ::
    "('s, 'c, 'aid, 'ext, 'pool, 'sw, 'peer, 'i, 'r, 'sync) node_env \<Rightarrow> ('aid, 'ext) client
      \<Rightarrow> ('s, 'c, 'pool, 'sw, 'i, 'sync) node \<Rightarrow> 'ext block_import_params
      \<Rightarrow> (import_failure + 'r) \<times> ('s, 'c, 'pool, 'sw, 'i, 'sync) node" where
  "node_import ne client nd block =
     (let he = ne_handler ne; h = gs_handler (nd_service nd)
      in (case import_block (ne_import ne) (he_lru he) (he_from_id he) (ep_count (he_proofs he))
                 (ne_is_major_syncing ne) client
                 \<lparr>parent_block_import = nd_parent_import nd, bi_event_proofs = gh_event_proofs h,
                  sync_service = nd_sync nd, bi_block_state = gh_block_state h\<rparr>
                 block of
            (r, bi) \<Rightarrow>
              (r, nd\<lparr>nd_parent_import := parent_block_import bi,
                     nd_service := set_block_state (bi_block_state bi) (nd_service nd)\<rparr>)))"

text \<open>
  What can happen to a node, when the chain looks to it as \<open>seen\<close> says.
\<close>

inductive node_step ::
    "('s, 'c, 'aid, 'ext, 'pool, 'sw, 'peer, 'i, 'r, 'sync) node_env
      \<Rightarrow> (('aid, 'ext) client \<Rightarrow> bool)
      \<Rightarrow> ('s, 'c, 'pool, 'sw, 'i, 'sync) node \<Rightarrow> ('s, 'c, 'pool, 'sw, 'i, 'sync) node \<Rightarrow> bool"
  for ne seen where
  Witness: "seen client \<Longrightarrow> node_witness ne client nd event_id_bytes = (r, nd') \<Longrightarrow> node_step ne seen nd nd'"
| Gossip: "label_seen seen l \<Longrightarrow>
    gossip_step (ne_swarm ne) (gossip_handle (ne_handler ne)) (nd_service nd) l svc \<Longrightarrow>
    node_step ne seen nd (nd\<lparr>nd_service := svc\<rparr>)"
| Import: "seen client \<Longrightarrow> node_import ne client nd block = (r, nd') \<Longrightarrow> node_step ne seen nd nd'"

section \<open>What holds in every state of a node\<close>

text \<open>
  The handler's part of the invariant: its proofs are in the offchain storage, all of them correct
  signatures, and its cache holds the authorities of \<open>chain\<close>.
\<close>

definition offchain_handler_ok ::
    "'st offchain_storage \<Rightarrow> (h256 \<Rightarrow> 'aid list) \<Rightarrow> ('st, 'c, 'aid, 'ext, 'pool) handler_env
      \<Rightarrow> ('st, 'c, 'pool) gossip_handler \<Rightarrow> bool" where
  "offchain_handler_ok os chain he self \<longleftrightarrow>
     he_proofs he = offchain_ops os (he_bincode he) \<and> hash_iter_laws (he_iter he) \<and> lru_laws (he_lru he) \<and>
     handler_ok (he_sr25519 he) (offchain_proof os (he_bincode he)) (offchain_invar os (he_bincode he)) self \<and>
     cache_of (he_lru he) (he_from_id he) chain (gh_block_state self)"

interpretation gh: gossip_handler_trait "gossip_handle he" "view_of chain" "offchain_handler_ok os chain he"
  for he chain os
proof (unfold_locales, goal_cases)
  case (1 v h m r h')
  then have laws: "lru_laws (he_lru he)" "cache_of (he_lru he) (he_from_id he) chain (gh_block_state h)"
    by (simp_all add: offchain_handler_ok_def)
  have "cache_of (he_lru he) (he_from_id he) chain (gh_block_state h')"
    using 1(3) laws(2) handle_block_state [OF laws 1(1)]
    by (auto simp: gossip_handle_def split: sum.splits prod.splits failure.splits)
  then show ?case
    using 1(2,3) ocr.gossip_handle_ok(1,2) [of he os "he_bincode he" h v m r h']
    by (simp add: offchain_handler_ok_def offchain_ops_def)
qed

definition node_ok ::
    "'st offchain_storage \<Rightarrow> (h256 \<Rightarrow> 'aid list)
      \<Rightarrow> ('st, 'c, 'aid, 'ext, 'pool, 'sw, 'peer, 'i, 'r, 'sync) node_env
      \<Rightarrow> ('st, 'c, 'pool, 'sw, 'i, 'sync) node \<Rightarrow> bool" where
  "node_ok os chain ne nd \<longleftrightarrow> live (offchain_handler_ok os chain (ne_handler ne)) (nd_service nd)"

lemma channel_receiver [simp]:
  "ch_receiver (send_order tx order) = ch_receiver tx"
  by (simp add: send_order_def)

lemma node_ok_update:
  assumes "node_ok os chain ne nd"
    and "ch_receiver (gs_channel svc) = ch_receiver (gs_channel (nd_service nd))"
    and "gs_handler svc = gs_handler (nd_service nd)"
    and "cache_of (he_lru (ne_handler ne)) (he_from_id (ne_handler ne)) chain bs"
  shows "node_ok os chain ne (nd'\<lparr>nd_service := set_block_state bs svc\<rparr>)"
  using assms by (simp add: node_ok_def live_def set_block_state_def offchain_handler_ok_def handler_ok_def)

lemma witness_block_state:
  assumes "lru_laws lru" and "cache_of lru from_id chain (ew_block_state ew)" and "view_of chain client"
    and "grpc_witness_event (witness_event lru from_id bc ks client) ew b = (r, ew')"
  shows "cache_of lru from_id chain (ew_block_state ew')"
    and "ch_receiver (ew_gossip ew') = ch_receiver (ew_gossip ew)"
proof -
  obtain g bs where g: "get_authorities_list lru from_id (ew_block_state ew) client
      (finalized_hash (cl_info client)) = (g, bs)"
    by (cases "get_authorities_list lru from_id (ew_block_state ew) client (finalized_hash (cl_info client))")
  note al = get_authorities_list_of(2) [OF assms(1-3) g]
  show "cache_of lru from_id chain (ew_block_state ew')"
    and "ch_receiver (ew_gossip ew') = ch_receiver (ew_gossip ew)"
    using assms(2,4) g al
    by (auto simp: grpc_witness_event_def witness_event_def get_latest_authorities_list_def publish_def
        split: prod.splits sum.splits option.splits if_splits)
qed

lemma import_block_state:
  assumes "lru_laws lru" and "cache_of lru from_id chain (bi_block_state bi)" and "view_of chain client"
    and "import_block ops lru from_id count syncing client bi block = (r, bi')"
  shows "cache_of lru from_id chain (bi_block_state bi')"
proof -
  obtain g bs where g: "get_authorities_list lru from_id (bi_block_state bi) client (bip_parent_hash block) = (g, bs)"
    by (cases "get_authorities_list lru from_id (bi_block_state bi) client (bip_parent_hash block)")
  note al = get_authorities_list_of(2) [OF assms(1-3) g]
  show ?thesis
    using assms(2,4) g al
    by (auto simp: import_block_def verify_events_validity_def lift_parent_def Let_def
        split: prod.splits sum.splits option.splits if_splits sync_slot.splits)
qed

lemma node_step_ok:
  assumes "node_step ne (view_of chain) nd nd'" and "node_ok os chain ne nd"
  shows "node_ok os chain ne nd'"
  using assms
proof (induction rule: node_step.induct)
  case (Witness client nd event_id_bytes r nd')
  then have laws: "lru_laws (he_lru (ne_handler ne))" "cache_of (he_lru (ne_handler ne)) (he_from_id (ne_handler ne))
      chain (gh_block_state (gs_handler (nd_service nd)))"
    by (simp_all add: node_ok_def live_def offchain_handler_ok_def)
  obtain ew where ew: "grpc_witness_event (witness_event (he_lru (ne_handler ne)) (he_from_id (ne_handler ne))
        (he_bincode (ne_handler ne)) (ne_keystore ne) client)
      \<lparr>ew_gossip = gs_channel (nd_service nd), ew_block_state = gh_block_state (gs_handler (nd_service nd))\<rparr>
      event_id_bytes = (r, ew)"
    and nd': "nd' = nd\<lparr>nd_service := set_block_state (ew_block_state ew)
      ((nd_service nd)\<lparr>gs_channel := ew_gossip ew\<rparr>)\<rparr>"
    using Witness.hyps(2) by (auto simp: node_witness_def Let_def split: prod.splits)
  show ?case
    using witness_block_state [OF laws(1) _ Witness.hyps(1) ew] laws(2) nd' Witness.prems
    by (auto intro!: node_ok_update)
next
  case (Gossip l nd svc)
  then show ?case using gh.step_live(1) by (simp add: node_ok_def)
next
  case (Import client nd block r nd')
  then have laws: "lru_laws (he_lru (ne_handler ne))" "cache_of (he_lru (ne_handler ne)) (he_from_id (ne_handler ne))
      chain (gh_block_state (gs_handler (nd_service nd)))"
    by (simp_all add: node_ok_def live_def offchain_handler_ok_def)
  obtain bi where bi: "import_block (ne_import ne) (he_lru (ne_handler ne)) (he_from_id (ne_handler ne))
        (ep_count (he_proofs (ne_handler ne))) (ne_is_major_syncing ne) client
      \<lparr>parent_block_import = nd_parent_import nd, bi_event_proofs = gh_event_proofs (gs_handler (nd_service nd)),
       sync_service = nd_sync nd, bi_block_state = gh_block_state (gs_handler (nd_service nd))\<rparr> block = (r, bi)"
    and nd': "nd' = nd\<lparr>nd_parent_import := parent_block_import bi,
      nd_service := set_block_state (bi_block_state bi) (nd_service nd)\<rparr>"
    using Import.hyps(2) by (auto simp: node_import_def Let_def split: prod.splits)
  show ?case
    using import_block_state [OF laws(1) _ Import.hyps(1) bi] laws(2) nd' Import.prems
    by (auto intro!: node_ok_update)
qed

lemma node_steps_ok:
  assumes "(node_step ne (view_of chain))\<^sup>*\<^sup>* nd nd'" and "node_ok os chain ne nd"
  shows "node_ok os chain ne nd'"
  using assms by (induction rule: rtranclp_induct) (auto intro: node_step_ok)

lemma start_channel_orders:
  "start_channel vs net =
     \<lparr>ch_orders = map Listen (gossip_listen_addresses vs net) @ [DialPeers (gossip_peers vs net)],
      ch_receiver = True\<rparr>"
proof -
  have "foldl listen ch as = ch\<lparr>ch_orders := ch_orders ch @ map Listen as\<rparr>" if "ch_receiver ch" for ch as
    using that by (induction as arbitrary: ch) (simp_all add: listen_def send_order_def)
  then show ?thesis
    by (simp add: start_channel_def gossip_create_def connect_to_def send_order_def)
qed

text \<open>
  With up to 63 listen addresses the task gets to run the service.
\<close>

lemma gossip_task_runs:
  assumes "\<forall>n \<le> GOSSIP_BUFFER. room n" and "length (listen_addresses net) < GOSSIP_BUFFER"
  shows "gossip_task room vs net = Some (start_channel vs net)"
proof -
  have "send_all room tx os = Some (tx\<lparr>ch_orders := ch_orders tx @ os\<rparr>)"
    if "ch_receiver tx" and "length (ch_orders tx) + length os \<le> GOSSIP_BUFFER" for tx os
    using that assms(1) by (induction os arbitrary: tx) (simp_all add: send_order_def Let_def)
  then show ?thesis
    using assms(2) by (simp add: gossip_task_def start_channel_orders gossip_create_def gossip_listen_addresses_def)
qed

lemma node_start_ok:
  assumes "offchain_handler_ok os chain (ne_handler ne)
    \<lparr>gh_event_proofs = st, gh_tx_pool = pool, gh_block_state = bs\<rparr>"
  shows "node_ok os chain ne (node_start ne vs net sw st pool bs parent sync)"
  using assms
  by (simp add: node_ok_def live_def node_start_def block_import_new_def provide_sync_service_def
      run_service_def start_channel_orders)

section \<open>Imported blocks\<close>

text \<open>
  \<open>node_imports\<close>: the node, not catching up, hands the block to the inner import, which accepts it.
\<close>

definition node_imports ::
    "('s, 'c, 'aid, 'ext, 'pool, 'sw, 'peer, 'i, 'r, 'sync) node_env \<Rightarrow> ('aid, 'ext) client
      \<Rightarrow> ('s, 'c, 'pool, 'sw, 'i, 'sync) node \<Rightarrow> 'ext block_import_params \<Rightarrow> bool" where
  "node_imports ne client nd block \<longleftrightarrow>
     (case nd_sync nd of Provided sync \<Rightarrow> \<not> ne_is_major_syncing ne sync | _ \<Rightarrow> False) \<and>
     bip_body block \<noteq> None \<and>
     (case fst (node_import ne client nd block) of Inr _ \<Rightarrow> True | Inl _ \<Rightarrow> False)"

lemma node_imports_witnessed:
  assumes ok: "node_ok os chain ne nd" and view: "view_of chain client"
    and imp: "node_imports ne client nd block" and e: "e \<in> set (block_event_ids client block)"
    and al: "al = chain_authorities (he_from_id (ne_handler ne)) chain (bip_parent_hash block)"
    and d: "distinct (authorities al)" "length (authorities al) \<le> 98302"
  shows "\<exists>S. authority_quorum al S \<and> (\<forall>k \<in> S. \<exists>g. signed_by (he_sr25519 (ne_handler ne)) k e g)"
proof -
  let ?he = "ne_handler ne" and ?h = "gs_handler (nd_service nd)"
  let ?bc = "he_bincode ?he"
  let ?bi = "\<lparr>parent_block_import = nd_parent_import nd, bi_event_proofs = gh_event_proofs ?h,
    sync_service = nd_sync nd, bi_block_state = gh_block_state ?h\<rparr>"
  have h: "offchain_handler_ok os chain ?he ?h" using ok by (simp add: node_ok_def live_def)
  then have inv: "offchain_invar os ?bc (gh_event_proofs ?h)" and lru: "lru_laws (he_lru ?he)"
    and cache: "cache_of (he_lru ?he) (he_from_id ?he) chain (gh_block_state ?h)"
    by (simp_all add: offchain_handler_ok_def handler_ok_def)
  obtain sync exts where sync: "sync_service ?bi = Provided sync" "\<not> ne_is_major_syncing ne sync"
    and body: "bip_body block = Some exts"
    using imp by (auto simp: node_imports_def split: sync_slot.splits)
  obtain x bi' where "import_block (ne_import ne) (he_lru ?he) (he_from_id ?he) (ep_count (he_proofs ?he))
      (ne_is_major_syncing ne) client ?bi block = (Inr x, bi')"
    using imp by (auto simp: node_imports_def node_import_def Let_def split: prod.splits sum.splits)
  with sync body obtain al' bs where
    g: "get_authorities_list (he_lru ?he) (he_from_id ?he) (gh_block_state ?h) client (bip_parent_hash block) =
      (Inr al', bs)"
    and n: "\<exists>n. ep_count (he_proofs ?he) (gh_event_proofs ?h) e (authorities al') = Inr n \<and> target al' \<le> n"
    using import_block_blocks [where self = ?bi and is_major_syncing = "ne_is_major_syncing ne"] e
    by (metis block_import.select_convs(2,4))
  have "al' = al" using get_authorities_list_of(1) [OF lru _ view g] cache al by simp
  then obtain n where n: "offchain_count os ?bc (gh_event_proofs ?h) e (authorities al) = Inr n" "target al \<le> n"
    using n h by (auto simp: offchain_handler_ok_def offchain_ops_def)
  let ?S = "{k \<in> set (authorities al). offchain_proof os ?bc (gh_event_proofs ?h) e k \<noteq> None}"
  have "unat (target al) \<le> card ?S"
    using oc.count_le [OF inv n(1) d(1)] n(2) by (meson order_trans word_le_nat_alt)
  then have "authority_quorum al ?S" using d by (auto simp: authority_quorum_def)
  then show ?thesis
    using h by (intro exI [of _ ?S]) (auto simp: offchain_handler_ok_def handler_ok_def all_signed_def)
qed

section \<open>Witnessed events\<close>

text \<open>
  What the node promises to the client whose event it has witnessed: the next thing its gossip service
  does with its orders is to publish the event and to store its own proof of it.
\<close>

lemma node_witness_Ok:
  assumes "node_witness ne client nd (as_bytes e) = (Inr (), nd')"
  obtains al bs m where "get_latest_authorities_list (he_lru (ne_handler ne)) (he_from_id (ne_handler ne))
      (gh_block_state (gs_handler (nd_service nd))) client = (Inr al, bs)"
    and "sign_event (he_bincode (ne_handler ne)) (ne_keystore ne) al e = Inr m"
    and "nd_service nd' = set_block_state bs
      ((nd_service nd)\<lparr>gs_channel := publish (gs_channel (nd_service nd)) WITNESSED_EVENTS_TOPIC m\<rparr>)"
proof -
  obtain ew where ew: "witness_event (he_lru (ne_handler ne)) (he_from_id (ne_handler ne))
        (he_bincode (ne_handler ne)) (ne_keystore ne) client
      \<lparr>ew_gossip = gs_channel (nd_service nd), ew_block_state = gh_block_state (gs_handler (nd_service nd))\<rparr> e =
      (Inr (), ew)"
    and nd': "nd_service nd' = set_block_state (ew_block_state ew) ((nd_service nd)\<lparr>gs_channel := ew_gossip ew\<rparr>)"
    using assms
    by (auto simp: node_witness_def grpc_witness_event_def Let_def map_sum_eq_Inr split: prod.splits)
  show ?thesis using ew by (rule witness_event_Ok) (use nd' that in auto)
qed

lemma gossip_handle_stores:
  assumes h: "offchain_handler_ok os chain he h" and m: "de_event (he_bincode he) m = Inr w"
    and al: "get_latest_authorities_list (he_lru he) (he_from_id he) (gh_block_state h) client = (Inr al, bs)"
    and w: "verify_witnessed_event_origin (he_sr25519 he) al w = Inr w"
  shows "offchain_proof os (he_bincode he) (gh_event_proofs (snd (gossip_handle he client h m)))
    (we_event_id w) (we_pub_key w) = Some (we_signature w)"
proof -
  have ops: "he_proofs he = offchain_ops os (he_bincode he)"
    and inv: "offchain_invar os (he_bincode he) (gh_event_proofs h)"
    using h by (simp_all add: offchain_handler_ok_def handler_ok_def)
  obtain st where p: "\<And>e k. offchain_proof os (he_bincode he) st e k =
      (if e = we_event_id w \<and> k = we_pub_key w then Some (we_signature w)
       else if e = we_event_id w \<and> k \<notin> set (authorities al) then None
       else offchain_proof os (he_bincode he) (gh_event_proofs h) e k)"
    and run: "handle_witnessed_event he client h w =
      submit_if_target he client al (h\<lparr>gh_block_state := bs, gh_event_proofs := st\<rparr>) (we_event_id w)"
    by (rule offchain_handle_stores [OF ops inv al w]) blast
  have "gh_event_proofs (snd (handle_witnessed_event he client h w)) = st"
    unfolding run by (simp add: submit_if_target_keeps(1) [OF prod.collapse [symmetric]])
  moreover have "snd (gossip_handle he client h m) = snd (handle_witnessed_event he client h w)"
    using m by (auto simp: gossip_handle_def split: prod.split sum.split failure.split)
  ultimately show ?thesis using p by simp
qed

lemma node_witness_stored:
  assumes ok: "node_ok os chain ne nd" and view: "view_of chain client"
    and ks: "keystore_laws (he_sr25519 (ne_handler ne)) (ne_keystore ne)"
    and run: "node_witness ne client nd (as_bytes e) = (Inr (), nd')"
    and empty: "ch_orders (gs_channel (nd_service nd)) = []"
    and step: "gossip_step (ne_swarm ne) (gossip_handle (ne_handler ne)) (nd_service nd') (TookOrder client order) svc"
  shows "\<exists>k \<in> set (authorities (chain_authorities (he_from_id (ne_handler ne)) chain (finalized_hash (cl_info client)))).
    offchain_proof os (he_bincode (ne_handler ne)) (gh_event_proofs (gs_handler svc)) e k \<noteq> None"
proof -
  let ?he = "ne_handler ne" and ?h = "gs_handler (nd_service nd)"
  have h: "offchain_handler_ok os chain ?he ?h" and live: "ch_receiver (gs_channel (nd_service nd))"
    using ok by (simp_all add: node_ok_def live_def)
  then have lru: "lru_laws (he_lru ?he)" and cache: "cache_of (he_lru ?he) (he_from_id ?he) chain (gh_block_state ?h)"
    and bc: "bincode_laws (he_bincode ?he)"
    by (simp_all add: offchain_handler_ok_def handler_ok_def offchain_invar_def)
  obtain al bs m where g: "get_authorities_list (he_lru ?he) (he_from_id ?he) (gh_block_state ?h) client
      (finalized_hash (cl_info client)) = (Inr al, bs)"
    and m: "sign_event (he_bincode ?he) (ne_keystore ne) al e = Inr m"
    and nd': "nd_service nd' = set_block_state bs
      ((nd_service nd)\<lparr>gs_channel := publish (gs_channel (nd_service nd)) WITNESSED_EVENTS_TOPIC m\<rparr>)"
    by (rule node_witness_Ok [OF run, unfolded get_latest_authorities_list_def])
  note of = get_authorities_list_of [OF lru cache view g]
  obtain w where w: "de_event (he_bincode ?he) m = Inr w" "we_event_id w = e"
    and v: "verify_witnessed_event_origin (he_sr25519 ?he) al w = Inr w"
    by (rule sign_event_cases [OF ks bc m])
  obtain bs2 where again: "get_latest_authorities_list (he_lru ?he) (he_from_id ?he) bs client = (Inr al, bs2)"
    by (rule get_authorities_list_again [OF lru g]) (simp add: get_latest_authorities_list_def)
  let ?h' = "?h\<lparr>gh_block_state := bs\<rparr>"
  have h': "offchain_handler_ok os chain ?he ?h'"
    using h of(2) by (simp add: offchain_handler_ok_def handler_ok_def)
  have "gs_handler svc = snd (gossip_handle ?he client ?h' m)"
    using step nd' empty live
    by (auto elim!: gossip_stepE simp: set_block_state_def publish_def send_order_def after_handling_def
        handle_incoming_order_def Let_def split: prod.splits sum.splits)
  then show ?thesis
    using gossip_handle_stores [OF h' w(1) _ v, of client bs2] again w(2) v of(1) [of al]
    by (auto simp: verify_origin_Inr)
qed

end
