(* ===== verification/Runtime.thy ===== *)
theory Runtime
  imports Pallet
begin

text \<open>
  The parts of the runtime (\<open>src/runtime/src/lib.rs\<close>) the streams code depends on: the outer call type
  \<open>construct_runtime!\<close> builds, unchecked extrinsics, the two functions of \<open>ValidatedStreamsApi\<close>, the
  pallet's configuration and the constants of block time. The calls of the pallets that are not part
  of the repository are a type parameter. The conversion of a \<open>BTreeMap\<close> into the bounded map of the
  pallet is a parameter with \<open>bounded_laws\<close>: it succeeds exactly within the bound.
\<close>

section \<open>Constants\<close>

definition MILLISECS_PER_BLOCK :: u64 where
  "MILLISECS_PER_BLOCK = 6000"

definition SLOT_DURATION :: u64 where
  "SLOT_DURATION = MILLISECS_PER_BLOCK"

definition MINUTES :: u32 where
  "MINUTES = 60000 div ucast MILLISECS_PER_BLOCK"

definition HOURS :: u32 where
  "HOURS = MINUTES * 60"

definition DAYS :: u32 where
  "DAYS = HOURS * 24"

definition MINIMUM_PERIOD :: u64 where
  "MINIMUM_PERIOD = SLOT_DURATION div 2"

definition VS_MAX_AUTHORITIES :: u32 where
  "VS_MAX_AUTHORITIES = 32"

definition AURA_MAX_AUTHORITIES :: u32 where
  "AURA_MAX_AUTHORITIES = 32"

definition GRANDPA_MAX_AUTHORITIES :: u32 where
  "GRANDPA_MAX_AUTHORITIES = 32"

definition EXISTENTIAL_DEPOSIT :: u128 where
  "EXISTENTIAL_DEPOSIT = 500"

text \<open>
  The version of the runtime; the list of its APIs is made by \<open>impl_runtime_apis!\<close>.
\<close>

record 'apis runtime_version =
  spec_name :: string
  impl_name :: string
  authoring_version :: u32
  spec_version :: u32
  impl_version :: u32
  apis :: 'apis
  transaction_version :: u32
  state_version :: u8

definition VERSION :: "'apis \<Rightarrow> 'apis runtime_version" where
  "VERSION RUNTIME_API_VERSIONS =
     \<lparr>spec_name = ''node-template'', impl_name = ''node-template'', authoring_version = 1, spec_version = 100,
      impl_version = 1, apis = RUNTIME_API_VERSIONS, transaction_version = 1, state_version = 1\<rparr>"

section \<open>Calls and extrinsics\<close>

datatype 'o runtime_call =
    System 'o
  | Timestamp 'o
  | Grandpa 'o
  | Balances 'o
  | Sudo 'o
  | ValidatedStreams pallet_call

record ('sig, 'o) unchecked_extrinsic =
  ux_signature :: "'sig option"
  ux_function :: "'o runtime_call"

section \<open>ValidatedStreamsApi\<close>

fun get_extrinsic_ids :: "('sig, 'o) unchecked_extrinsic list \<Rightarrow> h256 list" where
  "get_extrinsic_ids [] = []"
| "get_extrinsic_ids (extrinsic # extrinsics) =
     (case ux_function extrinsic of
        ValidatedStreams (validate_event_call call_data proofs) \<Rightarrow> call_data # get_extrinsic_ids extrinsics
      | _ \<Rightarrow> get_extrinsic_ids extrinsics)"

definition bounded_laws :: "u32 \<Rightarrow> (btree_proofs \<Rightarrow> btree_proofs option) \<Rightarrow> bool" where
  "bounded_laws bound try_into \<longleftrightarrow>
     (\<forall>m. try_into m = (if hm_len m \<le> unat bound then Some m else None))"

definition create_unsigned_extrinsic ::
    "(btree_proofs \<Rightarrow> btree_proofs option) \<Rightarrow> h256 \<Rightarrow> btree_proofs option
      \<Rightarrow> ('sig, 'o) unchecked_extrinsic" where
  "create_unsigned_extrinsic try_into event_id event_proofs =
     (let proofs = Option.bind event_proofs try_into
      in \<lparr>ux_signature = None, ux_function = ValidatedStreams (validate_event_call event_id proofs)\<rparr>)"

section \<open>Lemmas\<close>

lemma get_extrinsic_ids_append [simp]:
  "get_extrinsic_ids (xs @ ys) = get_extrinsic_ids xs @ get_extrinsic_ids ys"
  by (induction xs) (auto split: runtime_call.splits pallet_call.splits)

lemma mem_get_extrinsic_ids:
  "e \<in> set (get_extrinsic_ids xs) \<longleftrightarrow>
     (\<exists>x \<in> set xs. \<exists>ps. ux_function x = ValidatedStreams (validate_event_call e ps))"
  by (induction xs) (auto split: runtime_call.splits pallet_call.splits)

lemma get_extrinsic_ids_create:
  "get_extrinsic_ids (map (\<lambda>(e, ps). create_unsigned_extrinsic try_into e ps) eps) = map fst eps"
  by (induction eps) (auto simp: create_unsigned_extrinsic_def Let_def)

lemma create_unsigned_extrinsic_proofs:
  assumes "bounded_laws bound try_into" and "hm_len ps \<le> unat bound"
  shows "ux_function (create_unsigned_extrinsic try_into e (Some ps)) =
    ValidatedStreams (validate_event_call e (Some ps))"
  using assms by (simp add: bounded_laws_def create_unsigned_extrinsic_def)

lemma create_unsigned_extrinsic_oversized:
  assumes "bounded_laws bound try_into" and "unat bound < hm_len ps"
  shows "ux_function (create_unsigned_extrinsic try_into e (Some ps)) =
    ValidatedStreams (validate_event_call e None)"
  using assms by (simp add: bounded_laws_def create_unsigned_extrinsic_def)

text \<open>
  With the bound of \<open>pallet_aura\<close> on the number of authorities the pallet's code stays within its types.
\<close>

lemma runtime_bounds:
  assumes "length ids \<le> unat AURA_MAX_AUTHORITIES" and "\<forall>i \<in> set ids. length (to_raw i) = 32"
    and "fset (fmdom ps) \<subseteq> set (map (\<lambda>i. Public (to_raw i)) ids)" and "bounded_laws VS_MAX_AUTHORITIES try_into"
  shows "length ids \<le> unat VS_MAX_AUTHORITIES"
    and "unat (as_u16 (length ids * 2 div 3 + 1)) = length ids * 2 div 3 + 1"
    and "length ids * 2 div 3 + 1 \<le> 22"
    and "ux_function (create_unsigned_extrinsic try_into e (Some ps)) = ValidatedStreams (validate_event_call e (Some ps))"
    and "fst (validate_event_onchain fs sr to_raw ids self e ps') \<noteq> Inl DispatchPanic"
proof -
  have n: "length ids \<le> 32" using assms(1) by (simp add: AURA_MAX_AUTHORITIES_def)
  then show "length ids \<le> unat VS_MAX_AUTHORITIES" by (simp add: VS_MAX_AUTHORITIES_def)
  show "length ids * 2 div 3 + 1 \<le> 22" using n by simp
  then show "unat (as_u16 (length ids * 2 div 3 + 1)) = length ids * 2 div 3 + 1" by simp
  have "hm_len ps \<le> length ids" using hm_len_le_auths [OF assms(3)] by simp
  then show "ux_function (create_unsigned_extrinsic try_into e (Some ps)) = ValidatedStreams (validate_event_call e (Some ps))"
    using n by (intro create_unsigned_extrinsic_proofs [OF assms(4)]) (simp add: VS_MAX_AUTHORITIES_def)
  show "fst (validate_event_onchain fs sr to_raw ids self e ps') \<noteq> Inl DispatchPanic"
    by (simp add: validate_event_onchain_def raw_authorities_map [OF assms(2)] Let_def split: option.split)
qed

end
