(* ===== verification/Instances.thy ===== *)
theory Instances
  imports Node Runtime
begin

text \<open>
  Reference instances of the parameters of the model, with proofs that they meet the laws the
  theorems assume: a prefix-free byte encoding for \<open>bincode\<close>, a function as key-value storage and as
  database, a cache that never evicts, and a signature scheme in which a key signs by naming itself.
  The examples after the theorems run on them.
\<close>

section \<open>A codec\<close>

fun enc_bytes :: "bytes \<Rightarrow> bytes" where
  "enc_bytes [] = [0]"
| "enc_bytes (x # xs) = 1 # x # enc_bytes xs"

fun dec_bytes :: "bytes \<Rightarrow> (bytes \<times> bytes) option" where
  "dec_bytes (t # r) =
     (if t = 0 then Some ([], r)
      else (case r of [] \<Rightarrow> None | x # r' \<Rightarrow> map_option (\<lambda>(b, s). (x # b, s)) (dec_bytes r')))"
| "dec_bytes [] = None"

lemma dec_enc_bytes [simp]: "dec_bytes (enc_bytes b @ r) = Some (b, r)"
  by (induction b) simp_all

definition enc_pair :: "crypto_pair \<Rightarrow> bytes" where
  "enc_pair k = enc_bytes (crypto_type_id k) @ enc_bytes (raw_public k)"

definition dec_pair :: "bytes \<Rightarrow> (crypto_pair \<times> bytes) option" where
  "dec_pair b =
     Option.bind (dec_bytes b) (\<lambda>(t, r). map_option (\<lambda>(p, s). (CryptoTypePublicPair t p, s)) (dec_bytes r))"

lemma dec_enc_pair [simp]: "dec_pair (enc_pair k @ r) = Some (k, r)"
  by (simp add: dec_pair_def enc_pair_def)

fun enc_pairs :: "crypto_pair list \<Rightarrow> bytes" where
  "enc_pairs [] = [0]"
| "enc_pairs (k # ks) = 1 # enc_pair k @ enc_pairs ks"

fun dec_pairs :: "nat \<Rightarrow> bytes \<Rightarrow> crypto_pair list option" where
  "dec_pairs 0 b = None"
| "dec_pairs (Suc n) b =
     (case b of
        [] \<Rightarrow> None
      | t # r \<Rightarrow>
          if t = 0 then (if r = [] then Some [] else None)
          else Option.bind (dec_pair r) (\<lambda>(k, s). map_option ((#) k) (dec_pairs n s)))"

lemma dec_enc_pairs: "length ks < n \<Longrightarrow> dec_pairs n (enc_pairs ks) = Some ks"
proof (induction ks arbitrary: n)
  case Nil
  then show ?case by (cases n) simp_all
next
  case (Cons k ks)
  then show ?case by (cases n) simp_all
qed

lemma length_enc_pairs: "length ks < length (enc_pairs ks)"
  by (induction ks) auto

definition whole :: "('a \<times> bytes) option \<Rightarrow> string + 'a" where
  "whole r = (case r of Some (x, []) \<Rightarrow> Inr x | _ \<Rightarrow> Inl ''malformed'')"

definition ref_bincode :: bincode where
  "ref_bincode =
     \<lparr>ser_pair = (\<lambda>k. Inr (enc_pair k)),
      de_pair = (\<lambda>b. whole (dec_pair b)),
      ser_pairs = (\<lambda>ks. Inr (enc_pairs ks)),
      de_pairs = (\<lambda>b. case dec_pairs (length b) b of None \<Rightarrow> Inl ''malformed'' | Some ks \<Rightarrow> Inr ks),
      ser_event = (\<lambda>w. Inr (enc_bytes (we_signature w) @ enc_pair (we_pub_key w) @ as_bytes (we_event_id w))),
      de_event = (\<lambda>b. whole (Option.bind (dec_bytes b) (\<lambda>(g, r). Option.bind (dec_pair r) (\<lambda>(k, s).
        map_option (\<lambda>e. (\<lparr>we_signature = g, we_pub_key = k, we_event_id = e\<rparr>, [])) (h256_from_slice s)))))\<rparr>"

lemma enc_pair_not_Nil: "enc_pair k \<noteq> []"
  by (cases "crypto_type_id k") (simp_all add: enc_pair_def)

lemma ref_bincode_laws: "bincode_laws ref_bincode"
proof -
  have "whole (dec_pair (enc_pair k)) = Inr k" for k
    using dec_enc_pair [of k "[]"] by (simp add: whole_def)
  then show ?thesis
    by (simp add: bincode_laws_def ref_bincode_def enc_pair_not_Nil dec_enc_pairs length_enc_pairs whole_def)
qed

section \<open>Storage, database, cache\<close>

definition ref_storage :: "(bytes \<times> bytes \<Rightarrow> bytes option) offchain_storage" where
  "ref_storage =
     \<lparr>os_set = (\<lambda>st p k v. st((p, k) \<mapsto> v)),
      os_get = (\<lambda>st p k. st (p, k)),
      os_remove = (\<lambda>st p k. st((p, k) := None)),
      os_compare_and_set = (\<lambda>st p k old v. if st (p, k) = old then (True, st((p, k) \<mapsto> v)) else (False, st))\<rparr>"

lemma ref_storage_laws: "storage_laws ref_storage"
  by (auto simp: storage_laws_def ref_storage_def)

lemma ref_storage_empty: "offchain_invar ref_storage ref_bincode (\<lambda>_. None)"
  using ref_storage_laws ref_bincode_laws
  by (auto simp: offchain_invar_def offchain_signers_def offchain_proof_def read_signers_def ref_storage_def
      split: sum.split)

text \<open>
  A database as a finite map; with \<open>failing\<close> every read is an error.
\<close>

definition ref_rocksdb :: "bool \<Rightarrow> (bytes, bytes) fmap rocksdb" where
  "ref_rocksdb failing =
     \<lparr>db_put = (\<lambda>db k v. (Inr (), fmupd k v db)),
      db_multi_get = (\<lambda>db ks. map (\<lambda>k. if failing then Inl ''IO error'' else Inr (fmlookup db k)) ks),
      db_prefix_iterator = (\<lambda>db p. map Inr (filter (\<lambda>(k, v). take (length p) k = p) (sorted_list_of_fmap db))),
      db_delete = (\<lambda>db k. (Inr (), fmdrop k db)),
      db_entries = fmlookup\<rparr>"

lemma ref_rocksdb_laws: "rocksdb_laws (ref_rocksdb failing)"
  by (auto simp: rocksdb_laws_def ref_rocksdb_def set_sorted_list_of_fmap split: if_splits)

lemma ref_rocksdb_invar:
  assumes "\<forall>key \<in> fset (fmdom db). \<exists>e k. proof_key ref_bincode e k = Inr key"
  shows "rocksdb_invar (ref_rocksdb failing) ref_bincode db"
  using assms ref_rocksdb_laws [of failing] ref_bincode_laws
  by (auto simp: rocksdb_invar_def ref_rocksdb_def fset_fmdom)

definition ref_lru :: "(h256 \<Rightarrow> authorities_list option) lru_ops" where
  "ref_lru =
     \<lparr>lru_get = (\<lambda>c k. (c k, c)), lru_put = (\<lambda>c k v. c(k \<mapsto> v)), lru_entries = (\<lambda>c. c)\<rparr>"

lemma ref_lru_laws: "lru_laws ref_lru"
  by (auto simp: lru_laws_def ref_lru_def split: if_splits)

section \<open>Signatures\<close>

text \<open>
  An ideal signature scheme: \<open>has_signed p m\<close> says that the owner of \<open>p\<close> has signed \<open>m\<close>; the signature of \<open>m\<close> by
  \<open>p\<close> is the bytes of both, and nobody else can make it.
\<close>

definition ref_sr25519 :: "(bytes \<Rightarrow> bytes \<Rightarrow> bool) \<Rightarrow> sr25519" where
  "ref_sr25519 has_signed =
     \<lparr>public_from_slice = (\<lambda>b. if length b = 32 then Some (Public b) else None),
      signature_from_slice = (\<lambda>b. if length b = 64 then Some (Signature b) else None),
      sr_verify = (\<lambda>p m g. has_signed (public_bytes p) m \<and> signature_bytes g = public_bytes p @ m)\<rparr>"

definition ref_from_id :: "bytes \<Rightarrow> crypto_pair" where
  "ref_from_id b = CryptoTypePublicPair [115, 114, 50, 53] b"

lemma ref_from_id_inj [simp]: "ref_from_id a = ref_from_id b \<longleftrightarrow> a = b"
  and raw_ref_from_id [simp]: "raw_public (ref_from_id b) = b"
  by (simp_all add: ref_from_id_def)

lemma ref_signed_by:
  "signed_by (ref_sr25519 has_signed) k e g \<longleftrightarrow>
     length (raw_public k) = 32 \<and> g = raw_public k @ as_bytes e \<and> has_signed (raw_public k) (as_bytes e)"
  by (auto simp: signed_by_def ref_sr25519_def)

section \<open>Iterating a map\<close>

instantiation crypto_pair :: linorder
begin

definition less_eq_crypto_pair :: "crypto_pair \<Rightarrow> crypto_pair \<Rightarrow> bool" where
  "less_eq_crypto_pair a b \<longleftrightarrow>
     crypto_type_id a < crypto_type_id b \<or> crypto_type_id a = crypto_type_id b \<and> raw_public a \<le> raw_public b"

definition less_crypto_pair :: "crypto_pair \<Rightarrow> crypto_pair \<Rightarrow> bool" where
  "less_crypto_pair a b \<longleftrightarrow>
     crypto_type_id a < crypto_type_id b \<or> crypto_type_id a = crypto_type_id b \<and> raw_public a < raw_public b"

instance
  by standard (auto simp: less_eq_crypto_pair_def less_crypto_pair_def crypto_pair.expand)

end

definition ref_iter :: hash_iter where
  "ref_iter = sorted_list_of_fmap"

lemma ref_iter_laws: "hash_iter_laws ref_iter"
  using sorted_iter_laws unfolding hash_iter_laws_def storage_iter_laws_def ref_iter_def by blast

section \<open>A store with given proofs\<close>

definition ref_witnessed :: "h256 \<Rightarrow> bytes \<Rightarrow> witnessed_event" where
  "ref_witnessed e k = \<lparr>we_signature = k @ as_bytes e, we_pub_key = ref_from_id k, we_event_id = e\<rparr>"

fun ref_store :: "h256 \<Rightarrow> bytes list \<Rightarrow> bytes \<times> bytes \<Rightarrow> bytes option" where
  "ref_store e [] = (\<lambda>_. None)"
| "ref_store e (k # ks) = snd (offchain_add ref_storage ref_bincode [] (ref_store e ks) (ref_witnessed e k))"

lemma ref_store_invar: "offchain_invar ref_storage ref_bincode (ref_store e ks)"
  by (induction ks) (auto simp: ref_storage_empty intro: offchain_add_invar prod.collapse [symmetric])

lemma ref_store_proof:
  "offchain_proof ref_storage ref_bincode (ref_store e ks) e' k =
     (if e' = e \<and> k \<in> ref_from_id ` set ks then Some (raw_public k @ as_bytes e) else None)"
proof (induction ks)
  case Nil
  then show ?case by (simp add: offchain_proof_def ref_storage_def split: sum.split)
next
  case (Cons a ks)
  let ?w = "ref_witnessed e a"
  obtain st' where "offchain_add ref_storage ref_bincode [] (ref_store e ks) ?w = (Inr (), st')"
    and "\<And>e' k. offchain_proof ref_storage ref_bincode st' e' k =
      (if e' = we_event_id ?w \<and> k = we_pub_key ?w then Some (we_signature ?w)
       else offchain_proof ref_storage ref_bincode (ref_store e ks) e' k)"
    by (rule offchain_add_alone [OF ref_store_invar]) blast
  then show ?case using Cons by (auto simp: ref_witnessed_def)
qed

declare ref_store.simps [simp del]

text \<open>
  The members of a concrete list that satisfy a predicate, counted.
\<close>

lemma card_members:
  assumes "distinct xs"
  shows "card {x. x \<in> set xs \<and> P x} = length (filter P xs)"
  using filter_length_card [OF assms, of P] by simp

section \<open>A chain, a pool, a network\<close>

text \<open>
  The calls of the other pallets: one that holds another call, as those of \<open>pallet_sudo\<close> do, and the rest.
  A signature is the account that signed.
\<close>

datatype ref_call = OtherCall | SudoCall "ref_call runtime_call"

type_synonym ref_extrinsic = "(bytes, ref_call) unchecked_extrinsic"

definition ref_try_into :: "btree_proofs \<Rightarrow> btree_proofs option" where
  "ref_try_into m = (if hm_len m \<le> 32 then Some m else None)"

lemma ref_try_into_laws: "bounded_laws VS_MAX_AUTHORITIES ref_try_into"
  by (simp add: bounded_laws_def ref_try_into_def VS_MAX_AUTHORITIES_def)

text \<open>
  A chain without forks: block \<open>n\<close> has the hash \<open>nn..n\<close>, the blocks up to \<open>fin\<close> are finalized and \<open>best\<close> is
  the last one. The runtime calls are those of \<open>Runtime\<close>.
\<close>

definition ref_client ::
    "(h256 \<Rightarrow> bytes list) \<Rightarrow> (h256 \<Rightarrow> ref_extrinsic list) \<Rightarrow> u32 \<Rightarrow> u32 \<Rightarrow> (bytes, ref_extrinsic) client" where
  "ref_client chain bodies fin best =
     \<lparr>cl_info = \<lparr>finalized_hash = repeat_byte (ucast fin), finalized_number = fin,
        best_hash = repeat_byte (ucast best)\<rparr>,
      cl_authorities = (\<lambda>h. Inr (chain h)),
      cl_get_extrinsic_ids = (\<lambda>h xs. Inr (get_extrinsic_ids xs)),
      cl_create_unsigned_extrinsic = (\<lambda>h e ps. Inr (create_unsigned_extrinsic ref_try_into e ps)),
      cl_block_hash = (\<lambda>n. Inr (if n \<le> best then Some (repeat_byte (ucast n)) else None)),
      cl_block_body = (\<lambda>h. Inr (Some (bodies h))),
      cl_lowest_common_ancestor = (\<lambda>a b. Inr (if hd (as_bytes a) \<le> hd (as_bytes b) then a else b))\<rparr>"

lemma ref_client_view: "view_of chain (ref_client chain bodies fin best)"
  by (simp add: view_of_def ref_client_def)

definition ref_pool :: "(ref_extrinsic, ref_extrinsic list) tx_pool_ops" where
  "ref_pool =
     \<lparr>submit_local = (\<lambda>pool h x. if x \<in> set pool then (Inl (IntoPoolError AlreadyImported), pool)
        else (Inr (), pool @ [x])),
      pool_error_to_string = (\<lambda>e. ''pool error'')\<rparr>"

definition ref_handler_env ::
    "(bytes \<Rightarrow> bytes \<Rightarrow> bool) \<Rightarrow> bool \<Rightarrow> (bytes \<times> bytes \<Rightarrow> bytes option, h256 \<Rightarrow> authorities_list option, bytes,
      ref_extrinsic, ref_extrinsic list) handler_env" where
  "ref_handler_env has_signed off =
     \<lparr>he_proofs = offchain_ops ref_storage ref_bincode, he_lru = ref_lru, he_from_id = ref_from_id,
      he_bincode = ref_bincode, he_sr25519 = ref_sr25519 has_signed, he_pool = ref_pool, he_iter = ref_iter,
      he_off_chain_proofs = off\<rparr>"

definition ref_block_state :: "(h256 \<Rightarrow> authorities_list option) block_state" where
  "ref_block_state = \<lparr>bs_cache = (\<lambda>_. None), bs_poisoned = False\<rparr>"

definition ref_handler ::
    "h256 \<Rightarrow> bytes list \<Rightarrow> (bytes \<times> bytes \<Rightarrow> bytes option, h256 \<Rightarrow> authorities_list option, ref_extrinsic list)
      gossip_handler" where
  "ref_handler e ks =
     \<lparr>gh_event_proofs = ref_store e ks, gh_tx_pool = [], gh_block_state = ref_block_state\<rparr>"

lemma ref_handler_ok:
  assumes "\<forall>k \<in> set ks. length k = 32 \<and> has_signed k (as_bytes e)"
  shows "offchain_handler_ok ref_storage chain (ref_handler_env has_signed off) (ref_handler e ks)"
  using assms ref_lru_laws
  by (auto simp: offchain_handler_ok_def ref_handler_env_def ref_handler_def ref_iter_laws handler_ok_def
      ref_store_invar all_signed_def ref_store_proof ref_signed_by cache_of_def ref_block_state_def ref_lru_def
      split: if_splits)

definition ref_keystore :: "(bytes \<Rightarrow> bytes \<Rightarrow> bool) \<Rightarrow> bytes \<Rightarrow> keystore" where
  "ref_keystore has_signed own =
     \<lparr>ks_supported_keys = (\<lambda>ks. Inr (filter (\<lambda>k. raw_public k = own) ks)),
      ks_sign_with = (\<lambda>k m. Inr (if raw_public k = own \<and> length own = 32 \<and> has_signed own m
        then Some (own @ m) else None))\<rparr>"

lemma ref_keystore_laws: "keystore_laws (ref_sr25519 has_signed) (ref_keystore has_signed own)"
  by (auto simp: keystore_laws_def ref_keystore_def ref_signed_by split: if_splits)

definition ref_swarm :: "(unit, unit) swarm_ops" where
  "ref_swarm =
     \<lparr>sw_subscribe = (\<lambda>sw t. (Inr True, sw)), sw_publish = (\<lambda>sw t m. (Inr (), sw)),
      sw_dial = (\<lambda>sw a. (Inr (), sw)), sw_listen_on = (\<lambda>sw a. (Inr (), sw)), kad_add_address = (\<lambda>sw p a. sw)\<rparr>"

text \<open>
  An inner block import that accepts every block and keeps a list of them.
\<close>

definition ref_import :: "(h256 list, unit, ref_extrinsic) block_import_ops" where
  "ref_import =
     \<lparr>parent_check_block = (\<lambda>i h. (Inr (), i)), parent_import_block = (\<lambda>i b. (Inr (), bip_post_hash b # i))\<rparr>"

definition ref_node_env where
  "ref_node_env has_signed own =
     \<lparr>ne_handler = ref_handler_env has_signed True, ne_swarm = ref_swarm, ne_keystore = ref_keystore has_signed own,
      ne_import = ref_import, ne_is_major_syncing = (\<lambda>b::bool. b)\<rparr>"

text \<open>
  A node that is not catching up and holds the proofs of \<open>ks\<close> for \<open>e\<close>.
\<close>

definition ref_node where
  "ref_node e ks =
     \<lparr>nd_service = \<lparr>gs_channel = gossip_create, gs_swarm = (), gs_handler = ref_handler e ks\<rparr>,
      nd_parent_import = ([] :: h256 list), nd_sync = Provided False\<rparr>"

lemma ref_node_ok:
  assumes "\<forall>k \<in> set ks. length k = 32 \<and> has_signed k (as_bytes e)"
  shows "node_ok ref_storage chain (ref_node_env has_signed own) (ref_node e ks)"
  using ref_handler_ok [where has_signed = has_signed and off = True, OF assms, of chain]
  by (simp add: node_ok_def live_def ref_node_env_def ref_node_def gossip_create_def)

definition ref_block :: "h256 \<Rightarrow> h256 list \<Rightarrow> ref_extrinsic block_import_params" where
  "ref_block parent es =
     \<lparr>bip_parent_hash = parent, bip_post_hash = repeat_byte 255,
      bip_body = Some (map (\<lambda>e. create_unsigned_extrinsic ref_try_into e None) es)\<rparr>"

lemma ref_block_parent [simp]: "bip_parent_hash (ref_block parent es) = parent"
  by (simp add: ref_block_def)

lemma ref_block_events [simp]: "block_event_ids (ref_client chain bodies fin best) (ref_block parent es) = es"
  using get_extrinsic_ids_create [of ref_try_into "map (\<lambda>e. (e, None)) es"]
  by (simp add: block_event_ids_def ref_client_def ref_block_def o_def)

section \<open>Four authorities\<close>

text \<open>
  The setting of the examples: four authorities, of which three make a quorum, and the events
  \<open>event_a\<close> and \<open>event_b\<close>.
\<close>

definition key_of :: "u8 \<Rightarrow> bytes" where
  "key_of b = replicate 32 b"

definition four_chain :: "h256 \<Rightarrow> bytes list" where
  "four_chain h = map key_of [1, 2, 3, 4]"

definition four_authorities :: authorities_list where
  "four_authorities = \<lparr>authorities = map (\<lambda>b. ref_from_id (key_of b)) [1, 2, 3, 4]\<rparr>"

definition four_client :: "(bytes, ref_extrinsic) client" where
  "four_client = ref_client four_chain (\<lambda>_. []) 1 1"

definition event_a :: h256 where
  "event_a = repeat_byte 10"

definition event_b :: h256 where
  "event_b = repeat_byte 11"

lemma key_of_simps [simp]: "length (key_of b) = 32" "key_of a = key_of b \<longleftrightarrow> a = b"
  by (simp_all add: key_of_def replicate_eq_replicate)

lemma event_a_b [simp]: "event_a \<noteq> event_b" "event_b \<noteq> event_a"
  by (simp_all add: event_a_def event_b_def)

lemma four_authorities_facts:
  "distinct (authorities four_authorities)" "length (authorities four_authorities) = 4"
  "unat (target four_authorities) = 3"
  "chain_authorities ref_from_id four_chain h = four_authorities"
  by (simp_all add: four_authorities_def unat_target chain_authorities_def four_chain_def)

lemma four_latest:
  obtains bs where "get_latest_authorities_list ref_lru ref_from_id ref_block_state four_client =
    (Inr four_authorities, bs)"
  by (simp add: get_latest_authorities_list_def get_authorities_list_def ref_block_state_def ref_lru_def
      four_client_def ref_client_def four_chain_def four_authorities_def Let_def)

lemma four_verify:
  assumes "b \<in> set [1, 2, 3, 4]" and "has_signed (key_of b) (as_bytes e)"
  shows "verify_witnessed_event_origin (ref_sr25519 has_signed) four_authorities (ref_witnessed e (key_of b)) =
    Inr (ref_witnessed e (key_of b))"
  using assms by (auto simp: verify_origin_Inr four_authorities_def ref_witnessed_def ref_signed_by)

lemma ref_witnessed_simps [simp]:
  "we_event_id (ref_witnessed e k) = e" "we_pub_key (ref_witnessed e k) = ref_from_id k"
  "we_signature (ref_witnessed e k) = k @ as_bytes e"
  by (simp_all add: ref_witnessed_def)

lemma ref_handler_env_simps [simp]:
  "he_proofs (ref_handler_env has_signed off) = offchain_ops ref_storage ref_bincode"
  "he_lru (ref_handler_env has_signed off) = ref_lru"
  "he_from_id (ref_handler_env has_signed off) = ref_from_id"
  "he_bincode (ref_handler_env has_signed off) = ref_bincode"
  "he_sr25519 (ref_handler_env has_signed off) = ref_sr25519 has_signed"
  "he_pool (ref_handler_env has_signed off) = ref_pool"
  "he_off_chain_proofs (ref_handler_env has_signed off) = off"
  by (simp_all add: ref_handler_env_def)

lemma ref_handler_simps [simp]:
  "gh_event_proofs (ref_handler e ks) = ref_store e ks"
  "gh_tx_pool (ref_handler e ks) = []"
  "gh_block_state (ref_handler e ks) = ref_block_state"
  by (simp_all add: ref_handler_def)

text \<open>
  A node with the proofs of three of the four authorities imports a block with the event.
\<close>

lemma three_proofs_imported:
  assumes "gs_handler (nd_service nd) = ref_handler event_a [key_of 1, key_of 2, key_of 4]"
    and "nd_sync nd = Provided False"
  shows "node_imports (ref_node_env has_signed own) four_client nd (ref_block (repeat_byte 1) [event_a])"
proof -
  have n: "length (filter (\<lambda>k. offchain_proof ref_storage ref_bincode (ref_store event_a [key_of 1, key_of 2, key_of 4])
      event_a k \<noteq> None) (authorities four_authorities)) = 3"
    by (simp add: ref_store_proof four_authorities_def)
  obtain bs where g: "get_authorities_list ref_lru ref_from_id ref_block_state four_client (repeat_byte 1) =
      (Inr four_authorities, bs)"
    by (simp add: get_authorities_list_def ref_block_state_def ref_lru_def
      four_client_def ref_client_def four_chain_def four_authorities_def Let_def)
  have ids: "cl_get_extrinsic_ids four_client h (map (\<lambda>e. create_unsigned_extrinsic ref_try_into e None) es) = Inr es" for h es
    using get_extrinsic_ids_create [of ref_try_into "map (\<lambda>e. (e, None)) es"]
    by (simp add: four_client_def ref_client_def o_def)
  have "\<not> as_u16 3 < target four_authorities"
    using four_authorities_facts(3) by (simp add: word_less_nat_alt)
  then show ?thesis
    using assms g n ids [of _ "[event_a]"]
    by (simp add: node_imports_def node_import_def import_block_def ref_node_env_def ref_block_def
        verify_events_validity_def offchain_ops_def offchain_count_eq [OF ref_bincode_laws] Let_def
        lift_parent_def ref_import_def)
qed

definition quiet_network :: network_configuration where
  "quiet_network = \<lparr>listen_addresses = [[OtherProtocol ''ip4'', Tcp 30333]], boot_nodes = []\<rparr>"

definition default_vs :: vs_network_configuration where
  "default_vs = \<lparr>grpc_addr = [''127.0.0.1:6000''], gossip_port = Offset 10, gossip_bootnodes = []\<rparr>"

end
