(* ===== verification/Offchain_Concurrent.thy ===== *)
theory Offchain_Concurrent
  imports Offchain_Proofs
begin

text \<open>
  \<open>add_event_proof\<close> of the offchain store while other threads add proofs. What a thread may rely on and
  what it guarantees is \<open>adds_only\<close>: proofs and listed signers stay, and new proofs are listed. Under
  any finite interference of that kind the compare-and-set loop ends and no update is lost, and an
  undisturbed \<open>add_event_proof\<close> is itself such an interference.
\<close>

definition adds_only :: "'st offchain_storage \<Rightarrow> bincode \<Rightarrow> ('st \<Rightarrow> 'st) \<Rightarrow> bool" where
  "adds_only os bc g \<longleftrightarrow>
     (\<forall>st e k. offchain_proof os bc st e k \<noteq> None \<longrightarrow> offchain_proof os bc (g st) e k \<noteq> None) \<and>
     (\<forall>st e ks. offchain_signers os bc st e = Inr ks \<longrightarrow>
        (\<exists>ks'. offchain_signers os bc (g st) e = Inr ks' \<and> set ks \<subseteq> set ks' \<and>
           (\<forall>k. offchain_proof os bc (g st) e k \<noteq> None \<longrightarrow>
              offchain_proof os bc st e k \<noteq> None \<or> k \<in> set ks')))"

text \<open>
  \<open>grown st st'\<close>: nothing that \<open>st\<close> holds or lists is missing in \<open>st'\<close>.
\<close>

definition grown :: "'st offchain_storage \<Rightarrow> bincode \<Rightarrow> 'st \<Rightarrow> 'st \<Rightarrow> bool" where
  "grown os bc st st' \<longleftrightarrow>
     (\<forall>e k. offchain_proof os bc st e k \<noteq> None \<longrightarrow> offchain_proof os bc st' e k \<noteq> None) \<and>
     (\<forall>e ks. offchain_signers os bc st e = Inr ks \<longrightarrow>
        (\<exists>ks'. offchain_signers os bc st' e = Inr ks' \<and> set ks \<subseteq> set ks'))"

lemma grown_trans: "grown os bc a b \<Longrightarrow> grown os bc b c \<Longrightarrow> grown os bc a c"
  unfolding grown_def by (meson subset_trans)

text \<open>
  The invariant with one proof in flight: the proof \<open>k0\<close> of \<open>e0\<close> need not be listed yet.
\<close>

definition listed_but :: "'st offchain_storage \<Rightarrow> bincode \<Rightarrow> h256 \<Rightarrow> crypto_pair \<Rightarrow> 'st \<Rightarrow> bool" where
  "listed_but os bc e0 k0 st \<longleftrightarrow>
     (\<forall>e. \<exists>ks. offchain_signers os bc st e = Inr ks \<and>
        (\<forall>k. offchain_proof os bc st e k \<noteq> None \<longrightarrow> k \<in> set ks \<or> e = e0 \<and> k = k0))"

lemma adds_only_grown:
  assumes "adds_only os bc g" and "listed_but os bc e k st"
  shows "grown os bc st (g st)" and "listed_but os bc e k (g st)"
proof -
  show "grown os bc st (g st)" using assms(1) unfolding adds_only_def grown_def by blast
  show "listed_but os bc e k (g st)"
    unfolding listed_but_def
  proof
    fix e'
    obtain ks where ks: "offchain_signers os bc st e' = Inr ks"
      and l: "\<forall>k'. offchain_proof os bc st e' k' \<noteq> None \<longrightarrow> k' \<in> set ks \<or> e' = e \<and> k' = k"
      using assms(2) unfolding listed_but_def by blast
    obtain ks' where "offchain_signers os bc (g st) e' = Inr ks'" and "set ks \<subseteq> set ks'"
      and "\<forall>k. offchain_proof os bc (g st) e' k \<noteq> None \<longrightarrow> offchain_proof os bc st e' k \<noteq> None \<or> k \<in> set ks'"
      using assms(1) ks unfolding adds_only_def by blast
    with l show "\<exists>ks'. offchain_signers os bc (g st) e' = Inr ks' \<and>
        (\<forall>k'. offchain_proof os bc (g st) e' k' \<noteq> None \<longrightarrow> k' \<in> set ks' \<or> e' = e \<and> k' = k)"
      by (intro exI [of _ ks']) blast
  qed
qed

text \<open>
  One iteration: the compare-and-set succeeds and the key is listed, or the loop goes on with what
  the other threads left.
\<close>

lemma add_signer_loop_iteration:
  assumes laws: "storage_laws os" "bincode_laws bc"
    and ks: "offchain_signers os bc st (we_event_id w) = Inr ks"
  obtains (success) st' where "add_signer_loop os bc env st w = Some (Inr (), st')"
    and "\<And>e k. offchain_proof os bc st' e k = offchain_proof os bc (interfere env st) e k"
    and "\<And>e. offchain_signers os bc st' e =
      (if e = we_event_id w then Inr (ks @ [we_pub_key w]) else offchain_signers os bc (interfere env st) e)"
    and "offchain_signers os bc (interfere env st) (we_event_id w) = Inr ks"
  | (retry) st' where "env \<noteq> []" and "add_signer_loop os bc env st w = add_signer_loop os bc (tl env) st' w"
    and "\<And>e k. offchain_proof os bc st' e k = offchain_proof os bc (interfere env st) e k"
    and "\<And>e. offchain_signers os bc st' e = offchain_signers os bc (interfere env st) e"
proof -
  define key where "key = as_bytes (we_event_id w)"
  define st1 where "st1 = interfere env st"
  define old where "old = os_get os st OFFCHAIN_PREFIX key"
  obtain nb where nb: "ser_pairs bc (ks @ [we_pub_key w]) = Inr nb" "de_pairs bc nb = Inr (ks @ [we_pub_key w])"
    by (rule bincode_pairsE [OF laws(2)])
  define st' where "st' = snd (os_compare_and_set os st1 OFFCHAIN_PREFIX key old nb)"
  have read: "read_signers bc old = Inr ks" using ks by (simp add: offchain_signers_def old_def key_def)
  have run: "add_signer_loop os bc env st w =
      (if os_get os st1 OFFCHAIN_PREFIX key = old then Some (Inr (), st')
       else add_signer_loop os bc (tl env) st' w)"
    using read nb
    by (subst add_signer_loop.simps)
      (simp add: old_def [symmetric] key_def [symmetric] st1_def [symmetric] st'_def [symmetric] Let_def
        storage_rules(3) [OF laws(1)])
  have get': "os_get os st' OFFCHAIN_PREFIX key' =
      (if os_get os st1 OFFCHAIN_PREFIX key = old \<and> key' = key then Some nb else os_get os st1 OFFCHAIN_PREFIX key')"
    for key'
    by (simp add: st'_def storage_rules(4) [OF laws(1)])
  show ?thesis
  proof (cases "os_get os st1 OFFCHAIN_PREFIX key = old")
    case True
    then have g: "os_get os st' OFFCHAIN_PREFIX key' =
        (if key' = as_bytes (we_event_id w) then Some nb else os_get os st1 OFFCHAIN_PREFIX key')" for key'
      using get' by (simp add: key_def)
    have "read_signers bc (Some nb) = Inr (ks @ [we_pub_key w])" by (simp add: read_signers_def nb)
    note upd = offchain_signers_upd [OF laws(2) this g]
    have "offchain_signers os bc st1 (we_event_id w) = Inr ks"
      using True read by (simp add: offchain_signers_def key_def)
    then show ?thesis using success True run upd by (simp add: st1_def)
  next
    case False
    then have "env \<noteq> []" by (auto simp: st1_def old_def interfere_def)
    moreover have "os_get os st' OFFCHAIN_PREFIX key' = os_get os st1 OFFCHAIN_PREFIX key'" for key'
      using False get' by simp
    then have "offchain_proof os bc st' e k = offchain_proof os bc (interfere env st) e k"
      and "offchain_signers os bc st' e = offchain_signers os bc (interfere env st) e" for e k
      by (simp_all add: st1_def offchain_proof_def offchain_signers_def split: sum.split)
    moreover have "add_signer_loop os bc env st w = add_signer_loop os bc (tl env) st' w"
      using False run by simp
    ultimately show ?thesis by (intro retry [of st'])
  qed
qed

lemma interfere_adds_only:
  assumes "\<forall>g \<in> set env. adds_only os bc g" and "listed_but os bc e k st"
  shows "grown os bc st (interfere env st)" and "listed_but os bc e k (interfere env st)"
proof -
  have "grown os bc st (interfere env st) \<and> listed_but os bc e k (interfere env st)"
  proof (cases env)
    case Nil
    then show ?thesis using assms(2) by (simp add: interfere_def grown_def)
  next
    case (Cons g gs)
    then show ?thesis using adds_only_grown [of os bc g e k st] assms by (simp add: interfere_def)
  qed
  then show "grown os bc st (interfere env st)" and "listed_but os bc e k (interfere env st)"
    by simp_all
qed

lemma listed_but_done:
  assumes "storage_laws os" "bincode_laws bc" and "listed_but os bc e0 k0 st"
    and "offchain_signers os bc st e0 = Inr ks"
    and "\<And>e k. offchain_proof os bc st' e k = offchain_proof os bc st e k"
    and "\<And>e. offchain_signers os bc st' e = (if e = e0 then Inr (ks @ [k0]) else offchain_signers os bc st e)"
  shows "offchain_invar os bc st'"
proof -
  have "\<exists>ks'. offchain_signers os bc st' e = Inr ks' \<and>
      (\<forall>k. offchain_proof os bc st' e k \<noteq> None \<longrightarrow> k \<in> set ks')" for e
  proof -
    obtain ke where "offchain_signers os bc st e = Inr ke"
      and "\<forall>k. offchain_proof os bc st e k \<noteq> None \<longrightarrow> k \<in> set ke \<or> e = e0 \<and> k = k0"
      using assms(3) unfolding listed_but_def by blast
    then show ?thesis using assms(4-6) by (cases "e = e0") auto
  qed
  then show ?thesis using assms(1,2) unfolding offchain_invar_def by blast
qed

lemma add_signer_loop_concurrent:
  assumes laws: "storage_laws os" "bincode_laws bc" and "\<forall>g \<in> set env. adds_only os bc g"
    and "listed_but os bc (we_event_id w) (we_pub_key w) st"
  shows "\<exists>st'. add_signer_loop os bc env st w = Some (Inr (), st') \<and> offchain_invar os bc st' \<and>
    grown os bc st st'"
  using assms(3,4)
proof (induction env arbitrary: st rule: length_induct)
  case (1 env)
  let ?st1 = "interfere env st"
  note st1 = interfere_adds_only [OF 1(2,3)]
  obtain ks where ks: "offchain_signers os bc st (we_event_id w) = Inr ks"
    using 1(3) unfolding listed_but_def by blast
  from laws ks show ?case
  proof (cases rule: add_signer_loop_iteration [where env = env])
    case (success st')
    have "offchain_invar os bc st'"
      by (rule listed_but_done [OF laws st1(2) success(4,2,3)])
    moreover have "grown os bc ?st1 st'" using success(2-4) by (auto simp: grown_def)
    ultimately show ?thesis using success(1) grown_trans [OF st1(1)] by blast
  next
    case (retry st')
    have IH: "length (tl env) < length env \<longrightarrow> (\<forall>g \<in> set (tl env). adds_only os bc g) \<longrightarrow>
        listed_but os bc (we_event_id w) (we_pub_key w) st' \<longrightarrow>
        (\<exists>st2. add_signer_loop os bc (tl env) st' w = Some (Inr (), st2) \<and> offchain_invar os bc st2 \<and>
          grown os bc st' st2)"
      using 1(1) by blast
    have "length (tl env) < length env" using retry(1) by (cases env) simp_all
    moreover have "\<forall>g \<in> set (tl env). adds_only os bc g" using 1(2) retry(1) by (cases env) simp_all
    moreover have "listed_but os bc (we_event_id w) (we_pub_key w) st'"
      using st1(2) retry(3,4) by (simp add: listed_but_def)
    ultimately obtain st2 where "add_signer_loop os bc (tl env) st' w = Some (Inr (), st2)"
      and "offchain_invar os bc st2" and g: "grown os bc st' st2"
      using IH by blast
    moreover have "grown os bc ?st1 st'" using retry(3,4) by (simp add: grown_def)
    then have "grown os bc st st2" by (meson g grown_trans st1(1))
    ultimately show ?thesis using retry(2) by auto
  qed
qed

text \<open>
  The whole operation.
\<close>

lemma offchain_add_concurrent:
  assumes inv: "offchain_invar os bc st" and env: "\<forall>g \<in> set env. adds_only os bc g"
  obtains st' where "offchain_add os bc env st w = (Inr (), st')" and "offchain_invar os bc st'"
    and "grown os bc st st'" and "offchain_proof os bc st' (we_event_id w) (we_pub_key w) \<noteq> None"
proof -
  have laws: "storage_laws os" "bincode_laws bc" using inv by (simp_all add: offchain_invar_def)
  obtain b where key: "proof_key bc (we_event_id w) (we_pub_key w) = Inr (as_bytes (we_event_id w) @ b)"
    by (rule proof_keyE [OF laws(2)])
  define st1 where "st1 = os_set os st OFFCHAIN_PREFIX (as_bytes (we_event_id w) @ b) (we_signature w)"
  have get1: "os_get os st1 OFFCHAIN_PREFIX key' =
      (if key' = as_bytes (we_event_id w) @ b then Some (we_signature w)
       else os_get os st OFFCHAIN_PREFIX key')" for key'
    by (simp add: st1_def storage_rules [OF laws(1)])
  note upd = offchain_proof_upd [OF laws(2) key get1]
  have listed: "listed_but os bc (we_event_id w) (we_pub_key w) st1"
    unfolding listed_but_def
  proof
    fix e
    obtain ke where "offchain_signers os bc st e = Inr ke"
      and "\<forall>k. offchain_proof os bc st e k \<noteq> None \<longrightarrow> k \<in> set ke"
      using inv unfolding offchain_invar_def by blast
    then show "\<exists>ks. offchain_signers os bc st1 e = Inr ks \<and> (\<forall>k. offchain_proof os bc st1 e k \<noteq> None \<longrightarrow>
        k \<in> set ks \<or> e = we_event_id w \<and> k = we_pub_key w)"
      using upd by auto
  qed
  obtain st' where r: "add_signer_loop os bc env st1 w = Some (Inr (), st')"
    and "offchain_invar os bc st'" and g: "grown os bc st1 st'"
    using add_signer_loop_concurrent [OF laws env listed] by blast
  moreover have "grown os bc st st1" using upd by (auto simp: grown_def)
  then have "grown os bc st st'" by (rule grown_trans [OF _ g])
  moreover have "offchain_proof os bc st' (we_event_id w) (we_pub_key w) \<noteq> None"
    using g upd(1) unfolding grown_def by simp
  moreover have "offchain_add os bc env st w = (Inr (), st')"
    using r key by (simp add: offchain_add_def st1_def [symmetric] Let_def)
  ultimately show ?thesis by (intro that [of st'])
qed

text \<open>
  An undisturbed addition by another thread is such an interference.
\<close>

lemma offchain_add_effect:
  assumes laws: "storage_laws os" "bincode_laws bc"
  obtains r st' where "offchain_add os bc [] st w = (r, st')"
    and "\<And>e k. offchain_proof os bc st' e k =
      (if e = we_event_id w \<and> k = we_pub_key w then Some (we_signature w) else offchain_proof os bc st e k)"
    and "\<And>e. offchain_signers os bc st' e =
      (if e = we_event_id w then map_sum id (\<lambda>ks. ks @ [we_pub_key w]) (offchain_signers os bc st e)
       else offchain_signers os bc st e)"
proof -
  obtain b where key: "proof_key bc (we_event_id w) (we_pub_key w) = Inr (as_bytes (we_event_id w) @ b)"
    by (rule proof_keyE [OF laws(2)])
  define st1 where "st1 = os_set os st OFFCHAIN_PREFIX (as_bytes (we_event_id w) @ b) (we_signature w)"
  have get1: "os_get os st1 OFFCHAIN_PREFIX key' =
      (if key' = as_bytes (we_event_id w) @ b then Some (we_signature w)
       else os_get os st OFFCHAIN_PREFIX key')" for key'
    by (simp add: st1_def storage_rules [OF laws(1)])
  note upd = offchain_proof_upd [OF laws(2) key get1]
  have add: "offchain_add os bc [] st w =
      (case add_signer_loop os bc [] st1 w of None \<Rightarrow> (Inl Diverge, st1) | Some r \<Rightarrow> r)"
    using key by (simp add: offchain_add_def st1_def [symmetric] Let_def)
  show ?thesis
  proof (cases "offchain_signers os bc st1 (we_event_id w)")
    case (Inl err)
    then have "add_signer_loop os bc [] st1 w = Some (Inl (Err (error_from_bincode err)), st1)"
      by (subst add_signer_loop.simps) (simp add: offchain_signers_def interfere_def Let_def)
    then show ?thesis using that [of _ st1] add upd Inl by simp
  next
    case (Inr ks)
    obtain st' where "add_signer_loop os bc [] st1 w = Some (Inr (), st')"
      and "\<And>e k. offchain_proof os bc st' e k = offchain_proof os bc st1 e k"
      and "\<And>e. offchain_signers os bc st' e =
        (if e = we_event_id w then Inr (ks @ [we_pub_key w]) else offchain_signers os bc st1 e)"
      by (rule add_signer_loop_alone [OF laws Inr]) blast
    then show ?thesis using that [of "Inr ()" st'] add upd Inr by simp
  qed
qed

lemma offchain_add_adds_only:
  assumes "storage_laws os" "bincode_laws bc"
  shows "adds_only os bc (\<lambda>st. snd (offchain_add os bc [] st w))"
proof -
  have "(\<forall>e k. offchain_proof os bc st e k \<noteq> None \<longrightarrow> offchain_proof os bc st' e k \<noteq> None) \<and>
     (\<forall>e ks. offchain_signers os bc st e = Inr ks \<longrightarrow>
        (\<exists>ks'. offchain_signers os bc st' e = Inr ks' \<and> set ks \<subseteq> set ks' \<and>
           (\<forall>k. offchain_proof os bc st' e k \<noteq> None \<longrightarrow> offchain_proof os bc st e k \<noteq> None \<or> k \<in> set ks')))"
    if "st' = snd (offchain_add os bc [] st w)" for st st'
    by (rule offchain_add_effect [OF assms, of st w]) (use that in \<open>auto split: if_splits\<close>)
  then show ?thesis unfolding adds_only_def by blast
qed

section \<open>Purging against other threads\<close>

text \<open>
  One iteration of purging: the proofs of stale keys are removed, then the compare-and-set succeeds, if
  the list is still the one that was read, or the loop goes on with what the other threads left.
\<close>

lemma purge_loop_iteration:
  assumes laws: "storage_laws os" "bincode_laws bc" and ks: "offchain_signers os bc st e = Inr ks"
  obtains (success) st1 st' where "purge_loop os bc env st e vs = Some (Inr (), st')"
    and "\<And>e' k. offchain_proof os bc st1 e' k =
      (if e' = e \<and> k \<in> set ks \<and> k \<notin> set vs then None else offchain_proof os bc st e' k)"
    and "\<And>e'. offchain_signers os bc st1 e' = offchain_signers os bc st e'"
    and "offchain_signers os bc (interfere env st1) e = Inr ks"
    and "\<And>e' k. offchain_proof os bc st' e' k = offchain_proof os bc (interfere env st1) e' k"
    and "\<And>e'. offchain_signers os bc st' e' =
      (if e' = e then Inr (filter (\<lambda>k. k \<in> set vs) ks) else offchain_signers os bc (interfere env st1) e')"
  | (retry) st1 st' where "env \<noteq> []" and "purge_loop os bc env st e vs = purge_loop os bc (tl env) st' e vs"
    and "\<And>e' k. offchain_proof os bc st1 e' k =
      (if e' = e \<and> k \<in> set ks \<and> k \<notin> set vs then None else offchain_proof os bc st e' k)"
    and "\<And>e'. offchain_signers os bc st1 e' = offchain_signers os bc st e'"
    and "\<And>e' k. offchain_proof os bc st' e' k = offchain_proof os bc (interfere env st1) e' k"
    and "\<And>e'. offchain_signers os bc st' e' = offchain_signers os bc (interfere env st1) e'"
proof -
  define old where "old = os_get os st OFFCHAIN_PREFIX (as_bytes e)"
  obtain st1 where r: "retain_signers os bc e vs st ks = (Inr (filter (\<lambda>k. k \<in> set vs) ks), st1)"
    and p: "\<And>e' k. offchain_proof os bc st1 e' k =
      (if e' = e \<and> k \<in> set ks \<and> k \<notin> set vs then None else offchain_proof os bc st e' k)"
    and l: "\<And>e'. os_get os st1 OFFCHAIN_PREFIX (as_bytes e') = os_get os st OFFCHAIN_PREFIX (as_bytes e')"
    by (rule retain_signers_eq [OF laws, of e vs st ks]) blast
  have lists: "offchain_signers os bc st1 e' = offchain_signers os bc st e'" for e'
    by (simp add: offchain_signers_def l)
  obtain nb where nb: "ser_pairs bc (filter (\<lambda>k. k \<in> set vs) ks) = Inr nb"
      "de_pairs bc nb = Inr (filter (\<lambda>k. k \<in> set vs) ks)"
    by (rule bincode_pairsE [OF laws(2)])
  define st2 where "st2 = interfere env st1"
  define st' where "st' = snd (os_compare_and_set os st2 OFFCHAIN_PREFIX (as_bytes e) old nb)"
  have read: "read_signers bc old = Inr ks" using ks by (simp add: offchain_signers_def old_def)
  have run: "purge_loop os bc env st e vs =
      (if os_get os st2 OFFCHAIN_PREFIX (as_bytes e) = old then Some (Inr (), st')
       else purge_loop os bc (tl env) st' e vs)"
    using read nb r
    by (subst purge_loop.simps)
      (simp add: old_def [symmetric] st2_def [symmetric] st'_def [symmetric] Let_def storage_rules(3) [OF laws(1)])
  have get': "os_get os st' OFFCHAIN_PREFIX key' =
      (if os_get os st2 OFFCHAIN_PREFIX (as_bytes e) = old \<and> key' = as_bytes e then Some nb
       else os_get os st2 OFFCHAIN_PREFIX key')" for key'
    by (simp add: st'_def storage_rules(4) [OF laws(1)])
  show ?thesis
  proof (cases "os_get os st2 OFFCHAIN_PREFIX (as_bytes e) = old")
    case True
    then have g: "os_get os st' OFFCHAIN_PREFIX key' =
        (if key' = as_bytes e then Some nb else os_get os st2 OFFCHAIN_PREFIX key')" for key'
      using get' by simp
    have "read_signers bc (Some nb) = Inr (filter (\<lambda>k. k \<in> set vs) ks)" by (simp add: read_signers_def nb)
    note upd = offchain_signers_upd [OF laws(2) this g]
    have "offchain_signers os bc st2 e = Inr ks" using True read by (simp add: offchain_signers_def)
    then show ?thesis using True run upd p lists by (intro success [of st' st1]) (simp_all add: st2_def)
  next
    case False
    then have "env \<noteq> []" using l by (auto simp: st2_def old_def interfere_def)
    moreover have "os_get os st' OFFCHAIN_PREFIX key' = os_get os st2 OFFCHAIN_PREFIX key'" for key'
      using False get' by simp
    then have "offchain_proof os bc st' e' k = offchain_proof os bc (interfere env st1) e' k"
      and "offchain_signers os bc st' e' = offchain_signers os bc (interfere env st1) e'" for e' k
      by (simp_all add: st2_def offchain_proof_def offchain_signers_def split: sum.split)
    moreover have "purge_loop os bc env st e vs = purge_loop os bc (tl env) st' e vs" using False run by simp
    ultimately show ?thesis using p lists by (intro retry [of st' st1])
  qed
qed

text \<open>
  Under any finite interference, even of threads that write anything anywhere, both loops end.
\<close>

lemma add_signer_loop_ends:
  assumes laws: "storage_laws os" "bincode_laws bc"
  shows "\<exists>r st'. add_signer_loop os bc env st w = Some (r, st') \<and> r \<noteq> Inl Diverge"
proof (induction "length env" arbitrary: env st rule: less_induct)
  case less
  show ?case
  proof (cases "offchain_signers os bc st (we_event_id w)")
    case (Inl m)
    then show ?thesis by (subst add_signer_loop.simps) (simp add: offchain_signers_def Let_def)
  next
    case (Inr ks)
    from laws Inr show ?thesis
    proof (cases rule: add_signer_loop_iteration [where env = env])
      case (retry st')
      then show ?thesis using less [of "tl env" st'] by simp
    qed simp
  qed
qed

lemma purge_loop_ends:
  assumes laws: "storage_laws os" "bincode_laws bc"
  shows "\<exists>r st'. purge_loop os bc env st e vs = Some (r, st') \<and> r \<noteq> Inl Diverge"
proof (induction "length env" arbitrary: env st rule: less_induct)
  case less
  show ?case
  proof (cases "offchain_signers os bc st e")
    case (Inl m)
    then show ?thesis by (subst purge_loop.simps) (simp add: offchain_signers_def Let_def)
  next
    case (Inr ks)
    from laws Inr show ?thesis
    proof (cases rule: purge_loop_iteration [where env = env and vs = vs])
      case (retry st1 st')
      then show ?thesis using less [of "tl env" st'] by simp
    qed simp
  qed
qed

text \<open>
  \<open>add_all\<close>: the additions of the other threads, one after the other.
\<close>

definition add_all :: "'st offchain_storage \<Rightarrow> bincode \<Rightarrow> 'st \<Rightarrow> witnessed_event list \<Rightarrow> 'st" where
  "add_all os bc st ws = foldl (\<lambda>st w. snd (offchain_add os bc [] st w)) st ws"

lemma offchain_add_alone_snd:
  assumes "offchain_invar os bc st"
  shows "offchain_invar os bc (snd (offchain_add os bc [] st w))"
    and "offchain_proof os bc (snd (offchain_add os bc [] st w)) e k =
      (if e = we_event_id w \<and> k = we_pub_key w then Some (we_signature w) else offchain_proof os bc st e k)"
  using offchain_add_invar [OF assms prod.collapse [symmetric]] offchain_add_alone [OF assms, of w]
  by (blast, metis snd_conv)

lemma add_all_invar: "offchain_invar os bc st \<Longrightarrow> offchain_invar os bc (add_all os bc st ws)"
  by (induction ws arbitrary: st) (simp_all add: add_all_def offchain_add_alone_snd(1))

lemma add_all_proof_cong:
  assumes "offchain_invar os bc a" and "offchain_invar os bc b" and "offchain_proof os bc a e k = offchain_proof os bc b e k"
  shows "offchain_proof os bc (add_all os bc a ws) e k = offchain_proof os bc (add_all os bc b ws) e k"
  using assms
proof (induction ws arbitrary: a b)
  case (Cons w ws)
  then show ?case
    using Cons.IH [OF offchain_add_alone_snd(1) [OF Cons.prems(1)] offchain_add_alone_snd(1) [OF Cons.prems(2)], of w w]
    by (simp add: add_all_def offchain_add_alone_snd(2))
qed (simp add: add_all_def)

text \<open>
  Without the proofs of stale keys, and seen through proofs and lists only, a store keeps its invariant.
\<close>

lemma invar_less:
  assumes "offchain_invar os bc st" and "\<And>e k. offchain_proof os bc st' e k \<noteq> None \<Longrightarrow> offchain_proof os bc st e k \<noteq> None"
    and "\<And>e. offchain_signers os bc st' e = offchain_signers os bc st e"
  shows "offchain_invar os bc st'"
  using assms unfolding offchain_invar_def by metis

text \<open>
  One iteration while another thread adds a proof: purging has happened after the addition, or the
  loop goes on in a store that differs from the one with the addition in stale proofs only.
\<close>

lemma purge_against_add:
  assumes inv: "offchain_invar os bc st"
  obtains (success) st' where
    "purge_loop os bc ((\<lambda>st. snd (offchain_add os bc [] st w)) # env) st e vs = Some (Inr (), st')"
    and "offchain_invar os bc st'"
    and "\<And>e' k. offchain_proof os bc st' e' k =
      (if e' = e \<and> k \<notin> set vs then None else offchain_proof os bc (snd (offchain_add os bc [] st w)) e' k)"
  | (retry) st' where
    "purge_loop os bc ((\<lambda>st. snd (offchain_add os bc [] st w)) # env) st e vs = purge_loop os bc env st' e vs"
    and "offchain_invar os bc st'"
    and "\<And>e' k. \<not> (e' = e \<and> k \<notin> set vs) \<Longrightarrow>
      offchain_proof os bc st' e' k = offchain_proof os bc (snd (offchain_add os bc [] st w)) e' k"
proof -
  let ?add = "\<lambda>st. snd (offchain_add os bc [] st w)"
  have laws: "storage_laws os" "bincode_laws bc" using inv by (simp_all add: offchain_invar_def)
  obtain ks where ks: "offchain_signers os bc st e = Inr ks" "\<And>k. offchain_proof os bc st e k \<noteq> None \<Longrightarrow> k \<in> set ks"
    using inv unfolding offchain_invar_def by blast
  from laws ks(1) show ?thesis
  proof (cases rule: purge_loop_iteration [where env = "?add # env" and vs = vs])
    case s: (success st1 st')
    have inv1: "offchain_invar os bc st1"
      by (rule invar_less [OF inv]) (use s(2,3) in \<open>auto split: if_splits\<close>)
    obtain ks' where "offchain_signers os bc st1 (we_event_id w) = Inr ks'"
      and "offchain_signers os bc (?add st1) (we_event_id w) = Inr (ks' @ [we_pub_key w])"
      by (rule offchain_add_alone [OF inv1, of w]) auto
    then have other: "we_event_id w \<noteq> e" using s(3,4) ks(1) by (auto simp: interfere_def)
    have proofs: "offchain_proof os bc st' e' k =
        (if e' = e \<and> k \<notin> set vs then None else offchain_proof os bc (?add st) e' k)" for e' k
      using s(2,5) other ks(2) [of k]
      by (cases "offchain_proof os bc st e k")
        (auto simp: interfere_def offchain_add_alone_snd(2) [OF inv1] offchain_add_alone_snd(2) [OF inv])
    have "\<exists>ks. offchain_signers os bc st' e' = Inr ks \<and> (\<forall>k. offchain_proof os bc st' e' k \<noteq> None \<longrightarrow> k \<in> set ks)" for e'
    proof -
      obtain ks' where "offchain_signers os bc (?add st1) e' = Inr ks'"
        and "\<And>k. offchain_proof os bc (?add st1) e' k \<noteq> None \<Longrightarrow> k \<in> set ks'"
        using offchain_add_alone_snd(1) [OF inv1, of w] unfolding offchain_invar_def by blast
      moreover have "k \<in> set vs" if "offchain_proof os bc st' e k \<noteq> None" for k
        using that proofs [of e k] by (metis (full_types))
      ultimately show ?thesis using s(4-6) by (cases "e' = e") (auto simp: interfere_def split: if_splits)
    qed
    then have "offchain_invar os bc st'" using laws by (simp add: offchain_invar_def)
    with s(1) proofs show ?thesis by (intro success)
  next
    case r: (retry st1 st')
    have inv1: "offchain_invar os bc st1"
      by (rule invar_less [OF inv]) (use r(3,4) in \<open>auto split: if_splits\<close>)
    have "offchain_invar os bc st'"
      by (rule invar_less [OF offchain_add_alone_snd(1) [OF inv1, of w]]) (use r(5,6) in \<open>simp_all add: interfere_def\<close>)
    then show ?thesis
      using r(2,3,5)
      by (intro retry [of st'])
        (auto simp: interfere_def offchain_add_alone_snd(2) [OF inv1] offchain_add_alone_snd(2) [OF inv])
  qed
qed

text \<open>
  Purging while other threads add proofs is as purging alone after some of the additions.
\<close>

lemma purge_loop_linearizes:
  assumes "offchain_invar os bc st"
  shows "\<exists>n st'. n \<le> length ws \<and>
    purge_loop os bc (map (\<lambda>w st. snd (offchain_add os bc [] st w)) ws) st e vs = Some (Inr (), st') \<and>
    offchain_invar os bc st' \<and>
    (\<forall>e' k. offchain_proof os bc st' e' k =
      (if e' = e \<and> k \<notin> set vs then None else offchain_proof os bc (add_all os bc st (take n ws)) e' k))"
  using assms
proof (induction ws arbitrary: st)
  case Nil
  obtain st' where run: "offchain_purge os bc [] st e vs = (Inr (), st')"
    and p: "\<And>e' k. offchain_proof os bc st' e' k =
      (if e' = e \<and> k \<notin> set vs then None else offchain_proof os bc st e' k)"
    by (rule offchain_purge_alone [OF Nil, of e vs]) blast
  have "purge_loop os bc [] st e vs = Some (Inr (), st')"
    using run by (auto simp: offchain_purge_def split: option.splits)
  with p offchain_purge_invar [OF Nil run] show ?case by (auto simp: add_all_def)
next
  case (Cons w ws)
  let ?add = "\<lambda>w st. snd (offchain_add os bc [] st w)"
  from Cons.prems show ?case
  proof (cases rule: purge_against_add [where w = w and env = "map ?add ws" and e = e and vs = vs])
    case (success st')
    then show ?thesis by (intro exI [of _ 1] exI [of _ st']) (simp add: add_all_def)
  next
    case (retry st')
    obtain n st'' where n: "n \<le> length ws" "purge_loop os bc (map ?add ws) st' e vs = Some (Inr (), st'')"
      "offchain_invar os bc st''"
      "\<And>e' k. offchain_proof os bc st'' e' k =
        (if e' = e \<and> k \<notin> set vs then None else offchain_proof os bc (add_all os bc st' (take n ws)) e' k)"
      using Cons.IH [OF retry(2)] by blast
    have "offchain_proof os bc (add_all os bc st' (take n ws)) e' k =
        offchain_proof os bc (add_all os bc (?add w st) (take n ws)) e' k" if "\<not> (e' = e \<and> k \<notin> set vs)" for e' k
      by (intro add_all_proof_cong retry(2,3) offchain_add_alone_snd(1) Cons.prems that)
    then have "offchain_proof os bc st'' e' k =
        (if e' = e \<and> k \<notin> set vs then None else offchain_proof os bc (add_all os bc st (take (Suc n) (w # ws))) e' k)" for e' k
      using n(4) by (simp add: add_all_def)
    with n(1-3) retry(1) show ?thesis by (intro exI [of _ "Suc n"] exI [of _ st'']) simp
  qed
qed

end
