(* ===== verification/Store_Properties.thy ===== *)
theory Store_Properties
  imports Instances Offchain_Concurrent
begin

text \<open>
  What the stores of event proofs guarantee to their users: the offchain store implements a map from
  events and keys to signatures, also while other threads add proofs; the in-memory store and it agree
  on which proofs exist; and where the stores differ from what their interface says.
\<close>

section \<open>Two stores side by side\<close>

datatype store_op = AddOp witnessed_event | PurgeOp h256 "crypto_pair list"

fun run_store ::
    "('s \<Rightarrow> witnessed_event \<Rightarrow> unit vs_result \<times> 's) \<Rightarrow> ('s \<Rightarrow> h256 \<Rightarrow> crypto_pair list \<Rightarrow> unit vs_result \<times> 's)
      \<Rightarrow> 's \<Rightarrow> store_op list \<Rightarrow> 's" where
  "run_store add purge s [] = s"
| "run_store add purge s (AddOp w # ops) = run_store add purge (snd (add s w)) ops"
| "run_store add purge s (PurgeOp e vs # ops) = run_store add purge (snd (purge s e vs)) ops"

definition same_proofs ::
    "'st offchain_storage \<Rightarrow> bincode \<Rightarrow> in_memory \<Rightarrow> 'st \<Rightarrow> bool" where
  "same_proofs os bc s st \<longleftrightarrow>
     (\<forall>e k. in_memory_proof s e k \<noteq> None \<longleftrightarrow> offchain_proof os bc st e k \<noteq> None)"

lemma same_proofs_add:
  assumes "offchain_invar os bc st" and "\<not> im_poisoned s" and "same_proofs os bc s st"
  shows "same_proofs os bc (snd (in_memory_add s w)) (snd (offchain_add os bc [] st w))"
    and "offchain_invar os bc (snd (offchain_add os bc [] st w))"
    and "\<not> im_poisoned (snd (in_memory_add s w))"
proof -
  obtain s' where s': "in_memory_add s w = (Inr (), s')" using assms(2) by (simp add: in_memory_defs)
  obtain st' where st': "offchain_add os bc [] st w = (Inr (), st')"
    and p: "\<And>e k. offchain_proof os bc st' e k = (if e = we_event_id w \<and> k = we_pub_key w
      then Some (we_signature w) else offchain_proof os bc st e k)"
    by (rule offchain_add_alone [OF assms(1)]) blast
  show "same_proofs os bc (snd (in_memory_add s w)) (snd (offchain_add os bc [] st w))"
    using assms(3) p in_memory_add_proof [OF s'] s' st' by (auto simp: same_proofs_def)
  show "offchain_invar os bc (snd (offchain_add os bc [] st w))"
    using offchain_add_invar [OF assms(1) st'] st' by simp
  show "\<not> im_poisoned (snd (in_memory_add s w))" using assms(2) by (simp add: in_memory_defs)
qed

lemma same_proofs_purge:
  assumes "offchain_invar os bc st" and "\<not> im_poisoned s" and "same_proofs os bc s st"
  shows "same_proofs os bc (snd (in_memory_purge s e vs)) (snd (offchain_purge os bc [] st e vs))"
    and "offchain_invar os bc (snd (offchain_purge os bc [] st e vs))"
    and "\<not> im_poisoned (snd (in_memory_purge s e vs))"
proof -
  obtain s' where s': "in_memory_purge s e vs = (Inr (), s')" using assms(2) by (simp add: in_memory_defs)
  obtain st' where st': "offchain_purge os bc [] st e vs = (Inr (), st')"
    and p: "\<And>e' k. offchain_proof os bc st' e' k =
      (if e' = e \<and> k \<notin> set vs then None else offchain_proof os bc st e' k)"
    by (rule offchain_purge_alone [OF assms(1)]) blast
  show "same_proofs os bc (snd (in_memory_purge s e vs)) (snd (offchain_purge os bc [] st e vs))"
    using assms(3) p in_memory_purge_proof [OF s'] s' st' by (auto simp: same_proofs_def)
  show "offchain_invar os bc (snd (offchain_purge os bc [] st e vs))"
    using offchain_purge_invar [OF assms(1) st'] st' by simp
  show "\<not> im_poisoned (snd (in_memory_purge s e vs))"
    using assms(2) by (simp add: in_memory_defs split: option.split)
qed

lemma run_store_same_proofs:
  assumes "offchain_invar os bc st \<and> \<not> im_poisoned s \<and> same_proofs os bc s st"
  shows "offchain_invar os bc (run_store (offchain_add os bc []) (offchain_purge os bc []) st ops) \<and>
    \<not> im_poisoned (run_store in_memory_add in_memory_purge s ops) \<and>
    same_proofs os bc (run_store in_memory_add in_memory_purge s ops)
      (run_store (offchain_add os bc []) (offchain_purge os bc []) st ops)"
  using assms
proof (induction ops arbitrary: s st)
  case (Cons x ops)
  show ?case
  proof (cases x)
    case (AddOp w)
    then show ?thesis
      using Cons.IH [of "snd (offchain_add os bc [] st w)" "snd (in_memory_add s w)"]
        same_proofs_add [of os bc st s w] Cons.prems by simp
  next
    case (PurgeOp e vs)
    then show ?thesis
      using Cons.IH [of "snd (offchain_purge os bc [] st e vs)" "snd (in_memory_purge s e vs)"]
        same_proofs_purge [of os bc st s e vs] Cons.prems by simp
  qed
qed simp

lemma in_memory_count_card:
  assumes "\<not> im_poisoned s" and "length vs < 65536"
  shows "in_memory_count s e vs = Inr (as_u16 (card {k \<in> set vs. in_memory_proof s e k \<noteq> None}))"
proof -
  obtain m where m: "in_memory_get s e vs = Inr m" using assms(1) by (simp add: in_memory_get_def)
  show ?thesis using im.get_len [OF _ m] m by (simp add: in_memory_count_get)
qed

section \<open>The properties\<close>

text \<open>
  C14. The offchain store implements a map from events and keys to signatures. From a storage in which
  the invariant holds, adding a proof succeeds and writes exactly that entry, purging an event
  succeeds and removes exactly the entries of that event whose key is not listed, and both keep the
  invariant. Reading the proofs of a list of keys gives exactly their entries, and counting them for a
  list without repetitions gives their number.
\<close>

theorem offchain_store_refines:
  assumes "offchain_invar os bc st" and "distinct vs" and "length vs < 65536"
  shows "(\<exists>st'. offchain_add os bc [] st w = (Inr (), st') \<and> offchain_invar os bc st' \<and>
      (\<forall>e k. offchain_proof os bc st' e k =
        (if e = we_event_id w \<and> k = we_pub_key w then Some (we_signature w) else offchain_proof os bc st e k)))
    \<and> (\<exists>st'. offchain_purge os bc [] st ev vs = (Inr (), st') \<and> offchain_invar os bc st' \<and>
      (\<forall>e k. offchain_proof os bc st' e k =
        (if e = ev \<and> k \<notin> set vs then None else offchain_proof os bc st e k)))
    \<and> (\<exists>m. offchain_get os bc st ev vs = Inr m \<and>
      (\<forall>k. fmlookup m k = (if k \<in> set vs then offchain_proof os bc st ev k else None)))
    \<and> offchain_count os bc st ev vs =
      Inr (as_u16 (card {k \<in> set vs. offchain_proof os bc st ev k \<noteq> None}))"
proof -
  have bc: "bincode_laws bc" using assms(1) by (simp add: offchain_invar_def)
  have "\<exists>st'. offchain_add os bc [] st w = (Inr (), st') \<and> offchain_invar os bc st' \<and>
      (\<forall>e k. offchain_proof os bc st' e k =
        (if e = we_event_id w \<and> k = we_pub_key w then Some (we_signature w) else offchain_proof os bc st e k))"
    by (rule offchain_add_alone [OF assms(1), of w]) (use offchain_add_invar [OF assms(1)] in blast)
  moreover have "\<exists>st'. offchain_purge os bc [] st ev vs = (Inr (), st') \<and> offchain_invar os bc st' \<and>
      (\<forall>e k. offchain_proof os bc st' e k =
        (if e = ev \<and> k \<notin> set vs then None else offchain_proof os bc st e k))"
    by (rule offchain_purge_alone [OF assms(1), of ev vs]) (use offchain_purge_invar [OF assms(1)] in blast)
  moreover have "\<exists>m. offchain_get os bc st ev vs = Inr m \<and>
      (\<forall>k. fmlookup m k = (if k \<in> set vs then offchain_proof os bc st ev k else None))"
    by (rule offchain_get_eq [OF bc, of os st ev vs]) blast
  ultimately show ?thesis
    by (simp add: offchain_count_eq [OF bc] filter_length_card [OF assms(2)])
qed

theorem offchain_store_refines_witness:
  "offchain_invar ref_storage ref_bincode (ref_store (repeat_byte 1) [replicate 32 7]) \<and>
   offchain_count ref_storage ref_bincode (ref_store (repeat_byte 1) [replicate 32 7]) (repeat_byte 1)
     [ref_from_id (replicate 32 7), ref_from_id (replicate 32 8)] = Inr 1"
proof -
  let ?vs = "[ref_from_id (replicate 32 7), ref_from_id (replicate 32 8)]"
  have d: "distinct ?vs" by simp
  have "card {k \<in> set ?vs. offchain_proof ref_storage ref_bincode
      (ref_store (repeat_byte 1) [replicate 32 7]) (repeat_byte 1) k \<noteq> None} = 1"
    unfolding card_members [OF d] by (simp add: ref_store_proof)
  then show ?thesis
    using offchain_store_refines [OF ref_store_invar [of "repeat_byte 1" "[replicate 32 7]"] d,
        where ev = "repeat_byte 1"]
    by (simp add: ref_store_invar as_u16_def)
qed



text \<open>
  C17. The compare-and-set loops end. Whatever the other threads do to the storage, in every call in which
  they get in between finitely often \<open>add_event_proof\<close> and \<open>purge_event_stale_signatures\<close> of the offchain
  store return: with \<open>Ok\<close> or an error, also when the list of signers has become unreadable.
\<close>

theorem offchain_loops_end:
  assumes "storage_laws os" and "bincode_laws bc"
  shows "fst (offchain_add os bc env st w) \<noteq> Inl Diverge \<and> fst (offchain_purge os bc env st e vs) \<noteq> Inl Diverge \<and>
    add_signer_loop os bc env st w \<noteq> None \<and> purge_loop os bc env st e vs \<noteq> None"
proof -
  have "fst (offchain_add os bc env st w) \<noteq> Inl Diverge"
  proof (cases "proof_key bc (we_event_id w) (we_pub_key w)")
    case (Inr key)
    then show ?thesis
      using add_signer_loop_ends [OF assms, of env "os_set os st OFFCHAIN_PREFIX key (we_signature w)" w]
      by (auto simp: offchain_add_def Let_def)
  qed (simp add: offchain_add_def)
  moreover have "fst (offchain_purge os bc env st e vs) \<noteq> Inl Diverge"
    using purge_loop_ends [OF assms, of env st e vs] by (auto simp: offchain_purge_def)
  ultimately show ?thesis
    using add_signer_loop_ends [OF assms, of env st w] purge_loop_ends [OF assms, of env st e vs] by auto
qed

theorem offchain_loops_end_witness:
  "fst (offchain_add ref_storage ref_bincode [\<lambda>_ _. Some [1, 2, 3], \<lambda>_ _. None] (\<lambda>_. None)
     (ref_witnessed (repeat_byte 1) (replicate 32 7))) \<noteq> Inl Diverge \<and>
   purge_loop ref_storage ref_bincode [\<lambda>_ _. Some [1, 2, 3]] (\<lambda>_. None) (repeat_byte 1) [] \<noteq> None"
  using offchain_loops_end [OF ref_storage_laws ref_bincode_laws] by simp

text \<open>
  C16. Purging against concurrent additions is atomic. While other threads add the proofs \<open>ws\<close>, each in
  between a read and a compare-and-set of the purge, the purge returns \<open>Ok\<close>, the storage is well-formed,
  and the proofs in it are those of the first \<open>n\<close> additions, for some \<open>n\<close>, purged afterwards: no addition
  of a current validator is lost and no proof of a stale key is left.
\<close>

theorem offchain_purge_atomic:
  assumes "offchain_invar os bc st"
  shows "\<exists>n st'. n \<le> length ws \<and>
    offchain_purge os bc (map (\<lambda>w st. snd (offchain_add os bc [] st w)) ws) st e vs = (Inr (), st') \<and>
    offchain_invar os bc st' \<and>
    (\<forall>e' k. offchain_proof os bc st' e' k =
      offchain_proof os bc (snd (offchain_purge os bc [] (add_all os bc st (take n ws)) e vs)) e' k)"
proof -
  obtain n st' where n: "n \<le> length ws"
    "purge_loop os bc (map (\<lambda>w st. snd (offchain_add os bc [] st w)) ws) st e vs = Some (Inr (), st')"
    "offchain_invar os bc st'"
    "\<And>e' k. offchain_proof os bc st' e' k =
      (if e' = e \<and> k \<notin> set vs then None else offchain_proof os bc (add_all os bc st (take n ws)) e' k)"
    using purge_loop_linearizes [OF assms] by blast
  have inv: "offchain_invar os bc (add_all os bc st (take n ws))" by (rule add_all_invar [OF assms])
  have "offchain_proof os bc st' e' k =
      offchain_proof os bc (snd (offchain_purge os bc [] (add_all os bc st (take n ws)) e vs)) e' k" for e' k
    using n(4) by (auto intro: offchain_purge_alone [OF inv, of e vs])
  with n(1-3) show ?thesis by (intro exI [of _ n] exI [of _ st']) (simp add: offchain_purge_def)
qed

theorem offchain_purge_atomic_witness:
  "\<exists>st'. offchain_purge ref_storage ref_bincode
      [\<lambda>st. snd (offchain_add ref_storage ref_bincode [] st (ref_witnessed (repeat_byte 1) (replicate 32 8)))]
      (ref_store (repeat_byte 1) [replicate 32 7]) (repeat_byte 1) [ref_from_id (replicate 32 8)] = (Inr (), st') \<and>
    offchain_proof ref_storage ref_bincode st' (repeat_byte 1) (ref_from_id (replicate 32 7)) = None"
proof -
  let ?st = "ref_store (repeat_byte 1) [replicate 32 7]" and ?w = "ref_witnessed (repeat_byte 1) (replicate 32 8)"
  obtain n st' where n: "n \<le> length [?w]"
    "offchain_purge ref_storage ref_bincode (map (\<lambda>w st. snd (offchain_add ref_storage ref_bincode [] st w)) [?w]) ?st
      (repeat_byte 1) [ref_from_id (replicate 32 8)] = (Inr (), st')"
    "\<And>e' k. offchain_proof ref_storage ref_bincode st' e' k = offchain_proof ref_storage ref_bincode
      (snd (offchain_purge ref_storage ref_bincode [] (add_all ref_storage ref_bincode ?st (take n [?w])) (repeat_byte 1)
        [ref_from_id (replicate 32 8)])) e' k"
    using offchain_purge_atomic [OF ref_store_invar [of "repeat_byte 1" "[replicate 32 7]"], of "[?w]" "repeat_byte 1"] by blast
  have inv: "offchain_invar ref_storage ref_bincode (add_all ref_storage ref_bincode ?st (take n [?w]))"
    by (rule add_all_invar [OF ref_store_invar])
  have "offchain_proof ref_storage ref_bincode st' (repeat_byte 1) (ref_from_id (replicate 32 7)) = None"
    unfolding n(3) by (rule offchain_purge_alone [OF inv, of "repeat_byte 1" "[ref_from_id (replicate 32 8)]"]) simp
  with n(2) show ?thesis by simp
qed



text \<open>
  The offchain store counts a key as often as the list of validators repeats it. The trait documents
  the count as the length of the map of proofs; for a list with a repetition it is larger.
\<close>

theorem offchain_count_repeats:
  assumes "offchain_invar os bc st" and "offchain_proof os bc st e k = Some g"
  shows "offchain_count os bc st e [k, k] = Inr 2 \<and>
    default_event_proof_count (offchain_get os bc) st e [k, k] = Inr 1"
proof
  have bc: "bincode_laws bc" using assms(1) by (simp add: offchain_invar_def)
  show "offchain_count os bc st e [k, k] = Inr 2"
    using assms(2) by (simp add: offchain_count_eq [OF bc] as_u16_def)
  obtain m where m: "offchain_get os bc st e [k, k] = Inr m" by (rule offchain_get_eq [OF bc])
  have "{k' \<in> set [k, k]. offchain_proof os bc st e k' \<noteq> None} = {k}" using assms(2) by auto
  then have "hm_len m = 1" using oc.get_len [OF assms(1) m] by simp
  then show "default_event_proof_count (offchain_get os bc) st e [k, k] = Inr 1"
    by (simp add: default_event_proof_count_def m as_u16_def)
qed

theorem offchain_count_repeats_witness:
  "offchain_count ref_storage ref_bincode (ref_store (repeat_byte 1) [replicate 32 7]) (repeat_byte 1)
     [ref_from_id (replicate 32 7), ref_from_id (replicate 32 7)] = Inr 2"
proof -
  have "offchain_proof ref_storage ref_bincode (ref_store (repeat_byte 1) [replicate 32 7]) (repeat_byte 1)
      (ref_from_id (replicate 32 7)) = Some (replicate 32 7 @ as_bytes (repeat_byte 1))"
    by (simp add: ref_store_proof)
  from offchain_count_repeats [OF ref_store_invar this] show ?thesis by simp
qed

text \<open>
  Purging the database store, on every path. Whatever it returns, no proof of a listed validator is
  lost and no other proof changes except by being removed; when it returns \<open>Ok\<close> no proof of an unlisted
  key is left for the event; it never panics.
\<close>

theorem rocksdb_purge_safe:
  assumes "rocksdb_invar ops bc db" and "rocksdb_purge ops bc db e vs = (r, db')"
  shows "(\<forall>e' k. k \<in> set vs \<longrightarrow> rocksdb_proof ops bc db' e' k = rocksdb_proof ops bc db e' k) \<and>
    (\<forall>e' k. rocksdb_proof ops bc db' e' k = rocksdb_proof ops bc db e' k \<or> rocksdb_proof ops bc db' e' k = None) \<and>
    (r = Inr () \<longrightarrow> (\<forall>k. k \<notin> set vs \<longrightarrow> rocksdb_proof ops bc db' e k = None)) \<and>
    no_panic r \<and> rocksdb_invar ops bc db'"
  using rd.purge_sound [OF assms] rd.purge_drops [of ops bc db e vs db'] rd.purge_invar [OF assms]
    rdr.purge_no_panic [OF assms(1), of e vs] assms
  by (simp, metis)

definition demo_proof_key :: "u8 \<Rightarrow> bytes" where
  "demo_proof_key b = as_bytes (repeat_byte 1) @ enc_pair (ref_from_id (replicate 32 b))"

theorem rocksdb_purge_safe_witness:
  "rocksdb_proof (ref_rocksdb False) ref_bincode
     (snd (rocksdb_purge (ref_rocksdb False) ref_bincode
       (fmupd (demo_proof_key 7) [1] (fmupd (demo_proof_key 8) [2] fmempty)) (repeat_byte 1)
       [ref_from_id (replicate 32 7)]))
     (repeat_byte 1) (ref_from_id (replicate 32 7)) = Some [1]"
proof -
  have key: "proof_key ref_bincode (repeat_byte 1) (ref_from_id (replicate 32 b)) = Inr (demo_proof_key b)" for b
    by (simp add: proof_key_def ref_bincode_def demo_proof_key_def)
  let ?db = "fmupd (demo_proof_key 7) [1] (fmupd (demo_proof_key 8) [2] fmempty)"
  have inv: "rocksdb_invar (ref_rocksdb False) ref_bincode ?db"
    by (rule ref_rocksdb_invar) (use key in auto)
  have "rocksdb_proof (ref_rocksdb False) ref_bincode ?db (repeat_byte 1) (ref_from_id (replicate 32 7)) = Some [1]"
    by (simp add: rocksdb_proof_def key ref_rocksdb_def)
  then show ?thesis
    using rocksdb_purge_safe [OF inv prod.collapse [symmetric],
        where e = "repeat_byte 1" and vs = "[ref_from_id (replicate 32 7)]"]
    by simp
qed

text \<open>
  A failing database looks like a database without proofs to the count. When every read fails,
  \<open>get_event_proofs\<close> reports the error, and \<open>get_event_proof_count\<close> returns \<open>Ok(0)\<close>.
\<close>

theorem rocksdb_count_hides_errors:
  assumes "bincode_laws bc" and "\<forall>keys. db_multi_get ops db keys = map (\<lambda>_. Inl msg) keys" and "vs \<noteq> []"
  shows "rocksdb_get ops bc db e vs = Inl (Err (Database msg)) \<and> rocksdb_count ops bc db e vs = Inr 0"
proof -
  obtain keys where keys: "rocksdb_keys bc e vs = Inr keys"
    and l: "list_all2 (\<lambda>k key. proof_key bc e k = Inr key) vs keys"
    by (rule rocksdb_keys_eq [OF assms(1)])
  obtain k vs' key keys' where "vs = k # vs'" and "keys = key # keys'"
    using assms(3) l by (cases vs; cases keys) auto
  then show ?thesis
    using keys assms(2) by (simp add: rocksdb_get_def rocksdb_count_def error_from_rocksdb_def as_u16_def)
qed

theorem rocksdb_count_hides_errors_witness:
  "rocksdb_get (ref_rocksdb True) ref_bincode fmempty (repeat_byte 1) [ref_from_id (replicate 32 7)] =
     Inl (Err (Database ''IO error'')) \<and>
   rocksdb_count (ref_rocksdb True) ref_bincode fmempty (repeat_byte 1) [ref_from_id (replicate 32 7)] = Inr 0"
  by (rule rocksdb_count_hides_errors [OF ref_bincode_laws]) (simp_all add: ref_rocksdb_def)

end
