(* ===== verification/Consensus_Properties.thy ===== *)
theory Consensus_Properties
  imports Instances
begin

text \<open>
  The properties of the consensus crate's components: the threshold and the quorums it gives, the cache
  of authority lists, the checks on witnessed events and blocks, the gossip handler, the gossip service,
  the witnesser, the validator and the gRPC server.
\<close>

section \<open>The threshold\<close>

lemma split_quorums:
  assumes "distinct xs" and "t \<le> length xs"
  obtains S T where "S \<subseteq> set xs" and "T \<subseteq> set xs" and "card S = t" and "card T = t"
    and "card (S \<inter> T) = 2 * t - length xs"
proof -
  let ?n = "length xs"
  let ?S = "set (take t xs)" and ?T = "set (drop (?n - t) xs)"
  have cS: "card ?S = t" and cT: "card ?T = t"
    using assms by (simp_all add: distinct_card distinct_drop)
  have sub: "?S \<subseteq> set xs" "?T \<subseteq> set xs" by (simp_all add: set_take_subset set_drop_subset)
  have "card (?S \<inter> ?T) = 2 * t - ?n"
  proof (cases "t \<le> ?n - t")
    case True
    then show ?thesis using assms set_take_disj_set_drop_if_distinct [OF assms(1) True] by simp
  next
    case False
    then have "set (drop t xs) \<subseteq> ?T" by (intro set_drop_subset_set_drop) simp
    then have "?S \<union> ?T = set xs" using sub set_append [of "take t xs" "drop t xs"] by auto
    then have "card ?S + card ?T = ?n + card (?S \<inter> ?T)"
      using card_Un_Int [of ?S ?T] assms(1) by (simp add: distinct_card)
    then show ?thesis using cS cT by simp
  qed
  then show ?thesis using that sub cS cT by blast
qed

text \<open>
  C4. The target is the smallest threshold that is safe. Among the numbers of witnesses up to the number
  of authorities, those at least the target are exactly those for which any two sets of that many
  authorities have more than a third of all authorities in common, and so an honest one when at most
  a third are faulty.
\<close>

theorem target_least_safe:
  assumes "distinct (authorities al)" and "length (authorities al) \<le> 98302" and "t \<le> length (authorities al)"
  shows "unat (target al) \<le> t \<longleftrightarrow>
    (\<forall>S T. S \<subseteq> set (authorities al) \<and> T \<subseteq> set (authorities al) \<and> t \<le> card S \<and> t \<le> card T \<longrightarrow>
      length (authorities al) < 3 * card (S \<inter> T))" (is "_ \<longleftrightarrow> ?safe")
proof
  let ?n = "length (authorities al)"
  assume t: "unat (target al) \<le> t"
  show ?safe
  proof (intro allI impI)
    fix S T assume a: "S \<subseteq> set (authorities al) \<and> T \<subseteq> set (authorities al) \<and> t \<le> card S \<and> t \<le> card T"
    then have "card S + card T \<le> card (set (authorities al)) + card (S \<inter> T)"
      by (intro card_inter_ge) auto
    moreover have "?n * 2 < t * 3" using t target_le_iff [OF assms(2)] by blast
    ultimately show "?n < 3 * card (S \<inter> T)" using a distinct_card [OF assms(1)] by linarith
  qed
next
  let ?n = "length (authorities al)"
  assume safe: ?safe
  obtain S T where ST: "S \<subseteq> set (authorities al)" "T \<subseteq> set (authorities al)" "card S = t" "card T = t"
    and c: "card (S \<inter> T) = 2 * t - ?n"
    by (rule split_quorums [OF assms(1,3)])
  have "?n < 3 * card (S \<inter> T)" using safe [THEN spec, THEN spec, of S T] ST by linarith
  then have "?n * 2 < t * 3" using c by linarith
  then show "unat (target al) \<le> t" using target_le_iff [OF assms(2)] by blast
qed

theorem target_least_safe_witness:
  "unat (target four_authorities) \<le> 3 \<and>
   4 < 3 * card (set (take 3 (authorities four_authorities)) \<inter> set (drop 1 (authorities four_authorities)))"
proof -
  let ?S = "set (take 3 (authorities four_authorities))" and ?T = "set (drop 1 (authorities four_authorities))"
  have t: "unat (target four_authorities) \<le> 3" by (simp add: four_authorities_facts)
  have "card ?S = 3" and "card ?T = 3"
    by (simp_all add: distinct_card distinct_drop four_authorities_facts)
  moreover have "?S \<subseteq> set (authorities four_authorities)" and "?T \<subseteq> set (authorities four_authorities)"
    by (simp_all add: set_take_subset set_drop_subset)
  moreover have "\<forall>S T. S \<subseteq> set (authorities four_authorities) \<and> T \<subseteq> set (authorities four_authorities) \<and>
      3 \<le> card S \<and> 3 \<le> card T \<longrightarrow> 4 < 3 * card (S \<inter> T)"
    using target_least_safe [OF four_authorities_facts(1), of 3] t by (simp add: four_authorities_facts(2))
  ultimately show ?thesis using t by simp
qed

lemma majority_formula: "n * 2 div 3 + 1 = (n - n div 3) div 2 + 1 + n div 3" for n :: nat
proof -
  define m r where "m = n div 3" and "r = n mod 3"
  then have n: "n = r + m * 3" and "r < 3" by simp_all
  then have "r = 0 \<or> r = 1 \<or> r = 2" by linarith
  then have r: "2 * r div 3 = r div 2" by auto
  have "n * 2 = 2 * r + (2 * m) * 3" and "n - m = r + m * 2" using n by linarith+
  then have "n * 2 div 3 = 2 * r div 3 + 2 * m" and "(n - m) div 2 = r div 2 + m" 
    by (simp_all only: div_mult_self1 numeral_neq_zero)
  with r show ?thesis by (simp add: m_def [symmetric])
qed

text \<open>
  The formula of the code computes the number its comment derives: a strict majority of the nodes
  that do not fail, plus the nodes that may vote twice.
\<close>

theorem target_majority:
  assumes "length (authorities al) \<le> 98302"
  shows "unat (target al) =
    (length (authorities al) - length (authorities al) div 3) div 2 + 1 + length (authorities al) div 3"
  unfolding unat_target [OF assms] by (rule majority_formula)

theorem target_majority_witness:
  "unat (target \<lparr>authorities = map (\<lambda>b. ref_from_id [b]) [1, 2, 3, 4]\<rparr>) = (4 - 4 div 3) div 2 + 1 + 4 div 3"
proof -
  let ?al = "\<lparr>authorities = map (\<lambda>b. ref_from_id [b]) [1, 2, 3, 4]\<rparr>"
  have l: "length (authorities ?al) = 4" by simp
  show ?thesis using target_majority [of ?al] unfolding l by simp
qed

text \<open>
  The cast to \<open>u16\<close> in \<open>target\<close>: the value is always the formula modulo 65536, and it is the formula
  itself exactly when there are at most 98302 authorities.
\<close>

theorem target_exact:
  "unat (target al) = (length (authorities al) * 2 div 3 + 1) mod 65536 \<and>
   (unat (target al) = length (authorities al) * 2 div 3 + 1 \<longleftrightarrow> length (authorities al) \<le> 98302)"
proof
  show v: "unat (target al) = (length (authorities al) * 2 div 3 + 1) mod 65536"
    by (simp add: target_def Let_def unat_as_u16)
  have "n * 2 div 3 < 65535 \<longleftrightarrow> n \<le> 98302" for n :: nat
    unfolding div_less_iff_less_mult [of 3 "n * 2" 65535, simplified] by linarith
  then have "n * 2 div 3 + 1 < 65536 \<longleftrightarrow> n \<le> 98302" for n :: nat by simp
  then show "unat (target al) = length (authorities al) * 2 div 3 + 1 \<longleftrightarrow> length (authorities al) \<le> 98302"
    unfolding v by (metis mod_less mod_less_divisor zero_less_numeral)
qed

section \<open>Checking witnessed events\<close>

text \<open>
  \<open>verify_witnessed_event_origin\<close> accepts a witnessed event exactly if its key is an authority and its
  signature of the event verifies under that key; it then returns the event unchanged. Every other
  event is refused with \<open>BadWitnessedEventSignature\<close>, and the text tells an outsider from an authority.
\<close>

theorem verify_origin_exact:
  "(verify_witnessed_event_origin sr al w = Inr w' \<longleftrightarrow>
     w' = w \<and> we_pub_key w \<in> set (authorities al) \<and> signed_by sr (we_pub_key w) (we_event_id w) (we_signature w))
   \<and> (\<forall>f. verify_witnessed_event_origin sr al w = Inl f \<longrightarrow> (\<exists>text. f = Err (BadWitnessedEventSignature text) \<and>
       (text = ''WitnessedEvent was signed by non-validator'' \<longleftrightarrow> we_pub_key w \<notin> set (authorities al))))"
  unfolding verify_origin_Inr
  by (auto simp: verify_witnessed_event_origin_def split: option.splits if_splits)

theorem verify_origin_exact_witness:
  "verify_witnessed_event_origin (ref_sr25519 (\<lambda>_ _. True)) \<lparr>authorities = [ref_from_id (replicate 32 7)]\<rparr>
     (ref_witnessed (repeat_byte 1) (replicate 32 7)) = Inr (ref_witnessed (repeat_byte 1) (replicate 32 7)) \<and>
   verify_witnessed_event_origin (ref_sr25519 (\<lambda>_ _. True)) \<lparr>authorities = []\<rparr>
     (ref_witnessed (repeat_byte 1) (replicate 32 7)) =
       Inl (Err (BadWitnessedEventSignature ''WitnessedEvent was signed by non-validator''))"
  using verify_origin_exact [of "ref_sr25519 (\<lambda>_ _. True)" "\<lparr>authorities = [ref_from_id (replicate 32 7)]\<rparr>"
      "ref_witnessed (repeat_byte 1) (replicate 32 7)" "ref_witnessed (repeat_byte 1) (replicate 32 7)"]
  by (simp add: ref_witnessed_def ref_signed_by verify_witnessed_event_origin_def)

text \<open>
  The cache of authority lists is transparent: as long as the cached lists agree with the chain,
  \<open>get_authorities_list\<close> returns what asking the chain returns, and the cached lists agree with the
  chain afterwards. Only a poisoned lock makes a difference, and that is reported.
\<close>

theorem authorities_cache_transparent:
  assumes "lru_laws lru" and "cache_agrees lru from_id client bs"
  shows "fst (get_authorities_list lru from_id bs client h) =
      (if bs_poisoned bs then Inl (Err poison_error) else authorities_at from_id client h) \<and>
    cache_agrees lru from_id client (snd (get_authorities_list lru from_id bs client h))"
  using get_authorities_list_agrees [OF assms prod.collapse [symmetric]] by simp

theorem authorities_cache_transparent_witness:
  "fst (get_authorities_list ref_lru ref_from_id ref_block_state
      (ref_client (\<lambda>_. [replicate 32 7]) (\<lambda>_. []) 1 1) (repeat_byte 1)) =
    Inr \<lparr>authorities = [ref_from_id (replicate 32 7)]\<rparr>"
proof -
  have "cache_agrees ref_lru ref_from_id (ref_client (\<lambda>_. [replicate 32 7]) (\<lambda>_. []) 1 1) ref_block_state"
    by (simp add: cache_agrees_def ref_lru_def ref_block_state_def)
  from authorities_cache_transparent [OF ref_lru_laws this] show ?thesis
    by (simp add: ref_block_state_def authorities_at_def ref_client_def)
qed

section \<open>The gossip handler\<close>

text \<open>
  C10. Nothing but a quorum makes a node submit an event. If handling a message changes the transaction
  pool, then the storage afterwards holds correct signatures of the event in the message by as many
  distinct authorities of the last finalized block as the target asks for.
\<close>

theorem handler_submits_quorum:
  assumes "he_proofs he = offchain_ops os bc"
    and "handler_ok (he_sr25519 he) (offchain_proof os bc) (offchain_invar os bc) self"
    and "fst (get_latest_authorities_list (he_lru he) (he_from_id he) (gh_block_state self) client) = Inr al"
    and "distinct (authorities al)" and "length (authorities al) \<le> 98302"
    and "handle_witnessed_event he client self w = (r, self')" and "gh_tx_pool self' \<noteq> gh_tx_pool self"
  shows "\<exists>S. authority_quorum al S \<and>
    (\<forall>k \<in> S. \<exists>g. offchain_proof os bc (gh_event_proofs self') (we_event_id w) k = Some g \<and>
      signed_by (he_sr25519 he) k (we_event_id w) g)"
  using oc.handle_submits [of he os bc self client w r self' al] assms
  by (simp add: offchain_ops_def handler_ok_def)

text \<open>
  An event is submitted as soon as enough authorities have signed it (in the build with off-chain
  proofs). When a correctly signed witnessed event of an authority arrives and with it the number of
  authorities whose proofs are stored reaches the target, the extrinsic for the event goes to the
  transaction pool and the proof is stored.
\<close>

theorem handler_submits_at_target:
  assumes ops: "he_proofs he = offchain_ops os bc" and inv: "offchain_invar os bc (gh_event_proofs self)"
    and al: "get_latest_authorities_list (he_lru he) (he_from_id he) (gh_block_state self) client = (Inr al, bs)"
    and w: "verify_witnessed_event_origin (he_sr25519 he) al w = Inr w"
    and d: "distinct (authorities al)" "length (authorities al) < 65536"
    and t: "unat (target al) \<le> card {k \<in> set (authorities al).
      k = we_pub_key w \<or> offchain_proof os bc (gh_event_proofs self) (we_event_id w) k \<noteq> None}"
    and off: "he_off_chain_proofs he"
    and ext: "cl_create_unsigned_extrinsic client (best_hash (cl_info client)) (we_event_id w) None = Inr ext"
  shows "gh_tx_pool (snd (handle_witnessed_event he client self w)) =
      snd (submit_local (he_pool he) (gh_tx_pool self) (best_hash (cl_info client)) ext) \<and>
    offchain_proof os bc (gh_event_proofs (snd (handle_witnessed_event he client self w)))
      (we_event_id w) (we_pub_key w) = Some (we_signature w)"
  by (rule offchain_handle_submits [OF assms])

text \<open>
  The example of both: with the proofs of two of the four authorities stored, the third arrives.
\<close>

lemma third_witness_card:
  "card {k \<in> set (authorities four_authorities). k = ref_from_id (key_of 3) \<or>
     offchain_proof ref_storage ref_bincode (ref_store event_a [key_of 1, key_of 2]) event_a k \<noteq> None} = 3"
  unfolding card_members [OF four_authorities_facts(1)]
  by (simp add: ref_store_proof four_authorities_def)

definition third_witness :: "(bytes \<times> bytes \<Rightarrow> bytes option, h256 \<Rightarrow> authorities_list option, ref_extrinsic list)
    gossip_handler" where
  "third_witness = snd (handle_witnessed_event (ref_handler_env (\<lambda>_ _. True) True) four_client
     (ref_handler event_a [key_of 1, key_of 2]) (ref_witnessed event_a (key_of 3)))"

lemma third_witness_setting:
  obtains bs where "get_latest_authorities_list ref_lru ref_from_id ref_block_state four_client =
      (Inr four_authorities, bs)"
    and "verify_witnessed_event_origin (ref_sr25519 (\<lambda>_ _. True)) four_authorities
      (ref_witnessed event_a (key_of 3)) = Inr (ref_witnessed event_a (key_of 3))"
    and "cl_create_unsigned_extrinsic four_client (best_hash (cl_info four_client)) event_a None =
      Inr (create_unsigned_extrinsic ref_try_into event_a None)"
  using four_latest four_verify [of 3 "\<lambda>_ _. True" event_a] by (auto simp: four_client_def ref_client_def)

theorem handler_submits_at_target_witness:
  "gh_tx_pool third_witness = [create_unsigned_extrinsic ref_try_into event_a None] \<and>
   offchain_proof ref_storage ref_bincode (gh_event_proofs third_witness) event_a (ref_from_id (key_of 3)) =
     Some (key_of 3 @ as_bytes event_a)"
proof (rule third_witness_setting)
  let ?he = "ref_handler_env (\<lambda>_ _. True) True" and ?h = "ref_handler event_a [key_of 1, key_of 2]"
  fix bs
  assume "get_latest_authorities_list ref_lru ref_from_id ref_block_state four_client = (Inr four_authorities, bs)"
    and "verify_witnessed_event_origin (ref_sr25519 (\<lambda>_ _. True)) four_authorities
      (ref_witnessed event_a (key_of 3)) = Inr (ref_witnessed event_a (key_of 3))"
    and "cl_create_unsigned_extrinsic four_client (best_hash (cl_info four_client)) event_a None =
      Inr (create_unsigned_extrinsic ref_try_into event_a None)"
  then show ?thesis
    using handler_submits_at_target [of ?he ref_storage ref_bincode ?h four_client four_authorities bs
        "ref_witnessed event_a (key_of 3)" "create_unsigned_extrinsic ref_try_into event_a None"] third_witness_card
    by (simp add: ref_store_invar four_authorities_facts third_witness_def ref_pool_def)
qed

lemma third_witness_pool: "gh_tx_pool third_witness \<noteq> []"
proof (rule third_witness_setting)
  let ?he = "ref_handler_env (\<lambda>_ _. True) True" and ?h = "ref_handler event_a [key_of 1, key_of 2]"
  fix bs
  assume "get_latest_authorities_list ref_lru ref_from_id ref_block_state four_client = (Inr four_authorities, bs)"
    and "verify_witnessed_event_origin (ref_sr25519 (\<lambda>_ _. True)) four_authorities
      (ref_witnessed event_a (key_of 3)) = Inr (ref_witnessed event_a (key_of 3))"
    and "cl_create_unsigned_extrinsic four_client (best_hash (cl_info four_client)) event_a None =
      Inr (create_unsigned_extrinsic ref_try_into event_a None)"
  then show ?thesis
    using offchain_handle_submits [of ?he ref_storage ref_bincode ?h four_client four_authorities bs
        "ref_witnessed event_a (key_of 3)" "create_unsigned_extrinsic ref_try_into event_a None"] third_witness_card
    by (simp add: ref_store_invar four_authorities_facts third_witness_def ref_pool_def)
qed

theorem handler_submits_quorum_witness:
  "\<exists>S k g. authority_quorum four_authorities S \<and> k \<in> S \<and>
    offchain_proof ref_storage ref_bincode (gh_event_proofs third_witness) event_a k = Some g \<and>
    signed_by (ref_sr25519 (\<lambda>_ _. True)) k event_a g"
proof -
  let ?he = "ref_handler_env (\<lambda>_ _. True) True" and ?h = "ref_handler event_a [key_of 1, key_of 2]"
  let ?w = "ref_witnessed event_a (key_of 3)"
  have ok: "handler_ok (he_sr25519 ?he) (offchain_proof ref_storage ref_bincode)
      (offchain_invar ref_storage ref_bincode) ?h"
    using ref_handler_ok [of "[key_of 1, key_of 2]" "\<lambda>_ _. True" event_a] by (simp add: offchain_handler_ok_def)
  have al: "fst (get_latest_authorities_list (he_lru ?he) (he_from_id ?he) (gh_block_state ?h) four_client) =
      Inr four_authorities"
    using four_latest by (metis fst_conv ref_handler_env_simps(2,3) ref_handler_simps(3))
  have "gh_tx_pool (snd (handle_witnessed_event ?he four_client ?h ?w)) \<noteq> gh_tx_pool ?h"
    using third_witness_pool by (simp add: third_witness_def)
  from handler_submits_quorum [OF ref_handler_env_simps(1) ok al four_authorities_facts(1) _ prod.collapse [symmetric] this]
  have "\<exists>S. authority_quorum four_authorities S \<and> (\<forall>k \<in> S. \<exists>g. offchain_proof ref_storage ref_bincode
      (gh_event_proofs third_witness) event_a k = Some g \<and> signed_by (ref_sr25519 (\<lambda>_ _. True)) k event_a g)"
    by (simp add: four_authorities_facts third_witness_def)
  then obtain S where S: "authority_quorum four_authorities S" "\<forall>k \<in> S. \<exists>g. offchain_proof ref_storage ref_bincode
      (gh_event_proofs third_witness) event_a k = Some g \<and> signed_by (ref_sr25519 (\<lambda>_ _. True)) k event_a g"
    by blast
  then have "S \<noteq> {}" by (auto simp: authority_quorum_def four_authorities_facts)
  with S show ?thesis by blast
qed

text \<open>
  C27. No sequence of messages, from whomever, can stop or corrupt the handler, here with the database
  store, whose operations may fail: every message is handled without a panic, all stored proofs stay
  correct signatures, and a proof stored afterwards was stored before or came in one of the messages.
\<close>

theorem handler_survives_messages:
  assumes "he_proofs he = store_ops (rocksdb_add ops bc) (rocksdb_get ops bc) (rocksdb_count ops bc)
      (rocksdb_purge ops bc)"
    and "hash_iter_laws (he_iter he)"
    and "handler_ok (he_sr25519 he) (rocksdb_proof ops bc) (rocksdb_invar ops bc) self"
  shows "\<exists>self'. handle_messages he self ms = (Inr (), self') \<and>
    handler_ok (he_sr25519 he) (rocksdb_proof ops bc) (rocksdb_invar ops bc) self' \<and>
    (\<forall>e k g. rocksdb_proof ops bc (gh_event_proofs self') e k = Some g \<longrightarrow>
      rocksdb_proof ops bc (gh_event_proofs self) e k = Some g \<or> message_carries (he_bincode he) ms e k g)"
  by (rule rdr.handle_messages_ok [OF assms, of ms]) blast

definition db_handler_env ::
    "bool \<Rightarrow> ((bytes, bytes) fmap, h256 \<Rightarrow> authorities_list option, bytes, ref_extrinsic, ref_extrinsic list)
      handler_env" where
  "db_handler_env failing =
     \<lparr>he_proofs = store_ops (rocksdb_add (ref_rocksdb failing) ref_bincode)
        (rocksdb_get (ref_rocksdb failing) ref_bincode) (rocksdb_count (ref_rocksdb failing) ref_bincode)
        (rocksdb_purge (ref_rocksdb failing) ref_bincode),
      he_lru = ref_lru, he_from_id = ref_from_id, he_bincode = ref_bincode,
      he_sr25519 = ref_sr25519 (\<lambda>_ _. True), he_pool = ref_pool, he_iter = ref_iter, he_off_chain_proofs = False\<rparr>"

theorem handler_survives_messages_witness:
  "\<exists>self'. handle_messages (db_handler_env True)
     \<lparr>gh_event_proofs = fmempty, gh_tx_pool = [], gh_block_state = ref_block_state\<rparr>
     [(four_client, [1, 2, 3]),
      (four_client, enc_bytes [9] @ enc_pair (ref_from_id (key_of 1)) @ as_bytes event_a)] = (Inr (), self')"
proof -
  have "rocksdb_invar (ref_rocksdb True) ref_bincode fmempty" by (rule ref_rocksdb_invar) simp
  moreover have "rocksdb_proof (ref_rocksdb True) ref_bincode fmempty e k = None" for e k
    by (simp add: rocksdb_proof_def ref_rocksdb_def split: sum.split)
  ultimately have "handler_ok (ref_sr25519 (\<lambda>_ _. True)) (rocksdb_proof (ref_rocksdb True) ref_bincode)
      (rocksdb_invar (ref_rocksdb True) ref_bincode)
      \<lparr>gh_event_proofs = fmempty, gh_tx_pool = [], gh_block_state = ref_block_state\<rparr>"
    by (simp add: handler_ok_def all_signed_def)
  then have ok: "handler_ok (he_sr25519 (db_handler_env True)) (rocksdb_proof (ref_rocksdb True) ref_bincode)
      (rocksdb_invar (ref_rocksdb True) ref_bincode)
      \<lparr>gh_event_proofs = fmempty, gh_tx_pool = [], gh_block_state = ref_block_state\<rparr>"
    by (simp add: db_handler_env_def)
  have ops: "he_proofs (db_handler_env True) = store_ops (rocksdb_add (ref_rocksdb True) ref_bincode)
      (rocksdb_get (ref_rocksdb True) ref_bincode) (rocksdb_count (ref_rocksdb True) ref_bincode)
      (rocksdb_purge (ref_rocksdb True) ref_bincode)" and iter: "hash_iter_laws (he_iter (db_handler_env True))"
    by (simp_all add: db_handler_env_def ref_iter_laws)
  show ?thesis using handler_survives_messages [OF ops iter ok] by blast
qed

section \<open>The gossip service\<close>

text \<open>
  C18. The gossip service loses, repeats and reorders nothing, and no message stops it. In every run of
  the service with the event handler: the orders taken followed by those still waiting are the orders
  that were waiting followed by those sent; the handler has processed exactly the messages of the run,
  those sent by the node itself included, each once and in the order they were taken; the task is alive
  and the handler's invariant holds.
\<close>

theorem gossip_service_faithful:
  assumes "gossip_run ops (gossip_handle he) s ls s'"
    and "live (offchain_handler_ok os chain he) s" and "list_all (label_seen (view_of chain)) ls"
  shows "ch_orders (gs_channel s) @ sent ls = taken ls @ ch_orders (gs_channel s') \<and>
    deliver_all (gossip_handle he) (gs_handler s) (messages ls) = (Inr (), gs_handler s') \<and>
    live (offchain_handler_ok os chain he) s'"
  using gh.run_live [OF assms] by simp

definition idle_service ::
    "(unit, (bytes \<times> bytes \<Rightarrow> bytes option, h256 \<Rightarrow> authorities_list option, ref_extrinsic list) gossip_handler)
      gossip_service" where
  "idle_service = \<lparr>gs_channel = gossip_create, gs_swarm = (), gs_handler = ref_handler event_a []\<rparr>"

lemma idle_service_live:
  "live (offchain_handler_ok ref_storage four_chain (ref_handler_env (\<lambda>_ _. True) True)) idle_service"
  using ref_handler_ok [of "[]" "\<lambda>_ _. True" event_a] by (simp add: live_def idle_service_def gossip_create_def)

theorem gossip_service_faithful_witness:
  "\<exists>s'. gossip_run ref_swarm (gossip_handle (ref_handler_env (\<lambda>_ _. True) True)) idle_service
      [Sent (SendMessage WITNESSED_EVENTS_TOPIC [1]), Sent (Listen []),
       TookOrder four_client (SendMessage WITNESSED_EVENTS_TOPIC [1]), TookEvent four_client OtherSwarmEvent] s' \<and>
    ch_orders (gs_channel s') = [Listen []]"
proof -
  let ?he = "ref_handler_env (\<lambda>_ _. True) True"
  let ?ls = "[Sent (SendMessage WITNESSED_EVENTS_TOPIC [1]), Sent (Listen []),
    TookOrder four_client (SendMessage WITNESSED_EVENTS_TOPIC [1]), TookEvent four_client OtherSwarmEvent]"
  have seen: "list_all (label_seen (view_of four_chain)) ?ls"
    by (simp add: four_client_def ref_client_view)
  have h: "gossip_handle ?he four_client (ref_handler event_a []) [1] = (Inr (), ref_handler event_a [])"
    by (simp add: gossip_handle_def ref_bincode_def whole_def)
  have "\<exists>s'. gossip_run ref_swarm (gossip_handle ?he) idle_service ?ls s'"
    by (intro exI, rule gossip_run.Step, rule gossip_step.Send, rule gossip_run.Step, rule gossip_step.Send,
        rule gossip_run.Step, rule gossip_step.Order)
      (simp add: idle_service_def gossip_create_def send_order_def,
       simp add: idle_service_def gossip_create_def send_order_def,
       rule gossip_run.Step, rule gossip_step.Event,
       simp add: idle_service_def gossip_create_def send_order_def handle_incoming_order_def h after_handling_def,
       rule gossip_run.Stop)
  then obtain s' where run: "gossip_run ref_swarm (gossip_handle ?he) idle_service ?ls s'" by blast
  from gossip_service_faithful [OF run idle_service_live seen] run
  show ?thesis by (auto simp: idle_service_def gossip_create_def)
qed

text \<open>
  Every order sent to the gossip service can be carried out. From every state of a running service
  there is a continuation, in which nobody sends anything, that takes all waiting orders in their
  order and leaves the channel empty.
\<close>

theorem gossip_service_drains:
  fixes he :: "('st, 'c, 'aid, 'ext, 'pool) handler_env" and client :: "('aid, 'ext) client"
  assumes "live (offchain_handler_ok os chain he) s" and "view_of chain client"
  shows "\<exists>ls s'. gossip_run ops (gossip_handle he) s ls s' \<and> list_all (label_seen (view_of chain)) ls \<and>
    taken ls = ch_orders (gs_channel s) \<and> sent ls = [] \<and> ch_orders (gs_channel s') = []"
  by (rule gh.drain [OF assms])

theorem gossip_service_drains_witness:
  "\<exists>ls s'. gossip_run ref_swarm (gossip_handle (ref_handler_env (\<lambda>_ _. True) True))
      (idle_service\<lparr>gs_channel := \<lparr>ch_orders = [Listen [], SendMessage WITNESSED_EVENTS_TOPIC [1]], ch_receiver = True\<rparr>\<rparr>)
      ls s' \<and> length (taken ls) = 2"
proof -
  let ?s = "idle_service\<lparr>gs_channel := \<lparr>ch_orders = [Listen [], SendMessage WITNESSED_EVENTS_TOPIC [1]],
    ch_receiver = True\<rparr>\<rparr>"
  have live: "live (offchain_handler_ok ref_storage four_chain (ref_handler_env (\<lambda>_ _. True) True)) ?s"
    using idle_service_live by (simp add: live_def)
  have "view_of four_chain four_client" by (simp add: four_client_def ref_client_view)
  from gossip_service_drains [OF live this] obtain ls s' where
    "gossip_run ref_swarm (gossip_handle (ref_handler_env (\<lambda>_ _. True) True)) ?s ls s'"
    and "taken ls = ch_orders (gs_channel ?s)" by blast
  then show ?thesis by (intro exI [of _ ls] exI [of _ s']) simp
qed

section \<open>Witnessing\<close>

text \<open>
  What a node publishes when it witnesses an event will be accepted by every node with the same
  authorities: on success exactly one message goes to the gossip, on the topic the handler subscribes to,
  and it decodes to a witnessed event for that event which passes \<open>verify_witnessed_event_origin\<close>. On
  failure nothing is published and the call returns an error, it does not panic.
\<close>

theorem witness_event_publishes:
  assumes "keystore_laws sr ks" and "bincode_laws bc"
    and "witness_event lru from_id bc ks client self event_id = (r, self')"
  shows "case r of
      Inr _ \<Rightarrow> \<exists>al m w. fst (get_latest_authorities_list lru from_id (ew_block_state self) client) = Inr al \<and>
        ew_gossip self' = publish (ew_gossip self) (hd get_topics) m \<and> de_event bc m = Inr w \<and>
        we_event_id w = event_id \<and> verify_witnessed_event_origin sr al w = Inr w
    | Inl f \<Rightarrow> ew_gossip self' = ew_gossip self \<and> (\<exists>err. f = Err err)"
proof (cases r)
  case (Inl f)
  then show ?thesis using witness_event_Err [of lru from_id bc ks client self event_id f self'] assms(3) by simp
next
  case (Inr u)
  then obtain al bs m where
    g: "get_latest_authorities_list lru from_id (ew_block_state self) client = (Inr al, bs)"
    and m: "sign_event bc ks al event_id = Inr m"
    and s: "self' = self\<lparr>ew_block_state := bs, ew_gossip := publish (ew_gossip self) WITNESSED_EVENTS_TOPIC m\<rparr>"
    using witness_event_Ok [of lru from_id bc ks client self event_id self'] assms(3) by auto
  obtain w where "de_event bc m = Inr w" "we_event_id w = event_id" "verify_witnessed_event_origin sr al w = Inr w"
    by (rule sign_event_cases [OF assms(1,2) m])
  then show ?thesis using Inr g s by (auto simp: get_topics_def)
qed

theorem witness_event_publishes_witness:
  "\<exists>m w. ew_gossip (snd (witness_event ref_lru ref_from_id ref_bincode (ref_keystore (\<lambda>_ _. True) (key_of 2))
      four_client \<lparr>ew_gossip = gossip_create, ew_block_state = ref_block_state\<rparr> event_a)) =
        publish gossip_create WITNESSED_EVENTS_TOPIC m \<and>
    de_event ref_bincode m = Inr w \<and> we_event_id w = event_a"
proof -
  let ?r = "witness_event ref_lru ref_from_id ref_bincode (ref_keystore (\<lambda>_ _. True) (key_of 2))
      four_client \<lparr>ew_gossip = gossip_create, ew_block_state = ref_block_state\<rparr> event_a"
  obtain bs where "get_latest_authorities_list ref_lru ref_from_id ref_block_state four_client =
      (Inr four_authorities, bs)" by (rule four_latest)
  then have "fst ?r = Inr ()"
    by (simp add: witness_event_def sign_event_def ref_keystore_def four_authorities_def ref_bincode_def)
  then have "?r = (Inr (), snd ?r)" by (metis prod.collapse)
  from witness_event_publishes [OF ref_keystore_laws ref_bincode_laws this]
  show ?thesis by (auto simp: get_topics_def)
qed

section \<open>Importing blocks\<close>



text \<open>
  C35. Where the check is skipped. A block goes to the inner import whatever its events are when the node
  is catching up, when the block has no body, and, if the authorities of the parent are known, when the
  runtime call that lists the events of the block fails.
\<close>

theorem import_block_skips_check:
  assumes "sync_service self = Provided sync"
    and "is_major_syncing sync \<or> bip_body block = None \<or>
      (\<exists>exts err. bip_body block = Some exts \<and> cl_get_extrinsic_ids client (bip_parent_hash block) exts = Inl err)"
    and "get_authorities_list lru from_id (bi_block_state self) client (bip_parent_hash block) = (Inr al, bs)"
  shows "\<exists>bs'. import_block ops lru from_id count is_major_syncing client self block =
    lift_parent (self\<lparr>bi_block_state := bs'\<rparr>) (parent_import_block ops (parent_block_import self) block)"
proof (cases "is_major_syncing sync \<or> bip_body block = None")
  case True
  from import_block_unchecked [where is_major_syncing = is_major_syncing, OF assms(1) this]
  show ?thesis by (intro exI [of _ "bi_block_state self"]) simp
next
  case False
  then obtain exts err where body: "bip_body block = Some exts"
    and "cl_get_extrinsic_ids client (bip_parent_hash block) exts = Inl err" using assms(2) by auto
  then have "block_event_ids client block = []" by (simp add: block_event_ids_def)
  then show ?thesis
    using import_block_forwards [where is_major_syncing = is_major_syncing and count = count,
        OF assms(1) _ body assms(3)] False by auto
qed

theorem import_block_skips_check_witness:
  "fst (import_block ref_import ref_lru ref_from_id (offchain_count ref_storage ref_bincode) (\<lambda>b. b)
      (four_client\<lparr>cl_get_extrinsic_ids := (\<lambda>_ _. Inl ''execution error'')\<rparr>)
      \<lparr>parent_block_import = [] :: h256 list, bi_event_proofs = ref_store event_a [], sync_service = Provided False,
       bi_block_state = ref_block_state\<rparr> (ref_block (repeat_byte 1) [event_b])) = Inr ()"
proof -
  let ?c = "four_client\<lparr>cl_get_extrinsic_ids := (\<lambda>_ _. Inl ''execution error'')\<rparr>"
  let ?bi = "\<lparr>parent_block_import = [] :: h256 list, bi_event_proofs = ref_store event_a [], sync_service = Provided False,
       bi_block_state = ref_block_state\<rparr>"
  let ?b = "ref_block (repeat_byte 1) [event_b]"
  obtain bs where g: "get_authorities_list ref_lru ref_from_id (bi_block_state ?bi) ?c (bip_parent_hash ?b) =
      (Inr four_authorities, bs)"
    by (simp add: get_authorities_list_def ref_block_state_def ref_lru_def four_client_def ref_client_def
        four_chain_def four_authorities_def Let_def)
  have "sync_service ?bi = Provided False" by simp
  moreover have "bip_body ?b \<noteq> None" by (simp add: ref_block_def)
  ultimately show ?thesis
    using import_block_skips_check [where is_major_syncing = "\<lambda>b. b", OF _ _ g, of False ref_import
        "offchain_count ref_storage ref_bincode"]
    by (auto simp: lift_parent_def ref_import_def)
qed

section \<open>Finalized events\<close>

text \<open>
  \<open>get_finalized_block_events\<close> returns exactly when the block becomes final. It returns in the first
  view of the chain, the present one or that of a later finality notification, in which the block at the
  asked number is an ancestor of the finalized block, and returns the events of that block; while there
  is no such view it waits. It never returns an error.
\<close>

theorem finalized_events_exact:
  "get_finalized_block_events client ns n = Some r \<longleftrightarrow>
     (\<exists>pre h c post b. (finalized_hash (cl_info client), client) # ns = pre @ (h, c) # post \<and>
        (\<forall>(h', c') \<in> set pre. \<not> (\<exists>b'. cl_block_hash c' n = Inr (Some b') \<and>
           cl_lowest_common_ancestor c' h' b' = Inr b')) \<and>
        cl_block_hash c n = Inr (Some b) \<and> cl_lowest_common_ancestor c h b = Inr b \<and>
        r = Inr (block_events c b))"
proof -
  have none: "finalized_block_at c h n = None \<longleftrightarrow>
      \<not> (\<exists>b. cl_block_hash c n = Inr (Some b) \<and> cl_lowest_common_ancestor c h b = Inr b)"
    for c :: "('a, 'b) client" and h n
    unfolding finalized_block_at_Some [symmetric] by auto
  show ?thesis
    unfolding get_finalized_block_events_Some views_def finalized_block_at_Some none by blast
qed

theorem finalized_events_exact_witness:
  "get_finalized_block_events (ref_client four_chain (\<lambda>_. [create_unsigned_extrinsic ref_try_into event_a None]) 1 3)
     [(repeat_byte 2, ref_client four_chain (\<lambda>_. [create_unsigned_extrinsic ref_try_into event_a None]) 2 4)] 2 =
   Some (Inr [event_a])"
proof -
  let ?c = "\<lambda>f b. ref_client four_chain (\<lambda>_. [create_unsigned_extrinsic ref_try_into event_a None]) f b"
  have be: "block_events (?c 2 4) (repeat_byte 2) = [event_a]"
    using get_extrinsic_ids_create [of ref_try_into "[(event_a, None)]"]
    by (simp add: block_events_def ref_client_def Let_def)
  show ?thesis
    unfolding finalized_events_exact
    by (intro exI [of _ "[(finalized_hash (cl_info (?c 1 3)), ?c 1 3)]"] exI [of _ "repeat_byte 2"]
        exI [of _ "?c 2 4"] exI [of _ "[]"] exI [of _ "repeat_byte 2"] conjI)
      (simp_all add: be, simp_all add: ref_client_def)
qed

section \<open>The gRPC server\<close>

text \<open>
  The stream of validated events: item \<open>i\<close> reports the events of block \<open>start + i\<close>, as byte strings from
  which the events can be read back, and its \<open>next_block\<close> is the number of the block after; where \<open>start\<close>
  is the block asked for, or the last finalized one when block 0 is asked for with \<open>from_latest\<close>.
\<close>

theorem validated_events_consecutive:
  assumes "start = (if from_block request = 0 \<and> from_latest request
      then finalized_number (cl_info client) else from_block request)"
    and "\<And>i. i < n \<Longrightarrow> finalized_events (start + of_nat i) = Some (Inr (es i))" and "i < n"
  shows "\<exists>item. validated_events finalized_events (get_latest_finalized_block client) request n ! i = Inr item \<and>
    next_block item = start + of_nat i + 1 \<and> map h256_from_slice (vr_events item) = map Some (es i) \<and>
    length (validated_events finalized_events (get_latest_finalized_block client) request n) = n"
proof -
  have s: "stream_start (get_latest_finalized_block client) request = start"
    using assms(1) by (simp add: stream_start_def get_latest_finalized_block_def)
  have "validated_events finalized_events (get_latest_finalized_block client) request n =
      map (\<lambda>i. Inr \<lparr>next_block = start + of_nat i + 1, vr_events = map as_bytes (es i)\<rparr>) [0..<n]"
    unfolding validated_events_def s by (rule stream_take_answers) (rule assms(2))
  then show ?thesis using assms(3) by (simp add: o_def)
qed

theorem validated_events_consecutive_witness:
  "\<exists>item. validated_events (\<lambda>b. Some (Inr [repeat_byte (ucast b)])) (get_latest_finalized_block (ref_client four_chain (\<lambda>_. []) 5 5))
      \<lparr>from_block = 0, from_latest = True\<rparr> 3 ! 1 = Inr item \<and> next_block item = 7 \<and>
    map h256_from_slice (vr_events item) = [Some (repeat_byte 6)]"
  using validated_events_consecutive [of 5 "\<lparr>from_block = 0, from_latest = True\<rparr>" "ref_client four_chain (\<lambda>_. []) 5 5"
      3 "\<lambda>b. Some (Inr [repeat_byte (ucast b)])" "\<lambda>i. [repeat_byte (ucast (5 + of_nat i :: u32))]" 1]
  by (auto simp: ref_client_def)

text \<open>
  A client that lost its connection misses and repeats nothing: reading \<open>m\<close> items of a stream that
  starts at block \<open>b > 0\<close> and then, in a new request, \<open>n\<close> items from the \<open>next_block\<close> of the last of them gives
  the same items as reading \<open>m + n\<close> items of one stream.
\<close>

theorem validated_events_resume:
  assumes "b \<noteq> 0" and "b + of_nat m \<noteq> 0" and "\<And>i. i < m \<Longrightarrow> finalized_events (b + of_nat i) \<noteq> None"
  shows "validated_events finalized_events latest \<lparr>from_block = b, from_latest = l\<rparr> (m + n) =
    validated_events finalized_events latest \<lparr>from_block = b, from_latest = l\<rparr> m @
    validated_events finalized_events latest \<lparr>from_block = b + of_nat m, from_latest = l'\<rparr> n"
  using stream_take_resume [of m finalized_events b n] assms by (simp add: validated_events_def stream_start_def)

theorem validated_events_resume_witness:
  "validated_events (\<lambda>b. Some (Inr [repeat_byte (ucast b)])) (Inr 9) \<lparr>from_block = 1, from_latest = True\<rparr> (2 + 3) =
    validated_events (\<lambda>b. Some (Inr [repeat_byte (ucast b)])) (Inr 9) \<lparr>from_block = 1, from_latest = True\<rparr> 2 @
    validated_events (\<lambda>b. Some (Inr [repeat_byte (ucast b)])) (Inr 9) \<lparr>from_block = 1 + of_nat 2, from_latest = True\<rparr> 3"
  by (rule validated_events_resume) simp_all

text \<open>
  A request to witness an event: identifiers that are not 32 bytes long are refused with
  \<open>invalid_argument\<close> and have no effect; for the others the witnesser runs on exactly the identifier whose
  bytes were sent, and its errors come back as the status \<open>aborted\<close> with their text.
\<close>

theorem grpc_witness_event_exact:
  "grpc_witness_event witness ew b =
    (if length b \<noteq> 32
     then (Inl (Status (invalid_argument ''invalid event_id length (expected 32 bytes)'')), ew)
     else (\<lambda>(r, ew'). (case r of Inr _ \<Rightarrow> Inr () | Inl (Err e) \<Rightarrow> Inl (Status (aborted (error_to_string e)))
             | Inl (Panic m) \<Rightarrow> Inl (TaskPanic m) | Inl Diverge \<Rightarrow> Inl TaskDiverges, ew'))
            (witness ew (h256_of_bytes b))) \<and>
   (length b = 32 \<longrightarrow> as_bytes (h256_of_bytes b) = b)"
proof -
  have len: "as_bytes (h256_of_bytes b) = b" if "length b = 32"
    using that by (simp add: h256_of_bytes_inverse)
  then have "h256_from_slice b = Some (h256_of_bytes b)" if "length b = 32"
    using that by (simp add: h256_from_slice_Some)
  then show ?thesis
    using len by (auto simp: grpc_witness_event_def split: prod.splits sum.splits failure.splits)
qed

theorem grpc_witness_event_exact_witness:
  "grpc_witness_event (\<lambda>w e. (Inl (Err NotAValidator), w)) () (replicate 31 0) =
     (Inl (Status (invalid_argument ''invalid event_id length (expected 32 bytes)'')), ()) \<and>
   grpc_witness_event (\<lambda>w e. (Inl (Err NotAValidator), w)) () (replicate 32 0) =
     (Inl (Status (aborted ''Not a validator'')), ())"
  unfolding grpc_witness_event_exact [THEN conjunct1] by simp

end
