(* ===== verification/Pallet_Mock.thy ===== *)
theory Pallet_Mock
  imports Runtime
begin

text \<open>
  The mock runtime of the pallet's tests (\<open>src/pallet/src/mock.rs\<close>): its keystore and the list of key pairs,
  which are static variables and grow as tests ask for more keys, the authorities made of them, and the
  proofs of an event by the first \<open>n\<close> of them. The keystore is a parameter with \<open>test_keystore_laws\<close>: while
  it holds fewer than 65536 keys a generated key is new, and a key it holds signs. The test of the threshold in \<open>tests.rs\<close> runs for five
  numbers of authorities; \<open>target_boundary\<close> is its generalisation to all numbers the mock runtime allows.
\<close>

section \<open>Keys\<close>

record 'ks test_keystore =
  sr25519_generate_new :: "'ks \<Rightarrow> (string + public) \<times> 'ks"
  tk_sign_with :: "'ks \<Rightarrow> public \<Rightarrow> bytes \<Rightarrow> string + bytes option"
  tk_keys :: "'ks \<Rightarrow> public set"

definition test_keystore_laws :: "sr25519 \<Rightarrow> 'ks test_keystore \<Rightarrow> bool" where
  "test_keystore_laws sr ops \<longleftrightarrow>
     (\<forall>ks r ks'. sr25519_generate_new ops ks = (r, ks') \<and> finite (tk_keys ops ks) \<and> card (tk_keys ops ks) < 65536 \<longrightarrow>
        (\<exists>k. r = Inr k \<and> length (public_bytes k) = 32 \<and> k \<notin> tk_keys ops ks \<and>
           tk_keys ops ks' = insert k (tk_keys ops ks))) \<and>
     (\<forall>ks k e. k \<in> tk_keys ops ks \<longrightarrow>
        (\<exists>b g. tk_sign_with ops ks k (as_bytes e) = Inr (Some b) \<and> signature_from_slice sr b = Some g \<and>
           sr_verify sr k (as_bytes e) g))"

definition MOCK_MAX_AUTHORITIES :: u32 where
  "MOCK_MAX_AUTHORITIES = 32"

definition AUTHORITIES_COUNT :: u16 where
  "AUTHORITIES_COUNT = 4"

text \<open>
  The static variables \<open>KEYSTORE\<close> and \<open>PAIRS\<close>.
\<close>

record 'ks mock =
  mk_keystore :: 'ks
  mk_pairs :: "public list"

fun push_pairs :: "'ks test_keystore \<Rightarrow> nat \<Rightarrow> 'ks mock \<Rightarrow> unit vs_result \<times> 'ks mock" where
  "push_pairs ops 0 m = (Inr (), m)"
| "push_pairs ops (Suc n) m =
     (case sr25519_generate_new ops (mk_keystore m) of
        (Inl e, ks) \<Rightarrow> (Inl (Panic e), m\<lparr>mk_keystore := ks\<rparr>)
      | (Inr key, ks) \<Rightarrow> push_pairs ops n (m\<lparr>mk_keystore := ks, mk_pairs := mk_pairs m @ [key]\<rparr>))"

definition get_pairs :: "'ks test_keystore \<Rightarrow> 'ks mock \<Rightarrow> u16 \<Rightarrow> public list vs_result \<times> 'ks mock" where
  "get_pairs ops m count =
     (case push_pairs ops (unat count - length (mk_pairs m)) m of
        (r, m') \<Rightarrow> (and_then r (\<lambda>_. Inr (take (unat count) (mk_pairs m'))), m'))"

section \<open>Authorities and proofs\<close>

text \<open>
  \<open>authorities\<close> of the pallet's configuration, the ids being the raw keys; more than the bound panic.
\<close>

definition mock_authorities :: "'ks test_keystore \<Rightarrow> 'ks mock \<Rightarrow> u16 \<Rightarrow> bytes list vs_result \<times> 'ks mock" where
  "mock_authorities ops m authorities_count =
     (case get_pairs ops m authorities_count of
        (r, m') \<Rightarrow>
          (and_then r (\<lambda>pairs.
             if list_all (\<lambda>pair. length (public_bytes pair) = 32) pairs
             then if length pairs \<le> unat MOCK_MAX_AUTHORITIES then Inr (map public_bytes pairs)
                  else Inl (Panic ''called `Result::unwrap()` on an `Err` value'')
             else Inl (Panic ''called `Result::unwrap()` on an `Err` value: ()'')), m'))"

fun sign_pairs ::
    "sr25519 \<Rightarrow> 'ks test_keystore \<Rightarrow> 'ks \<Rightarrow> h256 \<Rightarrow> public list \<Rightarrow> (public \<times> sr_signature) list vs_result" where
  "sign_pairs sr ops ks event_id [] = Inr []"
| "sign_pairs sr ops ks event_id (key # keys) =
     and_then (unwrap (tk_sign_with ops ks key (as_bytes event_id))) (\<lambda>s.
       (case Option.bind s (signature_from_slice sr) of
          None \<Rightarrow> Inl (Panic ''called `unwrap()` on a `None` or `Err` value'')
        | Some signature \<Rightarrow>
            and_then (sign_pairs sr ops ks event_id keys) (\<lambda>rest. Inr ((key, signature) # rest))))"

definition proofs_n ::
    "sr25519 \<Rightarrow> 'ks test_keystore \<Rightarrow> (btree_proofs \<Rightarrow> btree_proofs option) \<Rightarrow> 'ks mock \<Rightarrow> h256 \<Rightarrow> u16
      \<Rightarrow> btree_proofs vs_result \<times> 'ks mock" where
  "proofs_n sr ops try_into m event_id count =
     (case get_pairs ops m count of
        (r, m') \<Rightarrow>
          (and_then r (\<lambda>pairs.
             and_then (sign_pairs sr ops (mk_keystore m') event_id pairs) (\<lambda>kvs.
               (case try_into (hm_collect kvs) of
                  None \<Rightarrow> Inl (Panic ''called `Result::unwrap()` on an `Err` value'')
                | Some proofs \<Rightarrow> Inr proofs))), m'))"

definition mock_proofs ::
    "sr25519 \<Rightarrow> 'ks test_keystore \<Rightarrow> (btree_proofs \<Rightarrow> btree_proofs option) \<Rightarrow> 'ks mock \<Rightarrow> u16 \<Rightarrow> h256
      \<Rightarrow> btree_proofs vs_result \<times> 'ks mock" where
  "mock_proofs sr ops try_into m authorities_count event_id =
     proofs_n sr ops try_into m event_id authorities_count"

section \<open>Lemmas\<close>

text \<open>
  What holds between tests: the pairs are different keys of the keystore, which has room for \<open>n\<close> more.
\<close>

definition mock_ok :: "'ks test_keystore \<Rightarrow> nat \<Rightarrow> 'ks mock \<Rightarrow> bool" where
  "mock_ok ops n m \<longleftrightarrow> finite (tk_keys ops (mk_keystore m)) \<and> card (tk_keys ops (mk_keystore m)) + n \<le> 65536 \<and> distinct (mk_pairs m) \<and> set (mk_pairs m) \<subseteq> tk_keys ops (mk_keystore m) \<and>
     (\<forall>k \<in> set (mk_pairs m). length (public_bytes k) = 32)"

lemma push_pairs_ok:
  assumes "test_keystore_laws sr ops" and "mock_ok ops (n + i) m"
  shows "\<exists>m' new. push_pairs ops n m = (Inr (), m') \<and> mock_ok ops i m' \<and> mk_pairs m' = mk_pairs m @ new \<and> length new = n"
  using assms(2)
proof (induction n arbitrary: m)
  case (Suc n)
  obtain r ks where g: "sr25519_generate_new ops (mk_keystore m) = (r, ks)"
    by (cases "sr25519_generate_new ops (mk_keystore m)")
  have room: "finite (tk_keys ops (mk_keystore m))" "card (tk_keys ops (mk_keystore m)) < 65536"
    using Suc.prems by (simp_all add: mock_ok_def)
  then obtain k where k: "r = Inr k" "length (public_bytes k) = 32" "k \<notin> tk_keys ops (mk_keystore m)"
    "tk_keys ops ks = insert k (tk_keys ops (mk_keystore m))"
    using assms(1) g unfolding test_keystore_laws_def by blast
  let ?m = "m\<lparr>mk_keystore := ks, mk_pairs := mk_pairs m @ [k]\<rparr>"
  have "mock_ok ops (n + i) ?m" using Suc.prems k room by (auto simp: mock_ok_def)
  from Suc.IH [OF this] obtain m' new where "push_pairs ops n ?m = (Inr (), m')" "mock_ok ops i m'"
    "mk_pairs m' = mk_pairs m @ k # new" "length new = n"
    by auto
  then show ?case using g k(1) by (intro exI [of _ m'] exI [of _ "k # new"]) simp
qed simp

lemma mock_ok_less: "mock_ok ops n m \<Longrightarrow> i \<le> n \<Longrightarrow> mock_ok ops i m"
  by (simp add: mock_ok_def)

lemma get_pairs_ok:
  assumes "test_keystore_laws sr ops" and "mock_ok ops (32 + i) m" and "unat count \<le> 32"
  obtains m' new where "get_pairs ops m count = (Inr (take (unat count) (mk_pairs m')), m')" and "mock_ok ops i m'"
    and "mk_pairs m' = mk_pairs m @ new" and "unat count \<le> length (mk_pairs m')"
proof -
  have "unat count - length (mk_pairs m) + i \<le> 32 + i" using assms(3) by simp
  then obtain m' new where "push_pairs ops (unat count - length (mk_pairs m)) m = (Inr (), m')" "mock_ok ops i m'"
    "mk_pairs m' = mk_pairs m @ new" "length new = unat count - length (mk_pairs m)"
    using push_pairs_ok [OF assms(1) mock_ok_less [OF assms(2)], of "unat count - length (mk_pairs m)" i] by blast
  then show ?thesis by (intro that [of m' new]) (simp_all add: get_pairs_def)
qed

lemma mock_authorities_ok:
  assumes "test_keystore_laws sr ops" and "mock_ok ops (32 + i) m" and "unat count \<le> 32"
  obtains m' new where "mock_authorities ops m count = (Inr (map public_bytes (take (unat count) (mk_pairs m'))), m')"
    and "mock_ok ops i m'" and "mk_pairs m' = mk_pairs m @ new" and "unat count \<le> length (mk_pairs m')"
proof -
  obtain m' new where g: "get_pairs ops m count = (Inr (take (unat count) (mk_pairs m')), m')" "mock_ok ops i m'"
    "mk_pairs m' = mk_pairs m @ new" "unat count \<le> length (mk_pairs m')"
    by (rule get_pairs_ok [OF assms])
  have "list_all (\<lambda>pair. length (public_bytes pair) = 32) (take (unat count) (mk_pairs m'))"
    using g(2) by (auto simp: mock_ok_def list_all_iff dest: in_set_takeD)
  then show ?thesis
    using g assms(3) by (intro that [of m' new]) (simp_all add: mock_authorities_def MOCK_MAX_AUTHORITIES_def)
qed

lemma sign_pairs_ok:
  assumes "test_keystore_laws sr ops" and "set keys \<subseteq> tk_keys ops ks"
  shows "\<exists>g. sign_pairs sr ops ks e keys = Inr (map (\<lambda>k. (k, g k)) keys) \<and>
    (\<forall>k \<in> set keys. sr_verify sr k (as_bytes e) (g k))"
proof -
  have "\<forall>k \<in> set keys. \<exists>b g. tk_sign_with ops ks k (as_bytes e) = Inr (Some b) \<and> signature_from_slice sr b = Some g \<and>
      sr_verify sr k (as_bytes e) g"
    using assms unfolding test_keystore_laws_def by blast
  then obtain b g where bg: "\<And>k. k \<in> set keys \<Longrightarrow> tk_sign_with ops ks k (as_bytes e) = Inr (Some (b k)) \<and>
      signature_from_slice sr (b k) = Some (g k) \<and> sr_verify sr k (as_bytes e) (g k)"
    by metis
  have "sign_pairs sr ops ks e ks' = Inr (map (\<lambda>k. (k, g k)) ks')" if "set ks' \<subseteq> set keys" for ks'
    using that bg by (induction ks') auto
  then show ?thesis using bg by blast
qed

lemma proofs_of_pairs:
  assumes laws: "test_keystore_laws sr ops" and bound: "bounded_laws MOCK_MAX_AUTHORITIES try_into"
    and pairs: "get_pairs ops m count = (Inr (take (unat count) (mk_pairs m')), m')" "mock_ok ops i m'"
    and count: "unat count \<le> length (mk_pairs m')" "unat count \<le> 32"
  obtains ps where "proofs_n sr ops try_into m e count = (Inr ps, m')"
    and "fset (fmdom ps) = set (take (unat count) (mk_pairs m'))" and "hm_len ps = unat count"
    and "\<And>k g. fmlookup ps k = Some g \<Longrightarrow> sr_verify sr k (as_bytes e) g"
proof -
  let ?keys = "take (unat count) (mk_pairs m')"
  have "set ?keys \<subseteq> tk_keys ops (mk_keystore m')" using pairs(2) by (auto simp: mock_ok_def dest: in_set_takeD)
  then obtain sg where sg: "sign_pairs sr ops (mk_keystore m') e ?keys = Inr (map (\<lambda>k. (k, sg k)) ?keys)"
    "\<forall>k \<in> set ?keys. sr_verify sr k (as_bytes e) (sg k)"
    using sign_pairs_ok [OF laws] by blast
  let ?ps = "hm_collect (map (\<lambda>k. (k, sg k)) ?keys)"
  have lk: "fmlookup ?ps k = (if k \<in> set ?keys then Some (sg k) else None)" for k
    by (simp add: fmlookup_hm_collect rev_map map_of_map_restrict)
  have dom: "fset (fmdom ?ps) = set ?keys" using lk by (auto simp: fset_fmdom)
  have "card (set ?keys) = unat count" using pairs(2) count(1) by (subst distinct_card) (auto simp: mock_ok_def)
  then have len: "hm_len ?ps = unat count" by (simp add: hm_len_card dom)
  have "try_into ?ps = Some ?ps" using bound len count(2) by (simp add: bounded_laws_def MOCK_MAX_AUTHORITIES_def)
  then have "proofs_n sr ops try_into m e count = (Inr ?ps, m')" using pairs(1) sg(1) by (simp add: proofs_n_def)
  then show ?thesis using dom len lk sg(2) by (intro that [of ?ps]) (auto split: if_splits)
qed

lemma proofs_n_ok:
  assumes laws: "test_keystore_laws sr ops" and bound: "bounded_laws MOCK_MAX_AUTHORITIES try_into"
    and m: "mock_ok ops (32 + i) m" and count: "unat count \<le> 32"
  obtains ps m' new where "proofs_n sr ops try_into m e count = (Inr ps, m')"
    and "mock_ok ops i m'" and "mk_pairs m' = mk_pairs m @ new" and "unat count \<le> length (mk_pairs m')"
    and "fset (fmdom ps) = set (take (unat count) (mk_pairs m'))" and "hm_len ps = unat count"
    and "\<And>k g. fmlookup ps k = Some g \<Longrightarrow> sr_verify sr k (as_bytes e) g"
proof -
  obtain m' new where g: "get_pairs ops m count = (Inr (take (unat count) (mk_pairs m')), m')" "mock_ok ops i m'"
    "mk_pairs m' = mk_pairs m @ new" "unat count \<le> length (mk_pairs m')"
    by (rule get_pairs_ok [OF laws m count])
  obtain ps where "proofs_n sr ops try_into m e count = (Inr ps, m')"
    "fset (fmdom ps) = set (take (unat count) (mk_pairs m'))" "hm_len ps = unat count"
    "\<And>k g. fmlookup ps k = Some g \<Longrightarrow> sr_verify sr k (as_bytes e) g"
    by (rule proofs_of_pairs [OF laws bound g(1,2,4) count, of e]) blast
  then show ?thesis using g(2-4) by (intro that [of ps m' new])
qed

text \<open>
  The calls of the test of the threshold: the proofs of too few authorities, the authorities, the proofs of
  enough of them, and the authorities again.
\<close>

lemma mock_authorities_again:
  assumes "mock_authorities ops m count = (Inr ids, m')" and "unat count \<le> length (mk_pairs m')"
    and "mk_pairs m'' = mk_pairs m' @ new"
  shows "mock_authorities ops m'' count = (Inr ids, m'')"
proof -
  have "get_pairs ops m'' count = (Inr (take (unat count) (mk_pairs m')), m'')"
    using assms(2,3) by (simp add: get_pairs_def)
  moreover obtain r where "push_pairs ops (unat count - length (mk_pairs m)) m = (r, m')"
    using assms(1) by (auto simp: mock_authorities_def get_pairs_def split: prod.splits)
  then have "get_pairs ops m count = (and_then r (\<lambda>_. Inr (take (unat count) (mk_pairs m'))), m')"
    by (simp add: get_pairs_def)
  ultimately show ?thesis using assms(1) by (auto simp: mock_authorities_def and_then_eq_Inr)
qed

lemma mock_boundary:
  assumes "test_keystore_laws sr ops" and "bounded_laws MOCK_MAX_AUTHORITIES try_into" and "mock_ok ops 96 m"
    and "0 < unat count" and "unat count \<le> 32" and "unat tgt = unat count * 2 div 3 + 1"
  obtains few m1 ids m2 enough m3 where "proofs_n sr ops try_into m e (tgt - 1) = (Inr few, m1)"
    and "mock_authorities ops m1 count = (Inr ids, m2)" and "proofs_n sr ops try_into m2 e tgt = (Inr enough, m3)"
    and "mock_authorities ops m3 count = (Inr ids, m3)"
    and "\<forall>pallet. fmlookup (on_streams pallet) e = None \<longrightarrow>
      validate_event_onchain fs sr id ids pallet e (Some few) = (Inl (DispatchErr NotEnoughProofs), pallet) \<and>
      fst (validate_event_onchain fs sr id ids pallet e (Some enough)) = Inr ()"
proof -
  have "tgt \<noteq> 0" using assms(6) by auto
  then have tgt: "unat tgt \<le> unat count" "unat (tgt - 1) = unat count * 2 div 3"
    using assms(4,6) by (simp_all add: unat_minus_one)
  have le: "unat (tgt - 1) \<le> 32" "unat tgt \<le> 32" and m: "mock_ok ops (32 + 64) m" using tgt assms(3-6) by simp_all
  obtain few m1 n1 where few: "proofs_n sr ops try_into m e (tgt - 1) = (Inr few, m1)" "mock_ok ops 64 m1"
    "mk_pairs m1 = mk_pairs m @ n1" "unat (tgt - 1) \<le> length (mk_pairs m1)"
    "fset (fmdom few) = set (take (unat (tgt - 1)) (mk_pairs m1))" "hm_len few = unat (tgt - 1)"
    "\<And>k g. fmlookup few k = Some g \<Longrightarrow> sr_verify sr k (as_bytes e) g"
    by (rule proofs_n_ok [OF assms(1,2) m le(1), of e]) blast
  obtain m2 n2 where ids: "mock_authorities ops m1 count = (Inr (map public_bytes (take (unat count) (mk_pairs m2))), m2)"
    "mock_ok ops 32 m2" "mk_pairs m2 = mk_pairs m1 @ n2" "unat count \<le> length (mk_pairs m2)"
    by (rule mock_authorities_ok [where i = 32, OF assms(1) _ assms(5), of m1]) (use few(2) in simp_all)
  obtain enough m3 n3 where enough: "proofs_n sr ops try_into m2 e tgt = (Inr enough, m3)" "mk_pairs m3 = mk_pairs m2 @ n3"
    "fset (fmdom enough) = set (take (unat tgt) (mk_pairs m3))" "hm_len enough = unat tgt"
    "\<And>k g. fmlookup enough k = Some g \<Longrightarrow> sr_verify sr k (as_bytes e) g"
    by (rule proofs_n_ok [where i = 0, OF assms(1,2) _ le(2), of m2 e]) (use ids(2) in simp_all)
  let ?auths = "take (unat count) (mk_pairs m2)"
  have raw: "raw_authorities id (map public_bytes ?auths) = Some ?auths"
    using ids(2) raw_authorities_map [of "map public_bytes ?auths" id]
    by (auto simp: mock_ok_def o_def dest: in_set_takeD)
  have n: "length ?auths = unat count" using ids(4) by simp
  have sub: "fset (fmdom few) \<subseteq> set ?auths" "fset (fmdom enough) \<subseteq> set ?auths"
    using few(3-5) ids(3,4) enough(2,3) tgt set_take_subset_set_take [of "unat tgt" "unat count" "mk_pairs m2"]
      set_take_subset_set_take [of "unat (tgt - 1)" "unat count" "mk_pairs m2"]
    by auto
  note run = validate_event_onchain_counted [where fs = fs and sr = sr, OF raw]
  have "validate_event_onchain fs sr id (map public_bytes ?auths) pallet e (Some few) = (Inl (DispatchErr NotEnoughProofs), pallet) \<and>
      fst (validate_event_onchain fs sr id (map public_bytes ?auths) pallet e (Some enough)) = Inr ()"
    if "fmlookup (on_streams pallet) e = None" for pallet
    using run [OF _ that sub(1) few(7)] run [OF _ that sub(2) enough(5)] few(6) enough(4) tgt(2) assms(5,6) n by simp
  then show ?thesis
    by (intro that [OF few(1) ids(1) enough(1) mock_authorities_again [OF ids(1,4) enough(2)]]) blast
qed

end
