(* ===== verification/Pallet_Properties.thy ===== *)
theory Pallet_Properties
  imports Instances Pallet_Mock
begin

text \<open>
  The properties of the pallet in its two builds and of the runtime calls around it.
\<close>

section \<open>The build with on-chain proofs\<close>

text \<open>
  C13. \<open>validate_event\<close> with on-chain proofs succeeds exactly if the event is new and the proofs given are
  correct signatures by authorities, of more than two thirds of them; it then records the event with
  its proofs and deposits \<open>ValidatedEvent\<close>, and does nothing else.
\<close>

theorem onchain_validate_exact:
  assumes "length ids < 65536"
  shows "validate_event_onchain fs sr to_raw ids self e ps = (Inr (), self') \<longleftrightarrow>
    (\<exists>auths proofs. raw_authorities to_raw ids = Some auths \<and> ps = Some proofs \<and>
      fmlookup (on_streams self) e = None \<and>
      fset (fmdom proofs) \<subseteq> set auths \<and>
      (\<forall>k g. fmlookup proofs k = Some g \<longrightarrow> sr_verify sr k (as_bytes e) g) \<and>
      length auths * 2 div 3 + 1 \<le> card (fset (fmdom proofs)) \<and>
      self' = self\<lparr>on_streams := fmupd e proofs (on_streams self),
        on_system := fs_deposit_event fs (on_system self) (ValidatedEvent e)\<rparr>)"
  unfolding validate_event_onchain_Ok [OF assms] backed_def hm_len_card by auto

definition ref_system :: "pallet_event list frame_system" where
  "ref_system = \<lparr>fs_block_number = (\<lambda>evs. 7), fs_deposit_event = (\<lambda>evs ev. evs @ [ev])\<rparr>"

definition one_proof :: "u8 \<Rightarrow> h256 \<Rightarrow> btree_proofs" where
  "one_proof b e = fmupd (Public (key_of b)) (Signature (key_of b @ as_bytes e)) fmempty"

definition empty_onchain :: "pallet_event list onchain_pallet" where
  "empty_onchain = \<lparr>on_streams = fmempty, on_system = []\<rparr>"

definition one_validated :: "pallet_event list onchain_pallet" where
  "one_validated = \<lparr>on_streams = fmupd event_a (one_proof 1 event_a) fmempty, on_system = [ValidatedEvent event_a]\<rparr>"

lemma key_of_raw: "raw_authorities id [key_of 1] = Some [Public (key_of 1)]"
proof -
  have "h256_from_slice (key_of 1) = Some (h256_of_bytes (key_of 1))" and "as_bytes (h256_of_bytes (key_of 1)) = key_of 1"
    by (simp_all add: h256_from_slice_Some h256_of_bytes_inverse)
  then show ?thesis by simp
qed

lemma one_proof_backed: "backed (ref_sr25519 (\<lambda>_ _. True)) [Public (key_of 1)] event_a (one_proof 1 event_a)"
  by (auto simp: backed_def one_proof_def ref_sr25519_def hm_len_card split: if_splits)

lemma one_event_validated:
  "validate_event_onchain ref_system (ref_sr25519 (\<lambda>_ _. True)) id [key_of 1] empty_onchain event_a
     (Some (one_proof 1 event_a)) = (Inr (), one_validated)"
  using validate_event_onchain_Ok [of "[key_of 1]" ref_system "ref_sr25519 (\<lambda>_ _. True)" id empty_onchain event_a
      "Some (one_proof 1 event_a)" one_validated] key_of_raw one_proof_backed
  by (simp add: empty_onchain_def one_validated_def ref_system_def)

theorem onchain_validate_exact_witness:
  "validate_event_onchain ref_system (ref_sr25519 (\<lambda>_ _. True)) id [key_of 1] empty_onchain event_a
     (Some (one_proof 1 event_a)) = (Inr (), one_validated) \<and>
   validate_event_onchain ref_system (ref_sr25519 (\<lambda>_ _. True)) id [key_of 1] empty_onchain event_a
     (Some (one_proof 2 event_a)) \<noteq> (Inr (), one_validated)"
proof -
  note ex = onchain_validate_exact [of "[key_of 1]" ref_system "ref_sr25519 (\<lambda>_ _. True)" id empty_onchain event_a
      "Some (one_proof 2 event_a)" one_validated]
  show ?thesis using ex one_event_validated key_of_raw by (auto simp: one_proof_def)
qed

text \<open>
  C19. Every event on the chain is backed by a quorum, in every state. After any sequence of calls of
  \<open>validate_event\<close> on a chain that starts without events, whatever their arguments, each recorded event has
  recorded proofs that are correct signatures of it by more than two thirds of the authorities.
\<close>

theorem onchain_events_backed:
  assumes "length ids < 65536"
    and "dispatch_all (validate_event_onchain fs sr to_raw ids) \<lparr>on_streams = fmempty, on_system = sys\<rparr> cs = (rs, s')"
    and "fmlookup (on_streams s') e = Some ps"
  shows "\<exists>auths. raw_authorities to_raw ids = Some auths \<and> backed sr auths e ps"
proof (cases "raw_authorities to_raw ids")
  case (Some auths)
  have "all_backed sr auths \<lparr>on_streams = fmempty, on_system = sys\<rparr>" by (simp add: all_backed_def)
  from all_backed_run [OF assms(1) Some this assms(2)] show ?thesis
    using Some assms(3) by (simp add: all_backed_def)
next
  case None
  have "is_event_valid_onchain s' e" using assms(3) by (simp add: is_event_valid_onchain_def)
  then have "(e, Inr ()) \<in> set rs"
    using on.run_valid [OF assms(2), of e] by (simp add: is_event_valid_onchain_def)
  moreover have "(e', Inr ()) \<notin> set rs'"
    if "dispatch_all (validate_event_onchain fs sr to_raw ids) s cs' = (rs', s'')" for s cs' rs' s'' e'
    using that
    by (induction cs' arbitrary: s rs') (auto simp: validate_event_onchain_def None split: prod.splits)
  ultimately show ?thesis using assms(2) by blast
qed

theorem onchain_events_backed_witness:
  "\<exists>auths. raw_authorities id [key_of 1] = Some auths \<and>
    backed (ref_sr25519 (\<lambda>_ _. True)) auths event_a (one_proof 1 event_a)"
proof -
  have "dispatch_all (validate_event_onchain ref_system (ref_sr25519 (\<lambda>_ _. True)) id [key_of 1])
      \<lparr>on_streams = fmempty, on_system = []\<rparr> [(event_a, Some (one_proof 1 event_a))] =
      ([(event_a, Inr ())], one_validated)"
    using one_event_validated by (simp add: empty_onchain_def)
  from onchain_events_backed [OF _ this, of event_a] show ?thesis by (simp add: one_validated_def)
qed

text \<open>
  C20. Two events that no honest authority signs both of are never both on the chain, when at most a
  third of the authorities are not honest.
\<close>

theorem onchain_no_conflict:
  assumes "length ids < 65536" and "raw_authorities to_raw ids = Some auths" and "distinct auths"
    and "dispatch_all (validate_event_onchain fs sr to_raw ids) \<lparr>on_streams = fmempty, on_system = sys\<rparr> cs = (rs, s')"
    and "finite faulty" and "3 * card faulty \<le> length auths"
    and "\<forall>k g h. k \<in> set auths - faulty \<longrightarrow> \<not> (sr_verify sr k (as_bytes a) g \<and> sr_verify sr k (as_bytes b) h)"
  shows "\<not> (is_event_valid_onchain s' a \<and> is_event_valid_onchain s' b)"
proof
  assume "is_event_valid_onchain s' a \<and> is_event_valid_onchain s' b"
  then obtain pa pb where p: "fmlookup (on_streams s') a = Some pa" "fmlookup (on_streams s') b = Some pb"
    by (auto simp: is_event_valid_onchain_def)
  have "all_backed sr auths \<lparr>on_streams = fmempty, on_system = sys\<rparr>" by (simp add: all_backed_def)
  from all_backed_run [OF assms(1,2) this assms(4)] p
  have ba: "backed sr auths a pa" and bb: "backed sr auths b pb" by (simp_all add: all_backed_def)
  have "3 * card faulty \<le> card (set auths)" using assms(3,6) by (simp add: distinct_card)
  from pq.honest_in_both [OF backed_quorum [OF assms(3) ba] backed_quorum [OF assms(3) bb] assms(5) this]
  obtain k where "k \<in> fset (fmdom pa)" "k \<in> fset (fmdom pb)" "k \<notin> faulty" by blast
  moreover have "k \<in> set auths" using ba \<open>k \<in> fset (fmdom pa)\<close> by (auto simp: backed_def)
  moreover obtain g h where "fmlookup pa k = Some g" and "fmlookup pb k = Some h"
    using calculation(1,2) by (auto simp: fset_fmdom)
  then have "sr_verify sr k (as_bytes a) g" and "sr_verify sr k (as_bytes b) h"
    using ba bb by (simp_all add: backed_def)
  ultimately show False using assms(7) by blast
qed

theorem onchain_no_conflict_witness:
  "\<not> (is_event_valid_onchain one_validated event_a \<and> is_event_valid_onchain one_validated event_b)"
proof -
  let ?sr = "ref_sr25519 (\<lambda>k m. m = as_bytes event_a)"
  have "backed ?sr [Public (key_of 1)] event_a (one_proof 1 event_a)"
    by (auto simp: backed_def one_proof_def ref_sr25519_def hm_len_card split: if_splits)
  then have "validate_event_onchain ref_system ?sr id [key_of 1] empty_onchain event_a (Some (one_proof 1 event_a)) =
      (Inr (), one_validated)"
    using validate_event_onchain_Ok [of "[key_of 1]" ref_system ?sr id empty_onchain event_a
      "Some (one_proof 1 event_a)" one_validated] key_of_raw
    by (simp add: empty_onchain_def one_validated_def ref_system_def)
  then have run: "dispatch_all (validate_event_onchain ref_system ?sr id [key_of 1])
      \<lparr>on_streams = fmempty, on_system = []\<rparr> [(event_a, Some (one_proof 1 event_a))] =
      ([(event_a, Inr ())], one_validated)"
    by (simp add: empty_onchain_def)
  show ?thesis
    by (rule onchain_no_conflict [OF _ key_of_raw _ run, of "{}"]) (simp_all add: ref_sr25519_def)
qed

section \<open>Both builds\<close>

text \<open>
  In the build with off-chain proofs no event is validated twice, and nothing else makes an event
  valid. Over any sequence of calls, each event is reported \<open>Ok\<close> at most once, and not at all if it was
  valid before; the events valid afterwards are exactly those valid before and those reported \<open>Ok\<close>.
\<close>

theorem offchain_validated_once:
  assumes "dispatch_all (validate_event_offchain fs) s cs = (rs, s')"
  shows "length (filter (\<lambda>x. x = (e, Inr ())) rs) \<le> (if is_event_valid_offchain s e then 0 else 1) \<and>
    (is_event_valid_offchain s' e \<longleftrightarrow> is_event_valid_offchain s e \<or> (e, Inr ()) \<in> set rs)"
  using off.run_once [OF assms, of e] off.run_valid [OF assms, of e] by blast

definition empty_offchain :: "pallet_event list offchain_pallet" where
  "empty_offchain = \<lparr>streams = fmempty, off_system = []\<rparr>"

text \<open>
  Validating \<open>event_a\<close> twice, for the examples.
\<close>

definition after_twice :: "pallet_event list offchain_pallet" where
  "after_twice = \<lparr>streams = fmupd event_a 7 fmempty, off_system = [ValidatedEvent event_a]\<rparr>"

lemma twice:
  "dispatch_all (validate_event_offchain ref_system) empty_offchain [(event_a, None), (event_a, None)] =
     ([(event_a, Inr ()), (event_a, Inl (DispatchErr AlreadyValidated))], after_twice)"
  by (simp add: validate_event_offchain_def empty_offchain_def after_twice_def ref_system_def Let_def)

theorem offchain_validated_once_witness:
  "length (filter (\<lambda>x. x = (event_a, Inr ()))
     [(event_a, Inr ()), (event_a, Inl (DispatchErr AlreadyValidated))]) \<le> (1 :: nat) \<and>
   is_event_valid_offchain after_twice event_a"
  using offchain_validated_once [OF twice, of event_a] by (simp split: if_splits)

text \<open>
  An event validated once never comes back through the transaction pool: after a successful
  \<open>validate_event\<close> (here with on-chain proofs) and any calls after it, \<open>validate_unsigned\<close> refuses every
  further transaction for the event as stale. Transactions from other nodes are refused always.
\<close>

theorem validated_event_stale:
  assumes "validate_event_onchain fs sr to_raw ids s e p = (Inr (), s1)"
    and "dispatch_all (validate_event_onchain fs sr to_raw ids) s1 cs = (rs, s2)"
  shows "validate_unsigned is_event_valid_onchain s2 Local (validate_event_call e proofs) = Inl InvalidStale \<and>
    validate_unsigned is_event_valid_onchain s2 InBlock (validate_event_call e proofs) = Inl InvalidStale \<and>
    validate_unsigned is_event_valid_onchain s2 External call = Inl InvalidCall"
  using on.stale_after [OF assms, where source = Local] on.stale_after [OF assms, where source = InBlock]
  by (simp add: validate_unsigned_def)

theorem validated_event_stale_witness:
  "validate_unsigned is_event_valid_onchain one_validated Local (validate_event_call event_a None) = Inl InvalidStale"
  using validated_event_stale [OF one_event_validated dispatch_all.simps(1)] by blast

section \<open>Events per block\<close>

text \<open>
  Depositing an event does not change the block number.
\<close>

definition same_block :: "'sys frame_system \<Rightarrow> bool" where
  "same_block fs \<longleftrightarrow> (\<forall>sys ev. fs_block_number fs (fs_deposit_event fs sys ev) = fs_block_number fs sys)"

lemma set_get_block_events:
  assumes "storage_iter_laws iter"
  shows "set (get_block_events iter s n) = {e. fmlookup (streams s) e = Some n}"
    and "distinct (get_block_events iter s n)"
proof -
  have d: "distinct (map fst (iter (streams s)))" and m: "map_of (iter (streams s)) = fmlookup (streams s)"
    using assms unfolding storage_iter_laws_def by blast+
  have "(e, n) \<in> set (iter (streams s)) \<longleftrightarrow> fmlookup (streams s) e = Some n" for e
    using m map_of_eq_Some_iff [OF d] by metis
  then show "set (get_block_events iter s n) = {e. fmlookup (streams s) e = Some n}"
    by (force simp: get_block_events_def)
  show "distinct (get_block_events iter s n)"
    using d unfolding get_block_events_def by (rule distinct_map_filter)
qed

lemma offchain_run_streams:
  assumes "same_block fs" and "dispatch_all (validate_event_offchain fs) s cs = (rs, s')"
  shows "fmlookup (streams s') e =
    (if (e, Inr ()) \<in> set rs then Some (fs_block_number fs (off_system s)) else fmlookup (streams s) e) \<and>
    fs_block_number fs (off_system s') = fs_block_number fs (off_system s)"
  using assms(2)
proof (induction cs arbitrary: s rs)
  case (Cons c cs)
  obtain e1 p where c: "c = (e1, p)" by (cases c)
  obtain r s1 where v: "validate_event_offchain fs s e1 p = (r, s1)" by (cases "validate_event_offchain fs s e1 p")
  obtain rs1 where rs1: "dispatch_all (validate_event_offchain fs) s1 cs = (rs1, s')" and rs: "rs = (e1, r) # rs1"
    using Cons.prems c v by (auto split: prod.splits)
  have once: "(e1, Inr ()) \<notin> set rs1" if "r = Inr ()"
    using off.run_once [OF rs1, of e1] off.ok_marks [OF v [unfolded that], of e1]
    by (auto simp: filter_empty_conv)
  have n: "fs_block_number fs (off_system s1) = fs_block_number fs (off_system s)"
    using v assms(1) by (auto simp: validate_event_offchain_def same_block_def Let_def split: if_splits)
  have l: "fmlookup (streams s1) e = (if e = e1 \<and> r = Inr () then Some (fs_block_number fs (off_system s))
      else fmlookup (streams s) e)"
    using v by (auto simp: validate_event_offchain_def Let_def split: if_splits)
  show ?case using Cons.IH [OF rs1] n l rs once by (auto split: if_splits)
qed simp

text \<open>
  \<open>get_block_events\<close> lists, without repetition, what was validated in a block. The calls of one block
  add to the events of that block exactly the events they validated, and leave the lists of all other
  blocks as they were.
\<close>

theorem block_events_exact:
  assumes "storage_iter_laws iter" and "same_block fs" and "dispatch_all (validate_event_offchain fs) s cs = (rs, s')"
  shows "distinct (get_block_events iter s' n) \<and>
    set (get_block_events iter s' n) = set (get_block_events iter s n) \<union>
      (if n = fs_block_number fs (off_system s) then {e. (e, Inr ()) \<in> set rs} else {})"
proof -
  have new: "fmlookup (streams s) e = None" if "(e, Inr ()) \<in> set rs" for e
    using off.run_once [OF assms(3), of e] that
    by (auto simp: is_event_valid_offchain_def filter_empty_conv split: if_splits)
  show ?thesis
    using offchain_run_streams [OF assms(2,3)] new
    by (auto simp: set_get_block_events [OF assms(1)] split: if_splits)
qed

theorem block_events_exact_witness:
  "set (get_block_events sorted_list_of_fmap after_twice 7) = {event_a}"
proof -
  have sb: "same_block ref_system" by (simp add: same_block_def ref_system_def)
  have "get_block_events sorted_list_of_fmap empty_offchain 7 = []"
    by (simp add: get_block_events_def empty_offchain_def sorted_list_of_fmap_def sorted_list_of_fset.rep_eq)
  then show ?thesis
    using block_events_exact [OF sorted_iter_laws sb twice, of 7] by (simp add: ref_system_def)
qed

section \<open>Runtime calls\<close>

text \<open>
  Reading back what was put into a block: the identifiers \<open>get_extrinsic_ids\<close> finds in extrinsics made by
  \<open>create_unsigned_extrinsic\<close> are the events they were made for, in order, and in any block body it finds
  exactly the events of the \<open>validate_event\<close> calls in it.
\<close>

theorem extrinsic_ids_roundtrip:
  "get_extrinsic_ids (map (\<lambda>(e, ps). create_unsigned_extrinsic try_into e ps) eps) = map fst eps \<and>
   set (get_extrinsic_ids xs) =
     {e. \<exists>x ps. x \<in> set xs \<and> ux_function x = ValidatedStreams (validate_event_call e ps)}"
  unfolding get_extrinsic_ids_create set_eq_iff mem_get_extrinsic_ids by blast

text \<open>
  More proofs than the runtime's bound of 32 are dropped when the extrinsic is made, without an error;
  the call in it then fails with \<open>NoProofs\<close> in the build with on-chain proofs, whatever the proofs were. Up
  to 32 proofs go through unchanged.
\<close>

theorem oversized_proofs_dropped:
  assumes "bounded_laws VS_MAX_AUTHORITIES try_into" and "raw_authorities to_raw ids \<noteq> None"
    and "ux_function (create_unsigned_extrinsic try_into e (Some proofs)) = ValidatedStreams (validate_event_call e ps)"
  shows "if hm_len proofs \<le> 32 then ps = Some proofs
    else validate_event_onchain fs sr to_raw ids self e ps = (Inl (DispatchErr NoProofs), self)"
proof (cases "hm_len proofs \<le> 32")
  case True
  then show ?thesis
    using assms(3) by (simp add: create_unsigned_extrinsic_proofs [OF assms(1)] VS_MAX_AUTHORITIES_def)
next
  case False
  then have "ps = None"
    using assms(3) by (simp add: create_unsigned_extrinsic_oversized [OF assms(1)] VS_MAX_AUTHORITIES_def)
  then show ?thesis using False assms(2) by (auto simp: validate_event_onchain_def)
qed

theorem oversized_proofs_dropped_witness:
  "\<exists>ps. ux_function (create_unsigned_extrinsic ref_try_into event_a (Some (one_proof 1 event_a)) :: ref_extrinsic) =
      ValidatedStreams (validate_event_call event_a ps) \<and> ps = Some (one_proof 1 event_a)"
proof -
  have "hm_len (one_proof 1 event_a) \<le> 32" by (simp add: one_proof_def hm_len_card)
  then show ?thesis
    using oversized_proofs_dropped [OF ref_try_into_laws, of id "[key_of 1]" event_a "one_proof 1 event_a"] key_of_raw
    by (auto simp: create_unsigned_extrinsic_def Let_def)
qed

section \<open>The mock runtime\<close>

text \<open>
  C24. The threshold of the pallet, as the test \<open>it_computes_target_correctly\<close> has it for five numbers of
  authorities: for each number \<open>n\<close> from 1 to 32, the bound of the mock runtime, a new event with the proofs
  of the first \<open>n * 2 / 3\<close> authorities is refused with \<open>NotEnoughProofs\<close>, and with the proof of one more it
  is validated. None of the calls of the test's helpers panics.
\<close>

theorem target_boundary:
  assumes "test_keystore_laws sr ops" and "bounded_laws MOCK_MAX_AUTHORITIES try_into" and "mock_ok ops 96 m"
    and "0 < unat count" and "unat count \<le> 32" and "unat tgt = unat count * 2 div 3 + 1"
    and "proofs_n sr ops try_into m e (tgt - 1) = (few, m1)"
    and "mock_authorities ops m1 count = (ids, m2)"
    and "proofs_n sr ops try_into m2 e tgt = (enough, m3)"
    and "fmlookup (on_streams pallet) e = None"
  shows "\<exists>few' ids' enough'. few = Inr few' \<and> ids = Inr ids' \<and> enough = Inr enough' \<and>
    validate_event_onchain fs sr id ids' pallet e (Some few') = (Inl (DispatchErr NotEnoughProofs), pallet) \<and>
    fst (validate_event_onchain fs sr id ids' pallet e (Some enough')) = Inr ()"
  by (rule mock_boundary [OF assms(1-6), of e fs]) (use assms(7-10) in auto)

text \<open>
  The example: a keystore whose keys are numbered.
\<close>

definition numbered_key :: "nat \<Rightarrow> public" where
  "numbered_key i = Public (0 # of_nat (i div 256) # of_nat i # replicate 29 0)"

definition numbered_keystore :: "nat test_keystore" where
  "numbered_keystore =
     \<lparr>sr25519_generate_new = (\<lambda>n. (Inr (numbered_key n), Suc n)),
      tk_sign_with = (\<lambda>n k m. Inr (if k \<in> numbered_key ` {..<n} then Some (public_bytes k @ m) else None)),
      tk_keys = (\<lambda>n. numbered_key ` {..<n})\<rparr>"

lemma numbered_key_inj: "inj_on numbered_key {..<65536}"
proof (rule inj_onI)
  fix i j
  assume ij: "i \<in> {..<65536}" "j \<in> {..<65536}" and eq: "numbered_key i = numbered_key j"
  then have "unat (of_nat (i div 256) :: u8) = unat (of_nat (j div 256) :: u8)"
    and "unat (of_nat i :: u8) = unat (of_nat j :: u8)"
    by (simp_all add: numbered_key_def)
  then have "i div 256 mod 256 = j div 256 mod 256" and "i mod 256 = j mod 256" by (simp_all add: unat_of_nat)
  moreover have "i div 256 < 256" "j div 256 < 256" using ij by auto
  ultimately have "i div 256 = j div 256" "i mod 256 = j mod 256" by simp_all
  then show "i = j" by (metis div_mult_mod_eq)
qed

lemma numbered_keystore_laws:
  assumes "\<And>i m. has_signed (public_bytes (numbered_key i)) m"
  shows "test_keystore_laws (ref_sr25519 has_signed) numbered_keystore"
proof -
  have fresh: "numbered_key n \<notin> numbered_key ` {..<n}" if "card (numbered_key ` {..<n}) < 65536" for n
  proof -
    have "n < 65536"
    proof (rule ccontr)
      assume "\<not> n < 65536"
      then have "numbered_key ` {..<65536} \<subseteq> numbered_key ` {..<n}" by auto
      then have "card (numbered_key ` {..<65536}) \<le> card (numbered_key ` {..<n})" by (intro card_mono) auto
      with that show False by (simp add: card_image [OF numbered_key_inj])
    qed
    then show ?thesis using inj_on_image_mem_iff [OF numbered_key_inj, of n "{..<n}"] by auto
  qed
  have len: "length (public_bytes (numbered_key i)) = 32" for i by (simp add: numbered_key_def)
  show ?thesis
    using fresh len assms
    by (auto simp: test_keystore_laws_def numbered_keystore_def ref_sr25519_def lessThan_Suc)
qed

theorem target_boundary_witness:
  "\<exists>few' ids' enough'.
    validate_event_onchain ref_system (ref_sr25519 (\<lambda>_ _. True)) id ids' empty_onchain event_a (Some few') =
      (Inl (DispatchErr NotEnoughProofs), empty_onchain) \<and>
    fst (validate_event_onchain ref_system (ref_sr25519 (\<lambda>_ _. True)) id ids' empty_onchain event_a (Some enough')) = Inr ()"
proof -
  let ?sr = "ref_sr25519 (\<lambda>_ _. True)" and ?m = "\<lparr>mk_keystore = 0, mk_pairs = []\<rparr>"
  have ok: "mock_ok numbered_keystore 96 ?m" by (simp add: mock_ok_def numbered_keystore_def)
  have b: "bounded_laws MOCK_MAX_AUTHORITIES ref_try_into"
    using ref_try_into_laws by (simp add: MOCK_MAX_AUTHORITIES_def VS_MAX_AUTHORITIES_def)
  have t: "0 < unat AUTHORITIES_COUNT" "unat AUTHORITIES_COUNT \<le> 32" "unat (3 :: u16) = unat AUTHORITIES_COUNT * 2 div 3 + 1"
    by (simp_all add: AUTHORITIES_COUNT_def)
  have e: "fmlookup (on_streams empty_onchain) event_a = None" by (simp add: empty_onchain_def)
  from target_boundary [OF numbered_keystore_laws [OF TrueI] b ok t prod.collapse [symmetric] prod.collapse [symmetric]
      prod.collapse [symmetric] e, of ref_system]
  show ?thesis by blast
qed

end
