(* ===== verification/Runtime_Apis.thy ===== *)
theory Runtime_Apis
  imports Runtime
begin

text \<open>
  How the runtime runs blocks: the APIs of \<open>impl_runtime_apis!\<close> (\<open>src/runtime/src/lib.rs\<close>) through which the
  node executes and builds blocks and its pool checks transactions. They forward to FRAME, which is a
  parameter, the record \<open>frame_runtime\<close>. What the streams code relies on of it is \<open>executive_laws\<close>: an
  extrinsic of the pallet runs \<open>validate_event\<close>, an unsigned one only after \<open>validate_unsigned\<close>; a signed one is
  checked by its \<open>SignedExtra\<close>; an accepted call of \<open>pallet_sudo\<close> runs the call it holds; no other extrinsic
  touches the pallet's storage; and executing a block applies its extrinsics in order, all of them
  accepted. The runtime has no other pallet whose calls hold calls.
\<close>

section \<open>FRAME\<close>

record ('rt, 'p, 'hdr, 'inh, 'sig, 'o, 'aid) frame_runtime =
  fr_pallet :: "'rt \<Rightarrow> 'p"
  fr_execute_block :: "'hdr \<Rightarrow> ('sig, 'o) unchecked_extrinsic list \<Rightarrow> 'rt \<Rightarrow> 'rt option"
  fr_initialize_block :: "'hdr \<Rightarrow> 'rt \<Rightarrow> 'rt"
  fr_apply_extrinsic :: "('sig, 'o) unchecked_extrinsic \<Rightarrow> 'rt \<Rightarrow> (invalid_transaction + (string + unit)) \<times> 'rt"
  fr_finalize_block :: "'rt \<Rightarrow> 'hdr \<times> 'rt"
  fr_create_extrinsics :: "'inh \<Rightarrow> 'rt \<Rightarrow> ('sig, 'o) unchecked_extrinsic list"
  fr_check_extrinsics :: "'inh \<Rightarrow> 'hdr \<Rightarrow> ('sig, 'o) unchecked_extrinsic list \<Rightarrow> 'rt \<Rightarrow> string + unit"
  fr_validate_transaction :: "transaction_source \<Rightarrow> ('sig, 'o) unchecked_extrinsic \<Rightarrow> h256 \<Rightarrow> 'rt
    \<Rightarrow> invalid_transaction + valid_transaction"
  fr_signed_validity :: "('sig, 'o) unchecked_extrinsic \<Rightarrow> 'rt \<Rightarrow> invalid_transaction + valid_transaction"
  fr_sudo :: "'o runtime_call \<Rightarrow> 'o"
  fr_aura_slot_duration :: "'rt \<Rightarrow> u64"
  fr_aura_authorities :: "'rt \<Rightarrow> 'aid list"

section \<open>The APIs\<close>

text \<open>
  \<open>Core\<close>; \<open>None\<close> is the panic of a block that is not valid.
\<close>

definition execute_block ::
    "('rt, 'p, 'hdr, 'inh, 'sig, 'o, 'aid) frame_runtime \<Rightarrow> 'hdr \<Rightarrow> ('sig, 'o) unchecked_extrinsic list \<Rightarrow> 'rt
      \<Rightarrow> 'rt option" where
  "execute_block fr header extrinsics rt = fr_execute_block fr header extrinsics rt"

definition initialize_block ::
    "('rt, 'p, 'hdr, 'inh, 'sig, 'o, 'aid) frame_runtime \<Rightarrow> 'hdr \<Rightarrow> 'rt \<Rightarrow> 'rt" where
  "initialize_block fr header rt = fr_initialize_block fr header rt"

text \<open>
  \<open>BlockBuilder\<close>.
\<close>

definition apply_extrinsic ::
    "('rt, 'p, 'hdr, 'inh, 'sig, 'o, 'aid) frame_runtime \<Rightarrow> ('sig, 'o) unchecked_extrinsic \<Rightarrow> 'rt
      \<Rightarrow> (invalid_transaction + (string + unit)) \<times> 'rt" where
  "apply_extrinsic fr extrinsic rt = fr_apply_extrinsic fr extrinsic rt"

definition finalize_block ::
    "('rt, 'p, 'hdr, 'inh, 'sig, 'o, 'aid) frame_runtime \<Rightarrow> 'rt \<Rightarrow> 'hdr \<times> 'rt" where
  "finalize_block fr rt = fr_finalize_block fr rt"

definition inherent_extrinsics ::
    "('rt, 'p, 'hdr, 'inh, 'sig, 'o, 'aid) frame_runtime \<Rightarrow> 'inh \<Rightarrow> 'rt \<Rightarrow> ('sig, 'o) unchecked_extrinsic list" where
  "inherent_extrinsics fr data rt = fr_create_extrinsics fr data rt"

definition check_inherents ::
    "('rt, 'p, 'hdr, 'inh, 'sig, 'o, 'aid) frame_runtime \<Rightarrow> 'hdr \<Rightarrow> ('sig, 'o) unchecked_extrinsic list \<Rightarrow> 'inh
      \<Rightarrow> 'rt \<Rightarrow> string + unit" where
  "check_inherents fr header extrinsics data rt = fr_check_extrinsics fr data header extrinsics rt"

text \<open>
  \<open>TaggedTransactionQueue\<close>.
\<close>

definition validate_transaction ::
    "('rt, 'p, 'hdr, 'inh, 'sig, 'o, 'aid) frame_runtime \<Rightarrow> transaction_source \<Rightarrow> ('sig, 'o) unchecked_extrinsic
      \<Rightarrow> h256 \<Rightarrow> 'rt \<Rightarrow> invalid_transaction + valid_transaction" where
  "validate_transaction fr source tx block_hash rt = fr_validate_transaction fr source tx block_hash rt"

text \<open>
  \<open>AuraApi\<close>, the slot duration in milliseconds; and \<open>authorities\<close> of the pallet's configuration.
\<close>

definition slot_duration :: "('rt, 'p, 'hdr, 'inh, 'sig, 'o, 'aid) frame_runtime \<Rightarrow> 'rt \<Rightarrow> u64" where
  "slot_duration fr rt = fr_aura_slot_duration fr rt"

definition aura_api_authorities :: "('rt, 'p, 'hdr, 'inh, 'sig, 'o, 'aid) frame_runtime \<Rightarrow> 'rt \<Rightarrow> 'aid list" where
  "aura_api_authorities fr rt = fr_aura_authorities fr rt"

definition runtime_authorities :: "('rt, 'p, 'hdr, 'inh, 'sig, 'o, 'aid) frame_runtime \<Rightarrow> 'rt \<Rightarrow> 'aid list" where
  "runtime_authorities fr rt = fr_aura_authorities fr rt"

text \<open>
  \<open>GrandpaApi\<close>: equivocations are not reported.
\<close>

definition submit_report_equivocation_unsigned_extrinsic :: "'equivocation_proof \<Rightarrow> 'key_owner_proof \<Rightarrow> unit option" where
  "submit_report_equivocation_unsigned_extrinsic equivocation_proof key_owner_proof = None"

definition generate_key_ownership_proof :: "u64 \<Rightarrow> 'authority_id \<Rightarrow> 'key_owner_proof option" where
  "generate_key_ownership_proof set_id authority_id = None"

section \<open>What the streams code relies on\<close>

fun apply_all ::
    "('rt, 'p, 'hdr, 'inh, 'sig, 'o, 'aid) frame_runtime \<Rightarrow> ('sig, 'o) unchecked_extrinsic list \<Rightarrow> 'rt
      \<Rightarrow> (invalid_transaction + (string + unit)) list \<times> 'rt" where
  "apply_all fr [] rt = ([], rt)"
| "apply_all fr (x # xs) rt =
     (case apply_extrinsic fr x rt of
        (r, rt1) \<Rightarrow> (case apply_all fr xs rt1 of (rs, rt2) \<Rightarrow> (r # rs, rt2)))"

fun execute_chain ::
    "('rt, 'p, 'hdr, 'inh, 'sig, 'o, 'aid) frame_runtime \<Rightarrow> ('hdr \<times> ('sig, 'o) unchecked_extrinsic list) list \<Rightarrow> 'rt
      \<Rightarrow> 'rt option" where
  "execute_chain fr [] rt = Some rt"
| "execute_chain fr ((header, xs) # blocks) rt = Option.bind (execute_block fr header xs rt) (execute_chain fr blocks)"

text \<open>
  \<open>stored_events fr is_valid rt\<close> is what the pallet's storage says of every event; \<open>runs_call\<close>: from \<open>rt\<close> to \<open>rt'\<close>
  the storage has changed as \<open>validate_event\<close> changes it, whatever else happened.
\<close>

definition stored_events ::
    "('rt, 'p, 'hdr, 'inh, 'sig, 'o, 'aid) frame_runtime \<Rightarrow> ('p \<Rightarrow> h256 \<Rightarrow> bool) \<Rightarrow> 'rt \<Rightarrow> h256 \<Rightarrow> bool" where
  "stored_events fr is_valid rt = is_valid (fr_pallet fr rt)"

definition runs_call ::
    "('rt, 'p, 'hdr, 'inh, 'sig, 'o, 'aid) frame_runtime
      \<Rightarrow> ('p \<Rightarrow> h256 \<Rightarrow> btree_proofs option \<Rightarrow> dispatch_result \<times> 'p) \<Rightarrow> ('p \<Rightarrow> h256 \<Rightarrow> bool)
      \<Rightarrow> h256 \<Rightarrow> btree_proofs option \<Rightarrow> 'rt \<Rightarrow> 'rt \<Rightarrow> bool" where
  "runs_call fr validate is_valid e ps rt rt' \<longleftrightarrow>
     (\<exists>p. is_valid p = stored_events fr is_valid rt \<and>
        stored_events fr is_valid rt' = is_valid (snd (validate p e ps)))"

definition executive_laws ::
    "('rt, 'p, 'hdr, 'inh, 'sig, 'o, 'aid) frame_runtime
      \<Rightarrow> ('p \<Rightarrow> h256 \<Rightarrow> btree_proofs option \<Rightarrow> dispatch_result \<times> 'p) \<Rightarrow> ('p \<Rightarrow> h256 \<Rightarrow> bool) \<Rightarrow> bool" where
  "executive_laws fr validate is_valid \<longleftrightarrow>
     (\<forall>x rt r rt'. fr_apply_extrinsic fr x rt = (r, rt') \<longrightarrow>
        (case ux_function x of
           ValidatedStreams (validate_event_call e ps) \<Rightarrow>
             (case r of
                Inl _ \<Rightarrow> stored_events fr is_valid rt' = stored_events fr is_valid rt
              | Inr _ \<Rightarrow>
                  (ux_signature x = None \<longrightarrow>
                     (\<exists>v. validate_unsigned is_valid (fr_pallet fr rt) InBlock (validate_event_call e ps) = Inr v)) \<and>
                  runs_call fr validate is_valid e ps rt rt')
         | Sudo c \<Rightarrow>
             (\<forall>e ps. c = fr_sudo fr (ValidatedStreams (validate_event_call e ps)) \<and> r = Inr (Inr ()) \<longrightarrow>
                runs_call fr validate is_valid e ps rt rt')
         | _ \<Rightarrow> stored_events fr is_valid rt' = stored_events fr is_valid rt)) \<and>
     (\<forall>header xs rt rt'. fr_execute_block fr header xs rt = Some rt' \<longrightarrow>
        (\<exists>rt0 rs rt1. stored_events fr is_valid rt0 = stored_events fr is_valid rt \<and>
           apply_all fr xs rt0 = (rs, rt1) \<and> list_all (\<lambda>r. \<exists>d. r = Inr d) rs \<and>
           stored_events fr is_valid rt' = stored_events fr is_valid rt1)) \<and>
     (\<forall>source x h rt e ps i. ux_signature x = None \<and> ux_function x = ValidatedStreams (validate_event_call e ps) \<and>
        validate_unsigned is_valid (fr_pallet fr rt) source (validate_event_call e ps) = Inl i \<longrightarrow>
        (\<exists>j. fr_validate_transaction fr source x h rt = Inl j)) \<and>
     (\<forall>source x h rt. ux_signature x \<noteq> None \<longrightarrow> fr_validate_transaction fr source x h rt = fr_signed_validity fr x rt)"

text \<open>
  An extrinsic of \<open>pallet_sudo\<close>.
\<close>

fun is_sudo :: "'o runtime_call \<Rightarrow> bool" where
  "is_sudo (Sudo c) = True"
| "is_sudo _ = False"

section \<open>The events a block validates\<close>

text \<open>
  The pallet as the runtime sees it.
\<close>

locale runtime_pallet = validated_streams_pallet validate is_event_valid
  for validate :: "'s \<Rightarrow> h256 \<Rightarrow> btree_proofs option \<Rightarrow> dispatch_result \<times> 's" and is_event_valid
begin

lemma runs_call_cases:
  assumes "runs_call fr validate is_event_valid e ps rt rt'"
  shows "stored_events fr is_event_valid rt' = stored_events fr is_event_valid rt \<or>
    stored_events fr is_event_valid rt' = (\<lambda>e'. e' = e \<or> stored_events fr is_event_valid rt e')"
proof -
  obtain p where p: "is_event_valid p = stored_events fr is_event_valid rt"
    "stored_events fr is_event_valid rt' = is_event_valid (snd (validate p e ps))"
    using assms unfolding runs_call_def by blast
  obtain r p' where v: "validate p e ps = (r, p')" by (cases "validate p e ps")
  show ?thesis
  proof (cases r)
    case (Inl f)
    then have "p' = p" using v err_keeps by simp
    then show ?thesis using p v by simp
  next
    case (Inr u)
    then have "is_event_valid p' e' \<longleftrightarrow> e' = e \<or> is_event_valid p e'" for e' using v ok_marks by simp
    then show ?thesis using p v by (auto simp: fun_eq_iff)
  qed
qed

text \<open>
  Without \<open>pallet_sudo\<close> an extrinsic validates no event but its own.
\<close>

lemma apply_extrinsic_events:
  assumes "executive_laws fr validate is_event_valid" and "apply_extrinsic fr x rt = (r, rt')"
    and "\<not> is_sudo (ux_function x)" and "stored_events fr is_event_valid rt' e"
  shows "stored_events fr is_event_valid rt e \<or> e \<in> set (get_extrinsic_ids [x])"
proof -
  have ap: "fr_apply_extrinsic fr x rt = (r, rt')" using assms(2) by (simp add: apply_extrinsic_def)
  note law = conjunct1 [OF assms(1) [unfolded executive_laws_def], rule_format, OF ap]
  consider e' ps where "ux_function x = ValidatedStreams (validate_event_call e' ps)"
    | "stored_events fr is_event_valid rt' = stored_events fr is_event_valid rt"
    using law assms(3) by (cases "ux_function x") (auto split: pallet_call.splits)
  then show ?thesis
  proof cases
    case 1
    then show ?thesis
      using law assms(4) runs_call_cases [of fr e' ps rt rt'] by (cases r) auto
  qed (use assms(4) in simp)
qed

lemma apply_all_events:
  assumes "executive_laws fr validate is_event_valid" and "apply_all fr xs rt = (rs, rt')"
    and "list_all (\<lambda>x. \<not> is_sudo (ux_function x)) xs" and "stored_events fr is_event_valid rt' e"
  shows "stored_events fr is_event_valid rt e \<or> e \<in> set (get_extrinsic_ids xs)"
  using assms(2,3)
proof (induction xs arbitrary: rt rs)
  case Nil
  then show ?case using assms(4) by simp
next
  case (Cons x xs)
  obtain r rt1 where x: "apply_extrinsic fr x rt = (r, rt1)" by (cases "apply_extrinsic fr x rt")
  obtain rs1 where xs: "apply_all fr xs rt1 = (rs1, rt')" using Cons.prems(1) x by (auto split: prod.splits)
  have "stored_events fr is_event_valid rt1 e \<or> e \<in> set (get_extrinsic_ids xs)"
    using Cons.IH [OF xs] Cons.prems(2) by simp
  then show ?case
    using apply_extrinsic_events [OF assms(1) x, of e] Cons.prems(2) get_extrinsic_ids_append [of "[x]" xs] by auto
qed

lemma execute_block_events:
  assumes laws: "executive_laws fr validate is_event_valid" and run: "execute_block fr header xs rt = Some rt'"
    and plain: "list_all (\<lambda>x. \<not> is_sudo (ux_function x)) xs"
    and e: "stored_events fr is_event_valid rt' e"
  shows "stored_events fr is_event_valid rt e \<or> e \<in> set (get_extrinsic_ids xs)"
proof -
  obtain rt0 rs rt1 where "stored_events fr is_event_valid rt0 = stored_events fr is_event_valid rt"
    and "apply_all fr xs rt0 = (rs, rt1)"
    and "stored_events fr is_event_valid rt' = stored_events fr is_event_valid rt1"
    using conjunct1 [OF conjunct2 [OF laws [unfolded executive_laws_def]]] run
    unfolding execute_block_def by blast
  with apply_all_events [OF laws _ plain, of rt0 rs rt1 e] e show ?thesis by simp
qed

end

text \<open>
  A pallet that refuses only events it has: after a call the event is valid, whatever the call returned.
\<close>

locale trusting_pallet = runtime_pallet +
  assumes err_valid: "validate s e p = (Inl f, s') \<Longrightarrow> is_event_valid s e"
begin

lemma runs_call_valid:
  assumes "runs_call fr validate is_event_valid e ps rt rt'"
  shows "stored_events fr is_event_valid rt' = (\<lambda>e'. e' = e \<or> stored_events fr is_event_valid rt e')"
proof -
  obtain p where p: "is_event_valid p = stored_events fr is_event_valid rt"
    "stored_events fr is_event_valid rt' = is_event_valid (snd (validate p e ps))"
    using assms unfolding runs_call_def by blast
  obtain r p' where v: "validate p e ps = (r, p')" by (cases "validate p e ps")
  show ?thesis
  proof (cases r)
    case (Inl f)
    then have "p' = p" "is_event_valid p e" using v err_keeps err_valid by simp_all
    then show ?thesis using p v by (auto simp: fun_eq_iff)
  next
    case (Inr u)
    then have "is_event_valid p' e' \<longleftrightarrow> e' = e \<or> is_event_valid p e'" for e' using v ok_marks by simp
    then show ?thesis using p v by (auto simp: fun_eq_iff)
  qed
qed

lemma apply_extrinsic_valid:
  assumes "executive_laws fr validate is_event_valid" and "apply_extrinsic fr x rt = (Inr d, rt')"
    and "\<not> is_sudo (ux_function x)"
  shows "stored_events fr is_event_valid rt' e \<longleftrightarrow>
    stored_events fr is_event_valid rt e \<or> e \<in> set (get_extrinsic_ids [x])"
proof -
  have ap: "fr_apply_extrinsic fr x rt = (Inr d, rt')" using assms(2) by (simp add: apply_extrinsic_def)
  note law = conjunct1 [OF assms(1) [unfolded executive_laws_def], rule_format, OF ap]
  show ?thesis
  proof (cases "\<exists>e' ps. ux_function x = ValidatedStreams (validate_event_call e' ps)")
    case True
    then obtain e' ps where x: "ux_function x = ValidatedStreams (validate_event_call e' ps)" by blast
    then have "runs_call fr validate is_event_valid e' ps rt rt'" using law by simp
    from runs_call_valid [OF this] x show ?thesis by auto
  next
    case False
    then show ?thesis using law assms(3) by (cases "ux_function x") (auto split: pallet_call.splits)
  qed
qed

text \<open>
  Executing a block without \<open>pallet_sudo\<close> validates exactly the events \<open>get_extrinsic_ids\<close> finds in it.
\<close>

lemma apply_all_valid:
  assumes "executive_laws fr validate is_event_valid" and "apply_all fr xs rt = (rs, rt')"
    and "list_all (\<lambda>r. \<exists>d. r = Inr d) rs" and "list_all (\<lambda>x. \<not> is_sudo (ux_function x)) xs"
  shows "stored_events fr is_event_valid rt' e \<longleftrightarrow>
    stored_events fr is_event_valid rt e \<or> e \<in> set (get_extrinsic_ids xs)"
  using assms(2-4)
proof (induction xs arbitrary: rt rs)
  case (Cons x xs)
  obtain r rt1 where x: "apply_extrinsic fr x rt = (r, rt1)" by (cases "apply_extrinsic fr x rt")
  obtain rs1 where xs: "apply_all fr xs rt1 = (rs1, rt')" and rs: "rs = r # rs1"
    using Cons.prems(1) x by (auto split: prod.splits)
  obtain d where "apply_extrinsic fr x rt = (Inr d, rt1)" using Cons.prems(2) rs x by auto
  from apply_extrinsic_valid [OF assms(1) this, of e] Cons.IH [OF xs] Cons.prems(2,3) rs
  show ?case using get_extrinsic_ids_append [of "[x]" xs] by auto
qed simp

lemma execute_block_valid:
  assumes laws: "executive_laws fr validate is_event_valid" and run: "execute_block fr header xs rt = Some rt'"
    and plain: "list_all (\<lambda>x. \<not> is_sudo (ux_function x)) xs"
  shows "stored_events fr is_event_valid rt' e \<longleftrightarrow>
    stored_events fr is_event_valid rt e \<or> e \<in> set (get_extrinsic_ids xs)"
proof -
  obtain rt0 rs rt1 where "stored_events fr is_event_valid rt0 = stored_events fr is_event_valid rt"
    and "apply_all fr xs rt0 = (rs, rt1)" and "list_all (\<lambda>r. \<exists>d. r = Inr d) rs"
    and "stored_events fr is_event_valid rt' = stored_events fr is_event_valid rt1"
    using conjunct1 [OF conjunct2 [OF laws [unfolded executive_laws_def]]] run
    unfolding execute_block_def by blast
  with apply_all_valid [OF laws _ _ plain, of rt0 rs rt1 e] show ?thesis by simp
qed

lemma execute_chain_valid:
  assumes laws: "executive_laws fr validate is_event_valid" and "execute_chain fr blocks rt = Some rt'"
    and "list_all (\<lambda>(header, xs). list_all (\<lambda>x. \<not> is_sudo (ux_function x)) xs) blocks"
  shows "stored_events fr is_event_valid rt' e \<longleftrightarrow>
    stored_events fr is_event_valid rt e \<or> (\<exists>b \<in> set blocks. e \<in> set (get_extrinsic_ids (snd b)))"
  using assms(2,3)
proof (induction blocks arbitrary: rt)
  case (Cons b blocks)
  obtain header xs where b: "b = (header, xs)" by (cases b)
  obtain rt1 where rt1: "execute_block fr header xs rt = Some rt1" "execute_chain fr blocks rt1 = Some rt'"
    using Cons.prems(1) b by (auto split: bind_splits)
  show ?case
    using execute_block_valid [OF laws rt1(1), of e] Cons.IH [OF rt1(2)] Cons.prems(2) b by auto
qed simp

text \<open>
  A call \<open>pallet_sudo\<close> runs validates its event too, which \<open>get_extrinsic_ids\<close> does not find.
\<close>

lemma sudo_validates:
  assumes "executive_laws fr validate is_event_valid"
    and "ux_function x = Sudo (fr_sudo fr (ValidatedStreams (validate_event_call e ps)))"
    and "apply_extrinsic fr x rt = (Inr (Inr ()), rt')"
  shows "stored_events fr is_event_valid rt' e" and "get_extrinsic_ids [x] = []"
proof -
  have ap: "fr_apply_extrinsic fr x rt = (Inr (Inr ()), rt')" using assms(3) by (simp add: apply_extrinsic_def)
  have "runs_call fr validate is_event_valid e ps rt rt'"
    using conjunct1 [OF assms(1) [unfolded executive_laws_def], rule_format, OF ap] assms(2) by simp
  from runs_call_valid [OF this] show "stored_events fr is_event_valid rt' e" by simp
  show "get_extrinsic_ids [x] = []" using assms(2) by simp
qed

end

interpretation rt_on: runtime_pallet "validate_event_onchain fs sr to_raw ids" is_event_valid_onchain
  for fs sr to_raw ids
  by unfold_locales

interpretation rt_off: trusting_pallet "validate_event_offchain fs" is_event_valid_offchain for fs
  by unfold_locales
    (auto simp: validate_event_offchain_def is_event_valid_offchain_def Let_def split: if_splits)

end
