(* ===== verification/Runtime_Properties.thy ===== *)
theory Runtime_Properties
  imports Runtime_Apis Instances Pallet_Properties
begin

text \<open>
  What executing a block does to the streams, and an instance of FRAME for the examples.
\<close>

section \<open>An instance of FRAME\<close>

text \<open>
  The state is that of the pallet with off-chain proofs. The sudo key is \<open>key_of 9\<close>, and every signed
  extrinsic passes the checks of its \<open>SignedExtra\<close>.
\<close>

type_synonym ref_state = "pallet_event list offchain_pallet"

definition ref_dispatch :: "h256 \<Rightarrow> btree_proofs option \<Rightarrow> ref_state \<Rightarrow> (invalid_transaction + (string + unit)) \<times> ref_state" where
  "ref_dispatch e ps rt =
     (case validate_event_offchain ref_system rt e ps of (r, rt') \<Rightarrow> (Inr (map_sum (\<lambda>_. ''failed'') id r), rt'))"

definition ref_apply :: "ref_extrinsic \<Rightarrow> ref_state \<Rightarrow> (invalid_transaction + (string + unit)) \<times> ref_state" where
  "ref_apply x rt =
     (case ux_function x of
        ValidatedStreams (validate_event_call e ps) \<Rightarrow>
          if ux_signature x = None
          then (case validate_unsigned is_event_valid_offchain rt InBlock (validate_event_call e ps) of
                  Inl i \<Rightarrow> (Inl i, rt) | Inr _ \<Rightarrow> ref_dispatch e ps rt)
          else ref_dispatch e ps rt
      | ValidatedStreams ignored_call \<Rightarrow> (Inl InvalidCall, rt)
      | Sudo (SudoCall (ValidatedStreams (validate_event_call e ps))) \<Rightarrow>
          if ux_signature x = Some (key_of 9) then (Inr (Inr ()), snd (ref_dispatch e ps rt))
          else (Inr (Inl ''RequireSudo''), rt)
      | _ \<Rightarrow> (Inr (Inr ()), rt))"

definition ref_signed_validity :: "ref_extrinsic \<Rightarrow> ref_state \<Rightarrow> invalid_transaction + valid_transaction" where
  "ref_signed_validity x rt = Inr \<lparr>vt_tag_prefix = '''', vt_provides = [], vt_propagate = True\<rparr>"

definition ref_validity :: "transaction_source \<Rightarrow> ref_extrinsic \<Rightarrow> h256 \<Rightarrow> ref_state \<Rightarrow> invalid_transaction + valid_transaction" where
  "ref_validity source x h rt =
     (if ux_signature x \<noteq> None then ref_signed_validity x rt
      else (case ux_function x of
              ValidatedStreams c \<Rightarrow> validate_unsigned is_event_valid_offchain rt source c
            | _ \<Rightarrow> Inl InvalidCall))"

fun ref_execute :: "ref_extrinsic list \<Rightarrow> ref_state \<Rightarrow> ref_state option" where
  "ref_execute [] rt = Some rt"
| "ref_execute (x # xs) rt =
     (case ref_apply x rt of (Inr _, rt1) \<Rightarrow> ref_execute xs rt1 | (Inl _, rt1) \<Rightarrow> None)"

definition ref_frame :: "(ref_state, ref_state, unit, unit, bytes, ref_call, bytes) frame_runtime" where
  "ref_frame =
     \<lparr>fr_pallet = (\<lambda>rt. rt), fr_execute_block = (\<lambda>_. ref_execute), fr_initialize_block = (\<lambda>_ rt. rt),
      fr_apply_extrinsic = ref_apply, fr_finalize_block = (\<lambda>rt. ((), rt)), fr_create_extrinsics = (\<lambda>_ _. []),
      fr_check_extrinsics = (\<lambda>_ _ _ _. Inr ()), fr_validate_transaction = ref_validity,
      fr_signed_validity = ref_signed_validity, fr_sudo = SudoCall, fr_aura_slot_duration = (\<lambda>_. SLOT_DURATION),
      fr_aura_authorities = (\<lambda>_. map key_of [1, 2, 3, 4])\<rparr>"

lemma ref_execute_apply_all:
  "ref_execute xs rt = Some rt' \<Longrightarrow> \<exists>rs. apply_all ref_frame xs rt = (rs, rt') \<and> list_all (\<lambda>r. \<exists>d. r = Inr d) rs"
proof (induction xs arbitrary: rt)
  case (Cons x xs)
  obtain d rt1 where "ref_apply x rt = (Inr d, rt1)" and "ref_execute xs rt1 = Some rt'"
    using Cons.prems by (auto split: prod.splits sum.splits)
  with Cons.IH [of rt1] show ?case by (fastforce simp: apply_extrinsic_def ref_frame_def)
qed simp

lemma ref_dispatch_runs: "runs_call ref_frame (validate_event_offchain ref_system) is_event_valid_offchain e ps rt (snd (ref_dispatch e ps rt))"
  unfolding runs_call_def stored_events_def
  by (intro exI [of _ rt]) (simp add: ref_frame_def ref_dispatch_def split: prod.split)

lemma ref_apply_laws:
  assumes "ref_apply x rt = (r, rt')"
  shows "case ux_function x of
      ValidatedStreams (validate_event_call e ps) \<Rightarrow>
        (case r of
           Inl _ \<Rightarrow> stored_events ref_frame is_event_valid_offchain rt' = stored_events ref_frame is_event_valid_offchain rt
         | Inr _ \<Rightarrow>
             (ux_signature x = None \<longrightarrow>
                (\<exists>v. validate_unsigned is_event_valid_offchain (fr_pallet ref_frame rt) InBlock (validate_event_call e ps) = Inr v)) \<and>
             runs_call ref_frame (validate_event_offchain ref_system) is_event_valid_offchain e ps rt rt')
    | Sudo c \<Rightarrow>
        (\<forall>e ps. c = fr_sudo ref_frame (ValidatedStreams (validate_event_call e ps)) \<and> r = Inr (Inr ()) \<longrightarrow>
           runs_call ref_frame (validate_event_offchain ref_system) is_event_valid_offchain e ps rt rt')
    | _ \<Rightarrow> stored_events ref_frame is_event_valid_offchain rt' = stored_events ref_frame is_event_valid_offchain rt"
proof -
  have runs: "ref_dispatch e ps rt = (d, rt') \<Longrightarrow>
      runs_call ref_frame (validate_event_offchain ref_system) is_event_valid_offchain e ps rt rt'" for e ps d
    using ref_dispatch_runs [of e ps rt] by simp
  have ok: "ref_dispatch e ps rt \<noteq> (Inl i, rt')" for e ps i by (simp add: ref_dispatch_def split: prod.split)
  show ?thesis
  proof (cases "ux_function x")
    case (ValidatedStreams c)
    then show ?thesis
      using assms runs ok
      by (cases c) (auto simp: ref_apply_def ref_frame_def split: if_splits sum.splits)
  next
    case (Sudo c)
    then show ?thesis
      using assms ref_dispatch_runs
      by (auto simp: ref_apply_def ref_frame_def split: if_splits)
  qed (use assms in \<open>auto simp: ref_apply_def\<close>)
qed

lemma ref_frame_laws: "executive_laws ref_frame (validate_event_offchain ref_system) is_event_valid_offchain"
proof -
  have "\<exists>rt0 rs rt1. stored_events ref_frame is_event_valid_offchain rt0 = stored_events ref_frame is_event_valid_offchain rt \<and>
      apply_all ref_frame xs rt0 = (rs, rt1) \<and> list_all (\<lambda>r. \<exists>d. r = Inr d) rs \<and>
      stored_events ref_frame is_event_valid_offchain rt' = stored_events ref_frame is_event_valid_offchain rt1"
    if "ref_execute xs rt = Some rt'" for xs rt rt'
    using ref_execute_apply_all [OF that] by blast
  then show ?thesis
    unfolding executive_laws_def
    using ref_apply_laws by (simp add: ref_frame_def ref_validity_def)
qed

section \<open>Executing a block\<close>

text \<open>
  With off-chain proofs \<open>get_extrinsic_ids\<close> tells the truth about a block. When the runtime has executed a
  block without extrinsics of \<open>pallet_sudo\<close>, the events that are valid afterwards are those that were valid
  before and those \<open>get_extrinsic_ids\<close> returns for the block, whether the extrinsics are signed or not and
  whether the calls succeeded or not.
\<close>

theorem executed_block_events:
  assumes "executive_laws fr (validate_event_offchain fs) is_event_valid_offchain"
    and "execute_block fr header xs rt = Some rt'" and "list_all (\<lambda>x. \<not> is_sudo (ux_function x)) xs"
  shows "is_event_valid_offchain (fr_pallet fr rt') e \<longleftrightarrow>
    is_event_valid_offchain (fr_pallet fr rt) e \<or> e \<in> set (get_extrinsic_ids xs)"
  using rt_off.execute_block_valid [OF assms] by (simp add: stored_events_def)

text \<open>
  The example: a block with a signed and an unsigned extrinsic.
\<close>

definition event_extrinsic :: "bytes option \<Rightarrow> h256 \<Rightarrow> ref_extrinsic" where
  "event_extrinsic signer e = \<lparr>ux_signature = signer, ux_function = ValidatedStreams (validate_event_call e None)\<rparr>"

lemma event_extrinsic_simps [simp]:
  "ux_signature (event_extrinsic signer e) = signer"
  "ux_function (event_extrinsic signer e) = ValidatedStreams (validate_event_call e None)"
  by (simp_all add: event_extrinsic_def)

definition ref_empty :: ref_state where
  "ref_empty = \<lparr>streams = fmempty, off_system = []\<rparr>"

lemma two_events_executed:
  "\<exists>rt'. execute_block ref_frame () [event_extrinsic None event_a, event_extrinsic (Some (key_of 5)) event_b] ref_empty = Some rt'"
  by (simp add: execute_block_def ref_frame_def ref_apply_def ref_dispatch_def validate_unsigned_def
      validate_event_offchain_def is_event_valid_offchain_def ref_empty_def Let_def)

theorem executed_block_events_witness:
  "\<exists>rt'. execute_block ref_frame () [event_extrinsic None event_a, event_extrinsic (Some (key_of 5)) event_b] ref_empty = Some rt' \<and>
    is_event_valid_offchain rt' event_a \<and> is_event_valid_offchain rt' event_b \<and> \<not> is_event_valid_offchain rt' (repeat_byte 12)"
proof -
  obtain rt' where run: "execute_block ref_frame () [event_extrinsic None event_a, event_extrinsic (Some (key_of 5)) event_b] ref_empty = Some rt'"
    using two_events_executed by blast
  have "is_event_valid_offchain (fr_pallet ref_frame rt') e \<longleftrightarrow>
      is_event_valid_offchain (fr_pallet ref_frame ref_empty) e \<or> e \<in> {event_a, event_b}" for e
    using executed_block_events [OF ref_frame_laws run, of e] by simp
  then have "is_event_valid_offchain rt' e \<longleftrightarrow> e \<in> {event_a, event_b}" for e
    by (simp add: ref_frame_def ref_empty_def is_event_valid_offchain_def)
  moreover have "repeat_byte 12 \<noteq> event_a" "repeat_byte 12 \<noteq> event_b" by (simp_all add: event_a_def event_b_def)
  ultimately show ?thesis using run by blast
qed

section \<open>Ways around the check\<close>

text \<open>
  What a node does with a block when the authorities of its parent are known.
\<close>

lemma node_import_checked:
  assumes "nd_sync nd = Provided sync" and "\<not> ne_is_major_syncing ne sync" and "bip_body block = Some exts"
    and "get_authorities_list (he_lru (ne_handler ne)) (he_from_id (ne_handler ne))
      (gh_block_state (gs_handler (nd_service nd))) client (bip_parent_hash block) = (Inr al, bs)"
    and "collect_unprepared (\<lambda>e. ep_count (he_proofs (ne_handler ne)) (gh_event_proofs (gs_handler (nd_service nd))) e (authorities al))
      (target al) (block_event_ids client block) = Inr us"
  shows "fst (node_import ne client nd block) =
      (if us \<noteq> [] then Inl (ImportErr (ClientImport ''Block contains unwitnessed events''))
       else map_sum ImportErr id (fst (parent_import_block (ne_import ne) (nd_parent_import nd) block)))"
    and "nd_parent_import (snd (node_import ne client nd block)) =
      (if us \<noteq> [] then nd_parent_import nd else snd (parent_import_block (ne_import ne) (nd_parent_import nd) block))"
proof -
  let ?h = "gs_handler (nd_service nd)"
  let ?bi = "\<lparr>parent_block_import = nd_parent_import nd, bi_event_proofs = gh_event_proofs ?h,
    sync_service = nd_sync nd, bi_block_state = gh_block_state ?h\<rparr>"
  have "sync_service ?bi = Provided sync" using assms(1) by simp
  note run = import_block_checked [where self = ?bi and is_major_syncing = "ne_is_major_syncing ne", OF this assms(2,3), simplified, OF assms(4)]
  show "fst (node_import ne client nd block) =
      (if us \<noteq> [] then Inl (ImportErr (ClientImport ''Block contains unwitnessed events''))
       else map_sum ImportErr id (fst (parent_import_block (ne_import ne) (nd_parent_import nd) block)))"
    and "nd_parent_import (snd (node_import ne client nd block)) =
      (if us \<noteq> [] then nd_parent_import nd else snd (parent_import_block (ne_import ne) (nd_parent_import nd) block))"
    using assms(5) by (simp_all add: node_import_def Let_def run lift_parent_def)
qed


definition sudo_extrinsic :: "h256 \<Rightarrow> ref_extrinsic" where
  "sudo_extrinsic e =
     \<lparr>ux_signature = Some (key_of 9), ux_function = Sudo (SudoCall (ValidatedStreams (validate_event_call e None)))\<rparr>"

definition block_of :: "ref_extrinsic list \<Rightarrow> ref_extrinsic block_import_params" where
  "block_of xs = \<lparr>bip_parent_hash = repeat_byte 1, bip_post_hash = repeat_byte 255, bip_body = Some xs\<rparr>"

lemma four_parent_authorities:
  obtains bs where "get_authorities_list ref_lru ref_from_id ref_block_state four_client (repeat_byte 1) =
    (Inr four_authorities, bs)"
  by (simp add: get_authorities_list_def ref_block_state_def ref_lru_def four_client_def ref_client_def
      four_chain_def four_authorities_def Let_def)

lemma four_client_ids: "cl_get_extrinsic_ids four_client h xs = Inr (get_extrinsic_ids xs)"
  by (simp add: four_client_def ref_client_def)




section \<open>Bounds\<close>



end
