(* ===== verification/Onchain_Pipeline.thy ===== *)
theory Onchain_Pipeline
  imports Gossip_Handler Runtime
begin

text \<open>
  The way of an event in the build with on-chain proofs: the proofs the gossip handler reads from its
  store, converted by \<open>submit_event_extrinsic\<close>, packed by the runtime's \<open>create_unsigned_extrinsic\<close>, and
  checked by the pallet's \<open>validate_event\<close>. What the handler and the pallet must have in common is
  \<open>same_authorities\<close>.
\<close>

text \<open>
  The handler's authority list and the pallet's are made of the same keys: of one crypto system,
  different from each other, each 32 bytes long, and no more than the pallet's bound.
\<close>

definition same_authorities ::
    "sr25519 \<Rightarrow> ('aid \<Rightarrow> crypto_pair) \<Rightarrow> ('aid \<Rightarrow> bytes) \<Rightarrow> 'aid list \<Rightarrow> authorities_list \<Rightarrow> bool" where
  "same_authorities sr from_id to_raw ids al \<longleftrightarrow>
     authorities al = map from_id ids \<and> distinct (map to_raw ids) \<and> length ids \<le> 32 \<and>
     (\<forall>i \<in> set ids. raw_public (from_id i) = to_raw i \<and> length (to_raw i) = 32) \<and>
     (\<forall>b. length b = 32 \<longrightarrow> public_from_slice sr b = Some (Public b))"

lemma same_authorities_inj:
  assumes "same_authorities sr from_id to_raw ids al"
    and "k \<in> set (authorities al)" and "k' \<in> set (authorities al)" and "raw_public k = raw_public k'"
  shows "k = k'"
proof -
  obtain i i' where i: "i \<in> set ids" "k = from_id i" "i' \<in> set ids" "k' = from_id i'"
    using assms(1-3) unfolding same_authorities_def by auto
  have "to_raw i = to_raw i'"
    using assms(1,4) i unfolding same_authorities_def by metis
  then have "i = i'"
    using assms(1) i(1,3) unfolding same_authorities_def by (metis distinct_map inj_onD)
  then show ?thesis using i by simp
qed

lemma hash_iter_len:
  assumes "hash_iter_laws iter"
  shows "length (iter m) = hm_len m"
proof -
  have d: "distinct (map fst (iter m))" and m: "map_of (iter m) = fmlookup m"
    using assms unfolding hash_iter_laws_def by blast+
  have "set (map fst (iter m)) = fset (fmdom m)"
    using dom_map_of_conv_image_fst [of "iter m"] m by (auto simp: fmdom.rep_eq)
  then have "card (set (map fst (iter m))) = hm_len m" by (simp add: hm_len_card)
  then show ?thesis using distinct_card [OF d] by simp
qed

lemma hm_collect_distinct:
  assumes "distinct (map fst rs)"
  shows "fmlookup (hm_collect rs) k = Some g \<longleftrightarrow> (k, g) \<in> set rs" and "hm_len (hm_collect rs) = length rs"
proof -
  have d: "distinct (map fst (rev rs))" using assms by (simp add: rev_map [symmetric])
  show l: "fmlookup (hm_collect rs) k = Some g \<longleftrightarrow> (k, g) \<in> set rs" for k g
    using map_of_eq_Some_iff [OF d] by (simp add: fmlookup_hm_collect)
  have "fset (fmdom (hm_collect rs)) = set (map fst rs)"
    using dom_map_of_conv_image_fst [of "rev rs"]
    by (simp add: fmdom.rep_eq fmlookup_hm_collect [abs_def])
  then show "hm_len (hm_collect rs) = length rs"
    using distinct_card [OF assms] by (simp add: hm_len_card)
qed

text \<open>
  Converted proofs of a quorum back the event in the pallet's sense.
\<close>

lemma convert_proofs_backed:
  assumes iter: "hash_iter_laws iter" and same: "same_authorities sr from_id to_raw ids al"
    and signed: "\<And>k g. fmlookup m k = Some g \<Longrightarrow> k \<in> set (authorities al) \<and> signed_by sr k e g"
    and quorum: "length ids * 2 div 3 + 1 \<le> hm_len m"
  obtains ps where "convert_proofs iter sr (Some m) = Inr (Some ps)"
    and "backed sr (map (\<lambda>i. Public (to_raw i)) ids) e ps" and "hm_len ps = hm_len m"
proof -
  have d: "distinct (map fst (iter m))" using iter unfolding hash_iter_laws_def by blast
  have all: "\<forall>(k, g) \<in> set (iter m). signed_by sr k e g" using signed hash_iter_set [OF iter] by auto
  obtain rs where rs: "unwrap_proofs sr (iter m) = Inr rs"
    and l: "list_all2 (\<lambda>(k, g) (p, s). public_from_slice sr (raw_public k) = Some p \<and>
      signature_from_slice sr g = Some s \<and> sr_verify sr p (as_bytes e) s) (iter m) rs"
    by (rule unwrap_proofs_signed [OF all])
  have auth: "k \<in> set (authorities al)" if "(k, g) \<in> set (iter m)" for k g
    using that signed hash_iter_set [OF iter] by blast
  have raw: "public_from_slice sr (raw_public k) = Some (Public (raw_public k))" if "k \<in> set (authorities al)" for k
    using same that unfolding same_authorities_def by auto
  have fst_rs: "map fst rs = map (Public \<circ> raw_public) (map fst (iter m))"
  proof (rule nth_equalityI)
    show "length (map fst rs) = length (map (Public \<circ> raw_public) (map fst (iter m)))"
      using list_all2_lengthD [OF l] by simp
    fix i assume "i < length (map fst rs)"
    then have i: "i < length (iter m)" "i < length rs" using list_all2_lengthD [OF l] by simp_all
    show "map fst rs ! i = map (Public \<circ> raw_public) (map fst (iter m)) ! i"
      using list_all2_nthD [OF l i(1)] raw [OF auth, of "fst (iter m ! i)" "snd (iter m ! i)"] i nth_mem [OF i(1)]
      by (auto split: prod.splits)
  qed
  have "inj_on (Public \<circ> raw_public) (set (map fst (iter m)))"
    using same_authorities_inj [OF same] auth by (auto simp: inj_on_def)
  then have dist: "distinct (map fst rs)" unfolding fst_rs using d by (metis distinct_map)
  note coll = hm_collect_distinct [OF dist]
  have ver: "sr_verify sr p (as_bytes e) s" if "(p, s) \<in> set rs" for p s
    using that l by (auto simp: in_set_conv_nth dest!: list_all2_nthD2 split: prod.splits)
  have keys: "set (map fst rs) \<subseteq> set (map (\<lambda>i. Public (to_raw i)) ids)"
    unfolding fst_rs using auth same by (force simp: same_authorities_def)
  have len: "hm_len (hm_collect rs) = hm_len m"
    using coll(2) list_all2_lengthD [OF l] hash_iter_len [OF iter] by simp
  have "backed sr (map (\<lambda>i. Public (to_raw i)) ids) e (hm_collect rs)"
    using coll(1) ver keys quorum len by (force simp: backed_def fset_fmdom)
  then show ?thesis using that rs len by (simp add: convert_proofs_def)
qed

text \<open>
  So when a quorum is stored the handler hands to the pool an extrinsic made from proofs that are within
  the bound of the runtime and back the event.
\<close>

lemma same_authorities_facts:
  assumes "same_authorities sr from_id to_raw ids al"
  shows "distinct (authorities al)" and "length (authorities al) = length ids" and "length ids \<le> 32"
    and "raw_authorities to_raw ids = Some (map (\<lambda>i. Public (to_raw i)) ids)"
proof -
  have "inj_on from_id (set ids)"
    using assms unfolding same_authorities_def distinct_map inj_on_def by metis
  then show "distinct (authorities al)"
    using assms unfolding same_authorities_def by (simp add: distinct_map)
  show "length (authorities al) = length ids" and "length ids \<le> 32"
    and "raw_authorities to_raw ids = Some (map (\<lambda>i. Public (to_raw i)) ids)"
    using assms raw_authorities_map [of ids to_raw] by (simp_all add: same_authorities_def)
qed

lemma onchain_submit:
  assumes ops: "he_proofs he = offchain_ops os bc" and inv: "offchain_invar os bc (gh_event_proofs self)"
    and iter: "hash_iter_laws (he_iter he)" and on: "\<not> he_off_chain_proofs he"
    and signed: "\<And>k g. offchain_proof os bc (gh_event_proofs self) e k = Some g \<Longrightarrow> signed_by (he_sr25519 he) k e g"
    and same: "same_authorities (he_sr25519 he) from_id to_raw ids al"
    and t: "unat (target al) \<le> card {k \<in> set (authorities al). offchain_proof os bc (gh_event_proofs self) e k \<noteq> None}"
    and ext: "\<And>ps. cl_create_unsigned_extrinsic client (best_hash (cl_info client)) e ps = Inr (mk ps)"
  obtains ps where "backed (he_sr25519 he) (map (\<lambda>i. Public (to_raw i)) ids) e ps" and "hm_len ps \<le> 32"
    and "gh_tx_pool (snd (submit_if_target he client al self e)) =
      snd (submit_local (he_pool he) (gh_tx_pool self) (best_hash (cl_info client)) (mk (Some ps)))"
proof -
  let ?st = "gh_event_proofs self"
  note facts = same_authorities_facts [OF same]
  have bc: "bincode_laws bc" using inv by (simp add: offchain_invar_def)
  obtain m where m: "offchain_get os bc ?st e (authorities al) = Inr m"
    and lk: "\<And>k. fmlookup m k = (if k \<in> set (authorities al) then offchain_proof os bc ?st e k else None)"
    by (rule offchain_get_eq [OF bc, of os ?st e "authorities al"]) blast
  obtain n where n: "offchain_count os bc ?st e (authorities al) = Inr n"
    using offchain_count_eq [OF bc, of os ?st e "authorities al"] by simp
  have len: "unat n = hm_len m" using oc.count_eq [OF inv m n facts(1)] facts(2,3) by simp
  have "unat (target al) \<le> hm_len m" using t oc.get_len [OF inv m] by simp
  then have tgt: "target al \<le> n" and quorum: "length ids * 2 div 3 + 1 \<le> hm_len m"
    using facts len by (simp_all add: word_le_nat_alt unat_target)
  have "k \<in> set (authorities al) \<and> signed_by (he_sr25519 he) k e g" if "fmlookup m k = Some g" for k g
    using that lk signed by (simp split: if_splits)
  then obtain ps where ps: "convert_proofs (he_iter he) (he_sr25519 he) (Some m) = Inr (Some ps)"
    and backed: "backed (he_sr25519 he) (map (\<lambda>i. Public (to_raw i)) ids) e ps"
    by (rule convert_proofs_backed [OF iter same _ quorum]) blast+
  have "hm_len ps \<le> 32"
    using hm_len_le_auths [of ps "map (\<lambda>i. Public (to_raw i)) ids"] backed facts(3) by (simp add: backed_def)
  moreover have "gh_tx_pool (snd (submit_if_target he client al self e)) =
      snd (submit_local (he_pool he) (gh_tx_pool self) (best_hash (cl_info client)) (mk (Some ps)))"
    using n tgt on ops m ps ext
    by (simp add: submit_if_target_def offchain_ops_def submit_event_extrinsic_def and_then_def Let_def split: prod.split)
  ultimately show ?thesis using that backed by blast
qed

lemma onchain_handle_submits:
  assumes ops: "he_proofs he = offchain_ops os bc" and on: "\<not> he_off_chain_proofs he"
    and iter: "hash_iter_laws (he_iter he)"
    and h: "handler_ok (he_sr25519 he) (offchain_proof os bc) (offchain_invar os bc) self"
    and al: "get_latest_authorities_list (he_lru he) (he_from_id he) (gh_block_state self) client = (Inr al, bs)"
    and w: "verify_witnessed_event_origin (he_sr25519 he) al w = Inr w"
    and same: "same_authorities (he_sr25519 he) from_id to_raw ids al"
    and t: "unat (target al) \<le> card {k \<in> set (authorities al).
      k = we_pub_key w \<or> offchain_proof os bc (gh_event_proofs self) (we_event_id w) k \<noteq> None}"
    and ext: "\<And>ps. cl_create_unsigned_extrinsic client (best_hash (cl_info client)) (we_event_id w) ps = Inr (mk ps)"
  obtains ps where "backed (he_sr25519 he) (map (\<lambda>i. Public (to_raw i)) ids) (we_event_id w) ps" and "hm_len ps \<le> 32"
    and "gh_tx_pool (snd (handle_witnessed_event he client self w)) =
      snd (submit_local (he_pool he) (gh_tx_pool self) (best_hash (cl_info client)) (mk (Some ps)))"
proof -
  have inv: "offchain_invar os bc (gh_event_proofs self)"
    and signed: "all_signed (he_sr25519 he) (offchain_proof os bc) (gh_event_proofs self)"
    using h by (simp_all add: handler_ok_def)
  obtain st where st: "offchain_invar os bc st"
    and p: "\<And>e k. offchain_proof os bc st e k =
      (if e = we_event_id w \<and> k = we_pub_key w then Some (we_signature w)
       else if e = we_event_id w \<and> k \<notin> set (authorities al) then None
       else offchain_proof os bc (gh_event_proofs self) e k)"
    and run: "handle_witnessed_event he client self w =
      submit_if_target he client al (self\<lparr>gh_block_state := bs, gh_event_proofs := st\<rparr>) (we_event_id w)"
    by (rule offchain_handle_stores [OF ops inv al w]) blast
  let ?self = "self\<lparr>gh_block_state := bs, gh_event_proofs := st\<rparr>"
  have signed': "signed_by (he_sr25519 he) k (we_event_id w) g" if "offchain_proof os bc st (we_event_id w) k = Some g" for k g
    using that signed w unfolding p by (auto simp: all_signed_def verify_origin_Inr split: if_splits)
  have "{k \<in> set (authorities al). offchain_proof os bc st (we_event_id w) k \<noteq> None} =
      {k \<in> set (authorities al). k = we_pub_key w \<or> offchain_proof os bc (gh_event_proofs self) (we_event_id w) k \<noteq> None}"
    unfolding p by auto
  then show ?thesis
    using onchain_submit [where self = ?self and e = "we_event_id w" and mk = mk and os = os and bc = bc,
        OF ops _ iter on _ same _ ext] st signed' t that run by auto
qed

end
