(* ===== verification/Network.thy ===== *)
theory Network
  imports Node
begin

text \<open>
  A network of nodes (\<open>Node\<close>), each with clients of its own, that exchange messages through gossip.
  Gossipsub between the nodes is part of libp2p: a message that a node has published can be delivered to any
  node that has not got it yet, at any time and in any order, or never; besides, anything can arrive at a
  node at any time from outside. The network also keeps books of what happened, which no node reads: the
  calls the nodes have accepted from their clients, the messages published and handled, and the events
  whose extrinsics the nodes have handed to their transaction pools.
\<close>

section \<open>State and steps\<close>

record ('s, 'c, 'pool, 'sw, 'i, 'sync) network =
  nw_node :: "nat \<Rightarrow> ('s, 'c, 'pool, 'sw, 'i, 'sync) node"
  nw_witnessed :: "(nat \<times> bytes) set"
  nw_wire :: "bytes set"
  nw_handled :: "(nat \<times> bytes) set"
  nw_submitted :: "(nat \<times> h256) set"

datatype network_label = Called nat | Published nat | Delivered nat | Forged nat | Imported nat

fun published :: "('sw, 'peer) swarm_ops \<Rightarrow> 'sw \<Rightarrow> ('v, 'peer) gossip_label \<Rightarrow> bytes set" where
  "published ops sw (TookOrder v (SendMessage topic m)) = (if isl (fst (sw_publish ops sw topic m)) then {} else {m})"
| "published ops sw l = {}"

text \<open>
  The event a message is about was handed to the pool: the pool is as after \<open>submit_local\<close> of its extrinsic.
\<close>

definition submits ::
    "('s, 'c, 'aid, 'ext, 'pool) handler_env \<Rightarrow> ('s, 'c, 'pool) gossip_handler \<Rightarrow> ('s, 'c, 'pool) gossip_handler
      \<Rightarrow> ('aid, 'ext) client \<Rightarrow> bytes \<Rightarrow> h256 \<Rightarrow> bool" where
  "submits he h h' v m e \<longleftrightarrow>
     (\<exists>w. de_event (he_bincode he) m = Inr w \<and> we_event_id w = e) \<and>
     (\<exists>ext. cl_create_unsigned_extrinsic v (best_hash (cl_info v)) e None = Inr ext \<and>
       gh_tx_pool h' = snd (submit_local (he_pool he) (gh_tx_pool h) (best_hash (cl_info v)) ext))"

definition after_gossip ::
    "('s, 'c, 'aid, 'ext, 'pool, 'sw, 'peer, 'i, 'r, 'sync) node_env \<Rightarrow> nat
      \<Rightarrow> ('s, 'c, 'pool, 'sw, 'i, 'sync) network \<Rightarrow> (('aid, 'ext) client, 'peer) gossip_label
      \<Rightarrow> ('sw, ('s, 'c, 'pool) gossip_handler) gossip_service \<Rightarrow> ('s, 'c, 'pool, 'sw, 'i, 'sync) network" where
  "after_gossip ne i s l svc =
     (let old = nd_service (nw_node s i)
      in s\<lparr>nw_node := (nw_node s)(i := (nw_node s i)\<lparr>nd_service := svc\<rparr>),
           nw_wire := nw_wire s \<union> published (ne_swarm ne) (gs_swarm old) l,
           nw_handled := nw_handled s \<union> (\<lambda>(v, m). (i, m)) ` set (messages [l]),
           nw_submitted := nw_submitted s \<union>
             {(i, e) | e. \<exists>(v, m) \<in> set (messages [l]). submits (ne_handler ne) (gs_handler old) (gs_handler svc) v m e}\<rparr>)"

inductive network_step ::
    "(nat \<Rightarrow> ('s, 'c, 'aid, 'ext, 'pool, 'sw, 'peer, 'i, 'r, 'sync) node_env) \<Rightarrow> (('aid, 'ext) client \<Rightarrow> bool)
      \<Rightarrow> ('s, 'c, 'pool, 'sw, 'i, 'sync) network \<Rightarrow> network_label \<Rightarrow> ('s, 'c, 'pool, 'sw, 'i, 'sync) network \<Rightarrow> bool"
  for ne seen where
  Call: "seen client \<Longrightarrow> node_witness (ne i) client (nw_node s i) b = (r, nd) \<Longrightarrow>
    network_step ne seen s (Called i)
      (s\<lparr>nw_node := (nw_node s)(i := nd),
         nw_witnessed := (if r = Inr () then insert (i, b) (nw_witnessed s) else nw_witnessed s)\<rparr>)"
| Publish: "seen v \<Longrightarrow> l = TookOrder v order \<Longrightarrow>
    gossip_step (ne_swarm (ne i)) (gossip_handle (ne_handler (ne i))) (nd_service (nw_node s i)) l svc \<Longrightarrow>
    network_step ne seen s (Published i) (after_gossip (ne i) i s l svc)"
| Deliver: "seen v \<Longrightarrow> l = TookEvent v (GossipsubMessage m) \<Longrightarrow> m \<in> nw_wire s \<Longrightarrow> (i, m) \<notin> nw_handled s \<Longrightarrow>
    gossip_step (ne_swarm (ne i)) (gossip_handle (ne_handler (ne i))) (nd_service (nw_node s i)) l svc \<Longrightarrow>
    network_step ne seen s (Delivered i) (after_gossip (ne i) i s l svc)"
| Forge: "seen v \<Longrightarrow> l = TookEvent v event \<Longrightarrow>
    gossip_step (ne_swarm (ne i)) (gossip_handle (ne_handler (ne i))) (nd_service (nw_node s i)) l svc \<Longrightarrow>
    network_step ne seen s (Forged i) (after_gossip (ne i) i s l svc)"
| Receive_Block: "seen client \<Longrightarrow> node_import (ne i) client (nw_node s i) block = (r, nd) \<Longrightarrow>
    network_step ne seen s (Imported i) (s\<lparr>nw_node := (nw_node s)(i := nd)\<rparr>)"

inductive network_run ::
    "(nat \<Rightarrow> ('s, 'c, 'aid, 'ext, 'pool, 'sw, 'peer, 'i, 'r, 'sync) node_env) \<Rightarrow> (('aid, 'ext) client \<Rightarrow> bool)
      \<Rightarrow> ('s, 'c, 'pool, 'sw, 'i, 'sync) network \<Rightarrow> network_label list \<Rightarrow> ('s, 'c, 'pool, 'sw, 'i, 'sync) network \<Rightarrow> bool"
  for ne seen where
  Idle: "network_run ne seen s [] s"
| Go: "network_step ne seen s l s1 \<Longrightarrow> network_run ne seen s1 ls s2 \<Longrightarrow> network_run ne seen s (l # ls) s2"

inductive_cases network_stepE: "network_step ne seen s l s'"

text \<open>
  The network at its start; \<open>witnessed\<close> are the calls the nodes accepted before, if they are restarted.
\<close>

definition network_start ::
    "(nat \<Rightarrow> ('s, 'c, 'pool, 'sw, 'i, 'sync) node) \<Rightarrow> (nat \<times> bytes) set \<Rightarrow> ('s, 'c, 'pool, 'sw, 'i, 'sync) network" where
  "network_start nodes witnessed =
     \<lparr>nw_node = nodes, nw_witnessed = witnessed, nw_wire = {}, nw_handled = {}, nw_submitted = {}\<rparr>"

lemma network_run_append:
  "network_run ne seen s ls s1 \<Longrightarrow> network_run ne seen s1 ls' s2 \<Longrightarrow> network_run ne seen s (ls @ ls') s2"
  by (induction rule: network_run.induct) (auto intro: network_run.intros)

section \<open>Each node of the network\<close>

text \<open>
  A step of the network is a step of one node, and the others stay as they are.
\<close>

lemma after_gossip_node:
  "nw_node (after_gossip ne i s l svc) = (nw_node s)(i := (nw_node s i)\<lparr>nd_service := svc\<rparr>)"
  "nw_witnessed (after_gossip ne i s l svc) = nw_witnessed s"
  by (simp_all add: after_gossip_def Let_def)

lemma network_step_node:
  assumes "network_step ne seen s l s'"
  shows "nw_node s' j = nw_node s j \<or> node_step (ne j) seen (nw_node s j) (nw_node s' j)"
  using assms
proof cases
  case (Call client i b r nd)
  then show ?thesis using node_step.Witness [of seen client "ne i"] by (cases "j = i") auto
next
  case (Publish v l' order i svc)
  then show ?thesis
    using node_step.Gossip [of seen l' "ne i" "nw_node s i" svc] by (cases "j = i") (simp_all add: after_gossip_node)
next
  case (Deliver v l' m i svc)
  then show ?thesis
    using node_step.Gossip [of seen l' "ne i" "nw_node s i" svc] by (cases "j = i") (simp_all add: after_gossip_node)
next
  case (Forge v l' event i svc)
  then show ?thesis
    using node_step.Gossip [of seen l' "ne i" "nw_node s i" svc] by (cases "j = i") (simp_all add: after_gossip_node)
next
  case (Receive_Block client i block r nd)
  then show ?thesis using node_step.Import [of seen client "ne i"] by (cases "j = i") auto
qed

lemma network_step_ok:
  assumes "network_step ne (view_of chain) s l s'" and "node_ok os chain (ne j) (nw_node s j)"
  shows "node_ok os chain (ne j) (nw_node s' j)"
  using network_step_node [OF assms(1), of j] assms(2) by (auto intro: node_step_ok)

lemma network_run_ok:
  assumes "network_run ne (view_of chain) s ls s'" and "node_ok os chain (ne j) (nw_node s j)"
  shows "node_ok os chain (ne j) (nw_node s' j)"
  using assms by (induction rule: network_run.induct) (auto intro: network_step_ok)

lemma network_step_seen:
  assumes "network_step ne seen s l s'" and "\<And>v. seen v \<Longrightarrow> seen' v"
  shows "network_step ne seen' s l s'"
  using assms(1)
proof cases
  case (Call client i b r nd)
  show ?thesis unfolding Call(1,2) by (rule network_step.Call) (use Call(3,4) assms(2) in auto)
next
  case (Receive_Block client i block r nd)
  show ?thesis unfolding Receive_Block(1,2)
    by (rule network_step.Receive_Block) (use Receive_Block(3,4) assms(2) in auto)
qed (auto intro: network_step.Publish network_step.Deliver network_step.Forge assms(2))

lemma network_run_seen:
  assumes "network_run ne seen s ls s'" and "\<And>v. seen v \<Longrightarrow> seen' v"
  shows "network_run ne seen' s ls s'"
  using assms(1) by induction (auto intro: network_run.intros network_step_seen assms(2))

section \<open>While the authorities stay the same\<close>

text \<open>
  \<open>steady\<close>: the node sees the chain with a finalized block whose authorities are \<open>al\<close>, and the runtime calls
  it makes succeed. \<open>valid_message\<close>: the message is event \<open>e\<close>, correctly signed by the authority \<open>k\<close>.
\<close>

definition steady ::
    "('s, 'c, 'aid, 'ext, 'pool) handler_env \<Rightarrow> (h256 \<Rightarrow> 'aid list) \<Rightarrow> authorities_list \<Rightarrow> ('aid, 'ext) client \<Rightarrow> bool" where
  "steady he chain al v \<longleftrightarrow>
     view_of chain v \<and> cl_authorities v (finalized_hash (cl_info v)) = Inr (chain (finalized_hash (cl_info v))) \<and>
     chain_authorities (he_from_id he) chain (finalized_hash (cl_info v)) = al \<and>
     (\<forall>e. \<exists>ext. cl_create_unsigned_extrinsic v (best_hash (cl_info v)) e None = Inr ext)"

definition valid_message ::
    "('s, 'c, 'aid, 'ext, 'pool) handler_env \<Rightarrow> authorities_list \<Rightarrow> bytes \<Rightarrow> h256 \<Rightarrow> crypto_pair \<Rightarrow> bool" where
  "valid_message he al m e k \<longleftrightarrow>
     (\<exists>w. de_event (he_bincode he) m = Inr w \<and> verify_witnessed_event_origin (he_sr25519 he) al w = Inr w \<and>
       we_event_id w = e \<and> we_pub_key w = k)"

definition handler_sound ::
    "'st offchain_storage \<Rightarrow> (h256 \<Rightarrow> 'aid list) \<Rightarrow> ('st, 'c, 'aid, 'ext, 'pool) handler_env
      \<Rightarrow> ('st, 'c, 'pool) gossip_handler \<Rightarrow> bool" where
  "handler_sound os chain he h \<longleftrightarrow> offchain_handler_ok os chain he h \<and> \<not> bs_poisoned (gh_block_state h)"

definition signers ::
    "'st offchain_storage \<Rightarrow> ('st, 'c, 'aid, 'ext, 'pool) handler_env \<Rightarrow> authorities_list
      \<Rightarrow> ('st, 'c, 'pool) gossip_handler \<Rightarrow> h256 \<Rightarrow> crypto_pair set" where
  "signers os he al h e = {k \<in> set (authorities al). offchain_proof os (he_bincode he) (gh_event_proofs h) e k \<noteq> None}"

lemma get_authorities_list_poisoned:
  assumes "get_authorities_list lru from_id bs client h = (r, bs')"
  shows "bs_poisoned bs' = bs_poisoned bs"
  using assms
  by (auto simp: get_authorities_list_def Let_def split: if_splits option.splits sum.splits prod.splits)

lemma steady_latest:
  assumes "handler_sound os chain he h" and "steady he chain al v"
  obtains bs where
    "get_latest_authorities_list (he_lru he) (he_from_id he) (gh_block_state h) v = (Inr al, bs)"
proof -
  let ?h = "finalized_hash (cl_info v)"
  have lru: "lru_laws (he_lru he)" and cache: "cache_of (he_lru he) (he_from_id he) chain (gh_block_state h)"
    and lock: "\<not> bs_poisoned (gh_block_state h)" and view: "view_of chain v"
    using assms by (simp_all add: handler_sound_def offchain_handler_ok_def steady_def)
  obtain r bs where g: "get_authorities_list (he_lru he) (he_from_id he) (gh_block_state h) v ?h = (r, bs)"
    by (cases "get_authorities_list (he_lru he) (he_from_id he) (gh_block_state h) v ?h")
  then obtain al' where "r = Inr al'"
    using lock assms(2)
    by (auto simp: get_authorities_list_def steady_def Let_def split: option.splits prod.splits)
  then show ?thesis
    using get_authorities_list_of(1) [OF lru cache view g] g assms(2) that
    by (auto simp: get_latest_authorities_list_def steady_def)
qed

text \<open>
  One message: the proofs afterwards are those before and the one in the message if it is valid; and if
  the event then has enough of them it goes to the pool.
\<close>

lemma gossip_handle_poisoned:
  assumes "gossip_handle he v h m = (r, h')"
  shows "bs_poisoned (gh_block_state h') = bs_poisoned (gh_block_state h)"
proof -
  obtain g bs where g: "get_latest_authorities_list (he_lru he) (he_from_id he) (gh_block_state h) v = (g, bs)"
    by (cases "get_latest_authorities_list (he_lru he) (he_from_id he) (gh_block_state h) v")
  note p = get_authorities_list_poisoned [OF g [unfolded get_latest_authorities_list_def]]
  have "bs_poisoned (gh_block_state (snd (handle_witnessed_event he v h w))) = bs_poisoned (gh_block_state h)" for w
    using g p
    by (simp add: handle_witnessed_event_def Let_def submit_if_target_keeps(2) [OF prod.collapse [symmetric]]
        split: sum.splits prod.splits)
  then show ?thesis
    using assms by (auto simp: gossip_handle_def split: sum.splits prod.splits failure.splits) (metis snd_conv)+
qed

lemma handle_one:
  assumes h: "handler_sound os chain he h" and v: "steady he chain al v" and run: "gossip_handle he v h m = (r, h')"
  shows "handler_sound os chain he h'"
    and "k \<in> set (authorities al) \<Longrightarrow>
      (offchain_proof os (he_bincode he) (gh_event_proofs h') e k \<noteq> None) =
      (offchain_proof os (he_bincode he) (gh_event_proofs h) e k \<noteq> None \<or> valid_message he al m e k)"
proof -
  have ok: "offchain_handler_ok os chain he h" and view: "view_of chain v"
    using h v by (simp_all add: handler_sound_def steady_def)
  show "handler_sound os chain he h'"
    using gh.handle_ok [OF view ok run] gossip_handle_poisoned [OF run] h by (simp add: handler_sound_def)
  obtain bs where al: "get_latest_authorities_list (he_lru he) (he_from_id he) (gh_block_state h) v = (Inr al, bs)"
    by (rule steady_latest [OF h v])
  show "(offchain_proof os (he_bincode he) (gh_event_proofs h') e k \<noteq> None) =
      (offchain_proof os (he_bincode he) (gh_event_proofs h) e k \<noteq> None \<or> valid_message he al m e k)"
    if k: "k \<in> set (authorities al)"
  proof (cases "de_event (he_bincode he) m")
    case (Inl err)
    then show ?thesis using run by (simp add: gossip_handle_def valid_message_def)
  next
    case (Inr w)
    have h': "h' = snd (handle_witnessed_event he v h w)"
      using run Inr by (auto simp: gossip_handle_def split: sum.splits prod.splits failure.splits)
    show ?thesis
    proof (cases "verify_witnessed_event_origin (he_sr25519 he) al w = Inr w")
      case True
      have ops: "he_proofs he = offchain_ops os (he_bincode he)"
        and inv: "offchain_invar os (he_bincode he) (gh_event_proofs h)"
        using ok by (simp_all add: offchain_handler_ok_def handler_ok_def)
      obtain st where p: "\<And>e k. offchain_proof os (he_bincode he) st e k =
          (if e = we_event_id w \<and> k = we_pub_key w then Some (we_signature w)
           else if e = we_event_id w \<and> k \<notin> set (authorities al) then None
           else offchain_proof os (he_bincode he) (gh_event_proofs h) e k)"
        and handled: "handle_witnessed_event he v h w =
          submit_if_target he v al (h\<lparr>gh_block_state := bs, gh_event_proofs := st\<rparr>) (we_event_id w)"
        by (rule offchain_handle_stores [OF ops inv al True]) blast
      have "gh_event_proofs h' = st"
        unfolding h' handled by (simp add: submit_if_target_keeps(1) [OF prod.collapse [symmetric]])
      then show ?thesis using k p Inr True by (auto simp: valid_message_def)
    next
      case False
      then obtain f where "verify_witnessed_event_origin (he_sr25519 he) al w = Inl f" using verify_origin_total by blast
      then have "gh_event_proofs h' = gh_event_proofs h" unfolding h' using al by (simp add: handle_witnessed_event_def)
      then show ?thesis using Inr False by (auto simp: valid_message_def)
    qed
  qed
qed

lemma handle_one_submits:
  assumes h: "handler_sound os chain he h" and v: "steady he chain al v" and run: "gossip_handle he v h m = (r, h')"
    and off: "he_off_chain_proofs he" and d: "distinct (authorities al)" "length (authorities al) < 65536"
    and m: "valid_message he al m e k" and t: "unat (target al) \<le> card (signers os he al h' e)"
  shows "submits he h h' v m e"
proof -
  have ops: "he_proofs he = offchain_ops os (he_bincode he)"
    and inv: "offchain_invar os (he_bincode he) (gh_event_proofs h)"
    using h by (simp_all add: handler_sound_def offchain_handler_ok_def handler_ok_def)
  obtain w where w: "de_event (he_bincode he) m = Inr w" "verify_witnessed_event_origin (he_sr25519 he) al w = Inr w"
    "we_event_id w = e" "we_pub_key w = k"
    using m by (auto simp: valid_message_def)
  obtain bs where al: "get_latest_authorities_list (he_lru he) (he_from_id he) (gh_block_state h) v = (Inr al, bs)"
    by (rule steady_latest [OF h v])
  obtain ext where ext: "cl_create_unsigned_extrinsic v (best_hash (cl_info v)) (we_event_id w) None = Inr ext"
    using v unfolding steady_def by blast
  have "valid_message he al m e k' \<longleftrightarrow> k' = k" for k' using w by (auto simp: valid_message_def)
  then have "signers os he al h' e = {k' \<in> set (authorities al). k' = we_pub_key w \<or>
      offchain_proof os (he_bincode he) (gh_event_proofs h) (we_event_id w) k' \<noteq> None}"
    using handle_one(2) [OF h v run, of _ e] w(3,4) unfolding signers_def by auto
  then have "unat (target al) \<le> card {k' \<in> set (authorities al). k' = we_pub_key w \<or>
      offchain_proof os (he_bincode he) (gh_event_proofs h) (we_event_id w) k' \<noteq> None}"
    using t by simp
  from offchain_handle_submits [OF ops inv al w(2) d this off ext]
  have pool: "gh_tx_pool (snd (handle_witnessed_event he v h w)) =
      snd (submit_local (he_pool he) (gh_tx_pool h) (best_hash (cl_info v)) ext)" by blast
  have "h' = snd (handle_witnessed_event he v h w)"
    using run w(1) by (auto simp: gossip_handle_def split: sum.splits prod.splits failure.splits)
  with pool w ext show ?thesis unfolding submits_def by auto
qed

section \<open>What holds in every state of the network\<close>

text \<open>
  The nodes run the same program, each with one key of its own, which its keystore signs with, and
  publishing a message works.
\<close>

definition same_program ::
    "('st, 'c, 'aid, 'ext, 'pool) handler_env \<Rightarrow> authorities_list \<Rightarrow> (nat \<Rightarrow> crypto_pair)
      \<Rightarrow> (nat \<Rightarrow> ('st, 'c, 'aid, 'ext, 'pool, 'sw, 'peer, 'i, 'r, 'sync) node_env) \<Rightarrow> bool" where
  "same_program he al key ne \<longleftrightarrow>
     he_off_chain_proofs he \<and> distinct (authorities al) \<and> length (authorities al) < 65536 \<and>
     (\<forall>i. ne_handler (ne i) = he \<and> keystore_laws (he_sr25519 he) (ne_keystore (ne i)) \<and>
       (\<forall>supported. ks_supported_keys (ne_keystore (ne i)) (authorities al) = Inr supported \<longrightarrow> set supported \<subseteq> {key i}) \<and>
       (\<forall>sw topic m. \<not> isl (fst (sw_publish (ne_swarm (ne i)) sw topic m))))"

abbreviation node_handler where
  "node_handler s i \<equiv> gs_handler (nd_service (nw_node s i))"

abbreviation node_orders where
  "node_orders s i \<equiv> ch_orders (gs_channel (nd_service (nw_node s i)))"

text \<open>
  A message is under way when it has been published, or node \<open>i\<close> is about to publish it.
\<close>

definition under_way :: "('st, 'c, 'pool, 'sw, 'i, 'sync) network \<Rightarrow> nat \<Rightarrow> bytes \<Rightarrow> bool" where
  "under_way s i m \<longleftrightarrow> m \<in> nw_wire s \<or> SendMessage WITNESSED_EVENTS_TOPIC m \<in> set (node_orders s i)"

definition node_sound ::
    "'st offchain_storage \<Rightarrow> (h256 \<Rightarrow> 'aid list) \<Rightarrow> ('st, 'c, 'aid, 'ext, 'pool) handler_env
      \<Rightarrow> ('st, 'c, 'pool, 'sw, 'i, 'sync) network \<Rightarrow> nat \<Rightarrow> bool" where
  "node_sound os chain he s i \<longleftrightarrow> live (handler_sound os chain he) (nd_service (nw_node s i))"

text \<open>
  \<open>handled_stored\<close>: the stored proofs are those of the valid messages the node has handled. \<open>quorum_submitted\<close>: an
  event with enough stored proofs has been handed to the pool. \<open>witnessed_under_way\<close>: every event a node
  has agreed to witness is in a valid message that is under way.
\<close>

definition handled_stored where
  "handled_stored os he al s i \<longleftrightarrow>
     (\<forall>e. signers os he al (node_handler s i) e = {k. \<exists>m. (i, m) \<in> nw_handled s \<and> valid_message he al m e k})"

definition quorum_submitted where
  "quorum_submitted os he al s i \<longleftrightarrow>
     (\<forall>e. unat (target al) \<le> card (signers os he al (node_handler s i) e) \<longrightarrow> (i, e) \<in> nw_submitted s)"

definition witnessed_under_way where
  "witnessed_under_way he al key s i \<longleftrightarrow>
     (\<forall>e. (i, as_bytes e) \<in> nw_witnessed s \<longrightarrow> (\<exists>m. valid_message he al m e (key i) \<and> under_way s i m))"

definition network_inv where
  "network_inv os chain he al key s i \<longleftrightarrow>
     node_sound os chain he s i \<and> handled_stored os he al s i \<and> quorum_submitted os he al s i \<and>
     witnessed_under_way he al key s i"

lemma valid_message_authority: "valid_message he al m e k \<Longrightarrow> k \<in> set (authorities al)"
  by (auto simp: valid_message_def verify_origin_Inr)

text \<open>
  The message handler of a sound node, for the gossip service.
\<close>

interpretation sh: gossip_handler_trait "gossip_handle he" "steady he chain al" "handler_sound os chain he"
  for he chain al os
proof (unfold_locales, goal_cases)
  case (1 v h m r h')
  have view: "view_of chain v" and ok: "offchain_handler_ok os chain he h"
    using 1 by (simp_all add: steady_def handler_sound_def)
  show ?case using gh.handle_ok [OF view ok 1(3)] handle_one(1) [OF 1(2,1,3)] by simp
qed

lemma messages_one:
  obtains "messages [l] = []" | v m where "messages [l] = [(v, m)]" and "label_seen seen l \<longrightarrow> seen v"
  by (cases "[l]" rule: messages.cases) auto

lemma gossip_under_way:
  assumes prog: "same_program he al key ne" and live: "live (handler_sound os chain he) (nd_service (nw_node s i))"
    and step: "gossip_step (ne_swarm (ne i)) (gossip_handle he) (nd_service (nw_node s i)) l svc"
    and seen: "label_seen (steady he chain al) l" and l: "sent [l] = []" and m: "under_way s i m"
  shows "under_way (after_gossip (ne i) i s l svc) i m"
proof -
  let ?s = "after_gossip (ne i) i s l svc"
  have taken: "SendMessage WITNESSED_EVENTS_TOPIC m \<in> set (taken [l]) \<Longrightarrow> m \<in> nw_wire ?s"
    using prog by (cases "[l]" rule: taken.cases) (auto simp: after_gossip_def same_program_def Let_def)
  have "set (node_orders s i) = set (taken [l]) \<union> set (ch_orders (gs_channel svc))"
    using sh.step_live(2) [OF step live seen] l by (metis append_Nil2 set_append)
  then show ?thesis using taken m by (auto simp: under_way_def after_gossip_def Let_def)
qed

lemma gossip_inv:
  assumes prog: "same_program he al key ne" and inv: "network_inv os chain he al key s i"
    and step: "gossip_step (ne_swarm (ne i)) (gossip_handle he) (nd_service (nw_node s i)) l svc"
    and seen: "label_seen (steady he chain al) l" and l: "sent [l] = []"
  shows "network_inv os chain he al key (after_gossip (ne i) i s l svc) i"
proof -
  let ?svc = "nd_service (nw_node s i)" and ?s = "after_gossip (ne i) i s l svc"
  have he: "ne_handler (ne i) = he" using prog by (simp add: same_program_def)
  have live: "live (handler_sound os chain he) ?svc"
    using inv by (simp add: network_inv_def node_sound_def)
  note st = sh.step_live [OF step live seen]
  have h: "handler_sound os chain he (gs_handler ?svc)" using live by (simp add: live_def)
  have node: "nd_service (nw_node ?s i) = svc" by (simp add: after_gossip_def Let_def)
  have books: "nw_handled ?s = nw_handled s \<union> (\<lambda>(v, m). (i, m)) ` set (messages [l])"
    "nw_witnessed ?s = nw_witnessed s"
    "nw_submitted ?s = nw_submitted s \<union> {(i, e) | e. \<exists>(v, m) \<in> set (messages [l]).
      submits he (gs_handler ?svc) (gs_handler svc) v m e}"
    "nw_wire ?s = nw_wire s \<union> published (ne_swarm (ne i)) (gs_swarm ?svc) l"
    by (simp_all add: after_gossip_def Let_def he)
  have sound: "node_sound os chain he ?s i" using st(1) node by (simp add: node_sound_def)
  have "under_way s i m \<Longrightarrow> under_way ?s i m" for m by (rule gossip_under_way [OF prog live step seen l])
  then have witnessed: "witnessed_under_way he al key ?s i"
    using inv books(2) unfolding network_inv_def witnessed_under_way_def by metis
  have old: "handled_stored os he al s i" "quorum_submitted os he al s i"
    using inv by (simp_all add: network_inv_def)
  have "handled_stored os he al ?s i \<and> quorum_submitted os he al ?s i"
  proof (rule messages_one [where l = l and seen = "steady he chain al"])
    assume "messages [l] = []"
    then show ?thesis
      using old st(3) books(1,3) by (simp add: handled_stored_def quorum_submitted_def node)
  next
    fix v m
    assume m: "messages [l] = [(v, m)]" and "label_seen (steady he chain al) l \<longrightarrow> steady he chain al v"
    then have v: "steady he chain al v" using seen by simp
    have run: "gossip_handle he v (gs_handler ?svc) m = (Inr (), gs_handler svc)"
      using st(3) m by (auto split: sum.splits prod.splits)
    have s1: "signers os he al (gs_handler svc) e =
        signers os he al (gs_handler ?svc) e \<union> {k. valid_message he al m e k}" for e
      using handle_one(2) [OF h v run, of _ e] valid_message_authority unfolding signers_def by blast
    have "handled_stored os he al ?s i"
      using old(1) m unfolding handled_stored_def node books(1) s1 by auto
    moreover have "(i, e) \<in> nw_submitted ?s" if t: "unat (target al) \<le> card (signers os he al (gs_handler svc) e)" for e
    proof (cases "\<exists>k. valid_message he al m e k")
      case True
      then obtain k where "valid_message he al m e k" by blast
      then have "submits he (gs_handler ?svc) (gs_handler svc) v m e"
        using prog handle_one_submits [OF h v run _ _ _ _ t] by (simp add: same_program_def)
      then show ?thesis using m books(3) by auto
    next
      case False
      then show ?thesis using old(2) t s1 [of e] books(3) unfolding quorum_submitted_def by auto
    qed
    ultimately show ?thesis unfolding quorum_submitted_def node by blast
  qed
  with sound witnessed show ?thesis by (simp add: network_inv_def)
qed

text \<open>
  A call or an import changes the cache of authority lists only, and a call that succeeds puts the
  signed event into the channel.
\<close>

lemma inv_same_proofs:
  assumes inv: "network_inv os chain he al key s i"
    and h: "handler_sound os chain he (node_handler s' i)"
      "gh_event_proofs (node_handler s' i) = gh_event_proofs (node_handler s i)"
    and ch: "ch_receiver (gs_channel (nd_service (nw_node s' i))) = ch_receiver (gs_channel (nd_service (nw_node s i)))"
    and books: "nw_handled s' = nw_handled s" "nw_submitted s' = nw_submitted s"
    and witnessed: "witnessed_under_way he al key s' i"
  shows "network_inv os chain he al key s' i"
  using assms
  by (simp add: network_inv_def node_sound_def live_def handled_stored_def quorum_submitted_def signers_def)

lemma set_block_state_sound:
  assumes "handler_sound os chain he (gs_handler svc)" and "cache_of (he_lru he) (he_from_id he) chain bs"
    and "\<not> bs_poisoned bs"
  shows "handler_sound os chain he (gs_handler (set_block_state bs svc))"
    and "gh_event_proofs (gs_handler (set_block_state bs svc)) = gh_event_proofs (gs_handler svc)"
    and "gs_channel (set_block_state bs svc) = gs_channel svc"
  using assms by (simp_all add: set_block_state_def handler_sound_def offchain_handler_ok_def handler_ok_def)

lemma import_poisoned:
  assumes "import_block ops lru from_id count syncing client bi block = (r, bi')"
  shows "bs_poisoned (bi_block_state bi') = bs_poisoned (bi_block_state bi)"
proof -
  obtain g bs where g: "get_authorities_list lru from_id (bi_block_state bi) client (bip_parent_hash block) = (g, bs)"
    by (cases "get_authorities_list lru from_id (bi_block_state bi) client (bip_parent_hash block)")
  show ?thesis
    using assms g get_authorities_list_poisoned [OF g]
    by (auto simp: import_block_def verify_events_validity_def lift_parent_def Let_def
        split: prod.splits sum.splits option.splits if_splits sync_slot.splits)
qed

lemma witness_poisoned:
  assumes "grpc_witness_event (witness_event lru from_id bc ks client) ew b = (r, ew')"
  shows "bs_poisoned (ew_block_state ew') = bs_poisoned (ew_block_state ew)"
proof -
  obtain g bs where g: "get_authorities_list lru from_id (ew_block_state ew) client
      (finalized_hash (cl_info client)) = (g, bs)"
    by (cases "get_authorities_list lru from_id (ew_block_state ew) client (finalized_hash (cl_info client))")
  show ?thesis
    using assms g get_authorities_list_poisoned [OF g]
    by (auto simp: grpc_witness_event_def witness_event_def get_latest_authorities_list_def
        split: prod.splits sum.splits option.splits if_splits)
qed

lemma import_inv:
  assumes prog: "same_program he al key ne" and inv: "network_inv os chain he al key s i"
    and view: "view_of chain client" and run: "node_import (ne i) client (nw_node s i) block = (r, nd)"
  shows "network_inv os chain he al key (s\<lparr>nw_node := (nw_node s)(i := nd)\<rparr>) i"
proof -
  let ?h = "node_handler s i"
  have he: "ne_handler (ne i) = he" using prog by (simp add: same_program_def)
  have h: "handler_sound os chain he ?h" using inv by (simp add: network_inv_def node_sound_def live_def)
  then have lru: "lru_laws (he_lru he)" and cache: "cache_of (he_lru he) (he_from_id he) chain (gh_block_state ?h)"
    and lock: "\<not> bs_poisoned (gh_block_state ?h)"
    by (simp_all add: handler_sound_def offchain_handler_ok_def)
  obtain bi where bi: "import_block (ne_import (ne i)) (he_lru he) (he_from_id he) (ep_count (he_proofs he))
      (ne_is_major_syncing (ne i)) client
      \<lparr>parent_block_import = nd_parent_import (nw_node s i), bi_event_proofs = gh_event_proofs ?h,
       sync_service = nd_sync (nw_node s i), bi_block_state = gh_block_state ?h\<rparr> block = (r, bi)"
    and nd: "nd_service nd = set_block_state (bi_block_state bi) (nd_service (nw_node s i))"
    using run by (auto simp: node_import_def he Let_def split: prod.splits)
  have "cache_of (he_lru he) (he_from_id he) chain (bi_block_state bi)"
    using import_block_state [OF lru _ view bi] cache by simp
  moreover have "\<not> bs_poisoned (bi_block_state bi)" using import_poisoned [OF bi] lock by simp
  ultimately have sound: "handler_sound os chain he (gs_handler (nd_service nd))"
    "gh_event_proofs (gs_handler (nd_service nd)) = gh_event_proofs ?h"
    "gs_channel (nd_service nd) = gs_channel (nd_service (nw_node s i))"
    unfolding nd by (rule set_block_state_sound [OF h])+
  show ?thesis
    by (rule inv_same_proofs [OF inv])
      (use sound inv in \<open>simp_all add: network_inv_def witnessed_under_way_def under_way_def\<close>)
qed

lemma sign_event_key:
  assumes "bincode_laws bc" and "sign_event bc ks al e = Inr m" and "de_event bc m = Inr w"
  shows "\<exists>rest. ks_supported_keys ks (authorities al) = Inr (we_pub_key w # rest)"
proof -
  obtain k rest g where k: "ks_supported_keys ks (authorities al) = Inr (k # rest)"
    and "ser_event bc \<lparr>we_signature = g, we_pub_key = k, we_event_id = e\<rparr> = Inr m"
    using assms(2) by (auto simp: sign_event_def question_def and_then_eq_Inr split: sum.splits list.splits option.splits)
  then have "de_event bc m = Inr \<lparr>we_signature = g, we_pub_key = k, we_event_id = e\<rparr>"
    using bincode_eventE [OF assms(1)] by (metis Inr_inject)
  then show ?thesis using assms(3) k by auto
qed

lemma call_orders:
  assumes "node_witness ne client nd b = (r, nd')"
  shows "set (ch_orders (gs_channel (nd_service nd))) \<subseteq> set (ch_orders (gs_channel (nd_service nd')))"
  using assms
  by (auto simp: node_witness_def set_block_state_def grpc_witness_event_def witness_event_def publish_def
      send_order_def Let_def split: prod.splits sum.splits option.splits if_splits)

lemma import_orders:
  assumes "node_import ne client nd block = (r, nd')"
  shows "gs_channel (nd_service nd') = gs_channel (nd_service nd)"
  using assms by (auto simp: node_import_def set_block_state_def Let_def split: prod.splits)

lemma call_inv:
  assumes prog: "same_program he al key ne" and inv: "network_inv os chain he al key s i"
    and v: "steady he chain al client" and run: "node_witness (ne i) client (nw_node s i) b = (r, nd)"
    and s': "s' = s\<lparr>nw_node := (nw_node s)(i := nd),
      nw_witnessed := (if r = Inr () then insert (i, b) (nw_witnessed s) else nw_witnessed s)\<rparr>"
  shows "network_inv os chain he al key s' i"
proof -
  let ?h = "node_handler s i" and ?svc = "nd_service (nw_node s i)"
  have he: "ne_handler (ne i) = he" and ks: "keystore_laws (he_sr25519 he) (ne_keystore (ne i))"
    and own: "\<And>supported. ks_supported_keys (ne_keystore (ne i)) (authorities al) = Inr supported \<Longrightarrow> set supported \<subseteq> {key i}"
    using prog by (auto simp: same_program_def)
  have h: "handler_sound os chain he ?h" and live: "ch_receiver (gs_channel ?svc)"
    using inv by (simp_all add: network_inv_def node_sound_def live_def)
  then have lru: "lru_laws (he_lru he)" and cache: "cache_of (he_lru he) (he_from_id he) chain (gh_block_state ?h)"
    and lock: "\<not> bs_poisoned (gh_block_state ?h)" and bc: "bincode_laws (he_bincode he)"
    by (simp_all add: handler_sound_def offchain_handler_ok_def handler_ok_def offchain_invar_def)
  have view: "view_of chain client" using v by (simp add: steady_def)
  let ?ew = "\<lparr>ew_gossip = gs_channel ?svc, ew_block_state = gh_block_state ?h\<rparr>"
  obtain ew where ew: "grpc_witness_event (witness_event (he_lru he) (he_from_id he) (he_bincode he)
      (ne_keystore (ne i)) client) ?ew b = (r, ew)"
    and nd: "nd_service nd = set_block_state (ew_block_state ew) (?svc\<lparr>gs_channel := ew_gossip ew\<rparr>)"
    using run by (auto simp: node_witness_def he Let_def split: prod.splits)
  note bs = witness_block_state [OF lru _ view ew]
  have sound: "handler_sound os chain he (gs_handler (nd_service nd))"
    "gh_event_proofs (gs_handler (nd_service nd)) = gh_event_proofs ?h"
    "gs_channel (nd_service nd) = ew_gossip ew"
    using h cache bs(1) witness_poisoned [OF ew] lock unfolding nd
    by (simp_all add: set_block_state_def handler_sound_def offchain_handler_ok_def handler_ok_def)
  have orders: "set (node_orders s i) \<subseteq> set (node_orders s' i)" using call_orders [OF run] by (simp add: s')
  have new: "\<exists>m. valid_message he al m e (key i) \<and> under_way s' i m" if r: "r = Inr ()" and b: "b = as_bytes e" for e
  proof -
    have "node_witness (ne i) client (nw_node s i) (as_bytes e) = (Inr (), nd)" using run r b by simp
    then obtain al' bs m where g: "get_latest_authorities_list (he_lru he) (he_from_id he) (gh_block_state ?h) client =
        (Inr al', bs)"
      and m: "sign_event (he_bincode he) (ne_keystore (ne i)) al' e = Inr m"
      and nd: "nd_service nd = set_block_state bs (?svc\<lparr>gs_channel := publish (gs_channel ?svc) WITNESSED_EVENTS_TOPIC m\<rparr>)"
      by (rule node_witness_Ok) (use he in auto)
    obtain bs2 where "get_latest_authorities_list (he_lru he) (he_from_id he) (gh_block_state ?h) client = (Inr al, bs2)"
      by (rule steady_latest [OF h v])
    then have "al' = al" using g by simp
    obtain w where w: "de_event (he_bincode he) m = Inr w" "we_event_id w = e"
      "verify_witnessed_event_origin (he_sr25519 he) al w = Inr w"
      by (rule sign_event_cases [OF ks bc m [unfolded \<open>al' = al\<close>]])
    have "we_pub_key w = key i" using sign_event_key [OF bc m w(1)] own \<open>al' = al\<close> by fastforce
    then have "valid_message he al m e (key i)" using w by (auto simp: valid_message_def)
    moreover have "under_way s' i m"
      using live nd by (simp add: under_way_def s' set_block_state_def publish_def send_order_def)
    ultimately show ?thesis by blast
  qed
  have old: "under_way s i m \<Longrightarrow> under_way s' i m" for m using orders by (auto simp: under_way_def s')
  have "witnessed_under_way he al key s' i"
    unfolding witnessed_under_way_def
  proof (intro allI impI)
    fix e
    assume "(i, as_bytes e) \<in> nw_witnessed s'"
    then consider "(i, as_bytes e) \<in> nw_witnessed s" | "r = Inr ()" "b = as_bytes e" by (auto simp: s' split: if_splits)
    then show "\<exists>m. valid_message he al m e (key i) \<and> under_way s' i m"
      using inv old new unfolding network_inv_def witnessed_under_way_def by cases blast+
  qed
  then show ?thesis
    using sound bs(2) cache by (intro inv_same_proofs [OF inv]) (simp_all add: s')
qed

text \<open>
  The other nodes do not notice.
\<close>

lemma inv_others:
  assumes "network_inv os chain he al key s j" and "nw_node s' j = nw_node s j"
    and "\<And>m. (j, m) \<in> nw_handled s' \<longleftrightarrow> (j, m) \<in> nw_handled s" and "nw_submitted s \<subseteq> nw_submitted s'"
    and "\<And>b. (j, b) \<in> nw_witnessed s' \<longleftrightarrow> (j, b) \<in> nw_witnessed s" and "nw_wire s \<subseteq> nw_wire s'"
  shows "network_inv os chain he al key s' j"
proof -
  have "under_way s j m \<Longrightarrow> under_way s' j m" for m using assms(2,6) by (auto simp: under_way_def)
  then have "witnessed_under_way he al key s' j"
    using assms(1,5) unfolding network_inv_def witnessed_under_way_def by metis
  then show ?thesis
    using assms(1-4)
    by (auto simp: network_inv_def node_sound_def handled_stored_def quorum_submitted_def)
qed

lemma after_gossip_others:
  assumes "network_inv os chain he al key s j" and "j \<noteq> i"
  shows "network_inv os chain he al key (after_gossip ne i s l svc) j"
  by (rule inv_others [OF assms(1)]) (use assms(2) in \<open>auto simp: after_gossip_def Let_def\<close>)

lemma network_step_inv:
  assumes step: "network_step ne (steady he chain al) s l s'" and prog: "same_program he al key ne"
    and inv: "\<And>j. network_inv os chain he al key s j"
  shows "network_inv os chain he al key s' j"
proof -
  have he: "ne_handler (ne i) = he" for i using prog by (simp add: same_program_def)
  have gossip: "network_inv os chain he al key (after_gossip (ne i) i s gl svc) j"
    if "gossip_step (ne_swarm (ne i)) (gossip_handle (ne_handler (ne i))) (nd_service (nw_node s i)) gl svc"
      "label_seen (steady he chain al) gl" "sent [gl] = []" for i gl svc
    using gossip_inv [OF prog inv] after_gossip_others [OF inv] that by (cases "j = i") (simp_all add: he)
  show ?thesis
    using step
  proof cases
    case (Call client i b r nd)
    show ?thesis
    proof (cases "j = i")
      case True
      show ?thesis using call_inv [OF prog inv Call(3,4)] True Call(2) by simp
    next
      case False
      then show ?thesis by (intro inv_others [OF inv]) (auto simp: Call(2))
    qed
  next
    case (Publish v gl order i svc)
    then show ?thesis using gossip [of i gl svc] by simp
  next
    case (Deliver v gl m i svc)
    then show ?thesis using gossip [of i gl svc] by simp
  next
    case (Forge v gl event i svc)
    then show ?thesis using gossip [of i gl svc] by simp
  next
    case (Receive_Block client i block r nd)
    have view: "view_of chain client" using Receive_Block(3) by (simp add: steady_def)
    show ?thesis
    proof (cases "j = i")
      case True
      show ?thesis using import_inv [OF prog inv view Receive_Block(4)] True Receive_Block(2) by simp
    next
      case False
      then show ?thesis by (intro inv_others [OF inv]) (auto simp: Receive_Block(2))
    qed
  qed
qed

lemma network_run_inv:
  assumes "network_run ne (steady he chain al) s ls s'" and prog: "same_program he al key ne"
    and "\<And>j. network_inv os chain he al key s j"
  shows "network_inv os chain he al key s' j"
  using assms(1,3)
proof (induction arbitrary: j rule: network_run.induct)
  case (Go s l s1 ls s2)
  then show ?case using network_step_inv [OF Go.hyps(1) prog] by blast
qed

text \<open>
  Nothing that is under way or handled is lost.
\<close>

lemma network_step_grows:
  assumes step: "network_step ne (steady he chain al) s l s'" and prog: "same_program he al key ne"
    and inv: "\<And>j. network_inv os chain he al key s j"
  shows "nw_wire s \<subseteq> nw_wire s'" and "nw_handled s \<subseteq> nw_handled s'" and "nw_submitted s \<subseteq> nw_submitted s'"
    and "under_way s j m \<Longrightarrow> under_way s' j m"
proof -
  have "nw_wire s \<subseteq> nw_wire s' \<and> nw_handled s \<subseteq> nw_handled s' \<and> nw_submitted s \<subseteq> nw_submitted s'"
    using step by cases (auto simp: after_gossip_def Let_def)
  then show "nw_wire s \<subseteq> nw_wire s'" "nw_handled s \<subseteq> nw_handled s'" "nw_submitted s \<subseteq> nw_submitted s'"
    by blast+
  have he: "ne_handler (ne i) = he" for i using prog by (simp add: same_program_def)
  have live: "live (handler_sound os chain he) (nd_service (nw_node s i))" for i
    using inv by (simp add: network_inv_def node_sound_def)
  assume m: "under_way s j m"
  have gossip: "under_way (after_gossip (ne i) i s gl svc) j m"
    if "gossip_step (ne_swarm (ne i)) (gossip_handle (ne_handler (ne i))) (nd_service (nw_node s i)) gl svc"
      "label_seen (steady he chain al) gl" "sent [gl] = []" for i gl svc
  proof (cases "j = i")
    case True
    then show ?thesis using gossip_under_way [OF prog live that(1) [unfolded he] that(2,3)] m by simp
  next
    case False
    then show ?thesis using m by (auto simp: under_way_def after_gossip_def Let_def)
  qed
  show "under_way s' j m"
    using step
  proof cases
    case (Call client i b r nd)
    then show ?thesis using m call_orders [OF Call(4)] by (cases "j = i") (auto simp: under_way_def)
  next
    case (Publish v gl order i svc)
    then show ?thesis using gossip [of i gl svc] by simp
  next
    case (Deliver v gl m i svc)
    then show ?thesis using gossip [of i gl svc] by simp
  next
    case (Forge v gl event i svc)
    then show ?thesis using gossip [of i gl svc] by simp
  next
    case (Receive_Block client i block r nd)
    then show ?thesis using m import_orders [OF Receive_Block(4)] by (cases "j = i") (auto simp: under_way_def)
  qed
qed

lemma network_run_grows:
  assumes "network_run ne (steady he chain al) s ls s'" and prog: "same_program he al key ne"
    and "\<And>j. network_inv os chain he al key s j"
  shows "nw_wire s \<subseteq> nw_wire s' \<and> nw_handled s \<subseteq> nw_handled s' \<and> (under_way s j m \<longrightarrow> under_way s' j m)"
  using assms(1,3)
proof (induction rule: network_run.induct)
  case (Go s l s1 ls s2)
  note grows = network_step_grows [OF Go.hyps(1) prog Go.prems]
  have "\<And>j. network_inv os chain he al key s1 j" by (rule network_step_inv [OF Go.hyps(1) prog Go.prems])
  with Go.IH grows show ?case by blast
qed simp

section \<open>Schedules\<close>

definition honest :: "network_label \<Rightarrow> bool" where
  "honest l = (case l of Forged i \<Rightarrow> False | _ \<Rightarrow> True)"

text \<open>
  \<open>comes_to\<close>: without anything from outside the network can get to a state with a property.
\<close>

definition comes_to where
  "comes_to ne seen s P \<longleftrightarrow> (\<exists>ls s'. network_run ne seen s ls s' \<and> list_all honest ls \<and> P s')"

lemma comes_toI: "P s \<Longrightarrow> comes_to ne seen s P"
  unfolding comes_to_def by (rule exI [of _ "[]"], rule exI [of _ s]) (simp add: network_run.Idle)

lemma comes_to_step:
  assumes "network_step ne seen s l s1" and "honest l" and "comes_to ne seen s1 P"
  shows "comes_to ne seen s P"
proof -
  obtain ls s' where "network_run ne seen s1 ls s'" "list_all honest ls" "P s'"
    using assms(3) unfolding comes_to_def by blast
  then show ?thesis
    unfolding comes_to_def using assms(1,2)
    by (intro exI [of _ "l # ls"] exI [of _ s']) (simp add: network_run.Go)
qed

lemma comes_to_trans:
  assumes "comes_to ne seen s P" and "\<And>s1 ls. network_run ne seen s ls s1 \<Longrightarrow> P s1 \<Longrightarrow> comes_to ne seen s1 Q"
  shows "comes_to ne seen s Q"
proof -
  obtain ls s1 where run: "network_run ne seen s ls s1" "list_all honest ls" "P s1"
    using assms(1) unfolding comes_to_def by blast
  obtain ls' s2 where "network_run ne seen s1 ls' s2" "list_all honest ls'" "Q s2"
    using assms(2) [OF run(1,3)] unfolding comes_to_def by blast
  then show ?thesis
    unfolding comes_to_def using run(1,2)
    by (intro exI [of _ "ls @ ls'"] exI [of _ s2]) (simp add: network_run_append)
qed

text \<open>
  A node can publish all it is about to publish, all nodes of a finite set can, and a node can be given
  all of finitely many published messages.
\<close>

lemma node_publishes:
  assumes prog: "same_program he al key ne" and v: "steady he chain al v"
    and "\<And>j. network_inv os chain he al key s j"
  shows "comes_to ne (steady he chain al) s (\<lambda>s'. \<forall>m. under_way s i m \<longrightarrow> m \<in> nw_wire s')"
  using assms(3)
proof (induction "length (node_orders s i)" arbitrary: s rule: less_induct)
  case less
  show ?case
  proof (cases "node_orders s i")
    case Nil
    then show ?thesis by (intro comes_toI) (simp add: under_way_def)
  next
    case (Cons order rest)
    let ?svc = "nd_service (nw_node s i)" and ?l = "TookOrder v order"
    have he: "ne_handler (ne i) = he" using prog by (simp add: same_program_def)
    have live: "live (handler_sound os chain he) ?svc" using less.prems by (simp add: network_inv_def node_sound_def)
    then have "ch_receiver (gs_channel ?svc)" by (simp add: live_def)
    then obtain svc where step: "gossip_step (ne_swarm (ne i)) (gossip_handle he) ?svc ?l svc"
      using gossip_step.Order [OF _ Cons, where ops = "ne_swarm (ne i)" and handle = "gossip_handle he" and v = v] that
      by fast
    let ?s = "after_gossip (ne i) i s ?l svc"
    have n: "network_step ne (steady he chain al) s (Published i) ?s"
      using network_step.Publish [of "steady he chain al" v ?l order ne i s svc] v step he by simp
    have inv: "\<And>j. network_inv os chain he al key ?s j" by (rule network_step_inv [OF n prog less.prems])
    have seen: "label_seen (steady he chain al) ?l" using v by simp
    have "length (node_orders ?s i) < length (node_orders s i)"
      using sh.step_live(2) [OF step live seen] Cons by (simp add: after_gossip_def Let_def)
    then have "comes_to ne (steady he chain al) ?s (\<lambda>s'. \<forall>m. under_way ?s i m \<longrightarrow> m \<in> nw_wire s')"
      by (rule less.hyps) (rule inv)
    then have "comes_to ne (steady he chain al) ?s (\<lambda>s'. \<forall>m. under_way s i m \<longrightarrow> m \<in> nw_wire s')"
      using network_step_grows(4) [OF n prog less.prems] unfolding comes_to_def by meson
    then show ?thesis by (rule comes_to_step [OF n, rotated]) (simp add: honest_def)
  qed
qed

lemma nodes_publish:
  assumes prog: "same_program he al key ne" and v: "steady he chain al v" and "finite I"
    and inv: "\<And>j. network_inv os chain he al key s j"
  shows "comes_to ne (steady he chain al) s (\<lambda>s'. \<forall>i \<in> I. \<forall>m. under_way s i m \<longrightarrow> m \<in> nw_wire s')"
  using assms(3)
proof (induction I rule: finite_induct)
  case empty
  then show ?case by (intro comes_toI) simp
next
  case (insert i I)
  show ?case
  proof (rule comes_to_trans [OF insert.IH])
    fix s1 ls
    assume run: "network_run ne (steady he chain al) s ls s1"
      and prev: "\<forall>i \<in> I. \<forall>m. under_way s i m \<longrightarrow> m \<in> nw_wire s1"
    have inv1: "\<And>j. network_inv os chain he al key s1 j" by (rule network_run_inv [OF run prog inv])
    show "comes_to ne (steady he chain al) s1 (\<lambda>s'. \<forall>i \<in> insert i I. \<forall>m. under_way s i m \<longrightarrow> m \<in> nw_wire s')"
    proof (rule comes_to_trans [OF node_publishes [OF prog v inv1, of i]], rule comes_toI)
      fix s2 ls2
      assume run2: "network_run ne (steady he chain al) s1 ls2 s2" and here: "\<forall>m. under_way s1 i m \<longrightarrow> m \<in> nw_wire s2"
      show "\<forall>i \<in> insert i I. \<forall>m. under_way s i m \<longrightarrow> m \<in> nw_wire s2"
        using here prev network_run_grows [OF run prog inv] network_run_grows [OF run2 prog inv1] by blast
    qed
  qed
qed

lemma node_gets:
  assumes prog: "same_program he al key ne" and v: "steady he chain al v" and "finite M" and "M \<subseteq> nw_wire s"
    and inv: "\<And>j. network_inv os chain he al key s j"
  shows "comes_to ne (steady he chain al) s (\<lambda>s'. \<forall>m \<in> M. (j, m) \<in> nw_handled s')"
  using assms(3,4)
proof (induction M rule: finite_induct)
  case empty
  then show ?case by (intro comes_toI) simp
next
  case (insert m M)
  have "M \<subseteq> nw_wire s" using insert.prems by simp
  show ?case
  proof (rule comes_to_trans [OF insert.IH [OF \<open>M \<subseteq> nw_wire s\<close>]])
    fix s1 ls
    assume run: "network_run ne (steady he chain al) s ls s1" and prev: "\<forall>m \<in> M. (j, m) \<in> nw_handled s1"
    have inv1: "\<And>j. network_inv os chain he al key s1 j" by (rule network_run_inv [OF run prog inv])
    have wire: "m \<in> nw_wire s1" using insert.prems network_run_grows [OF run prog inv] by blast
    show "comes_to ne (steady he chain al) s1 (\<lambda>s'. \<forall>m \<in> insert m M. (j, m) \<in> nw_handled s')"
    proof (cases "(j, m) \<in> nw_handled s1")
      case True
      then show ?thesis using prev by (intro comes_toI) simp
    next
      case False
      let ?svc = "nd_service (nw_node s1 j)" and ?l = "TookEvent v (GossipsubMessage m)"
      have he: "ne_handler (ne j) = he" using prog by (simp add: same_program_def)
      have "ch_receiver (gs_channel ?svc)" using inv1 by (simp add: network_inv_def node_sound_def live_def)
      then obtain svc where step: "gossip_step (ne_swarm (ne j)) (gossip_handle he) ?svc ?l svc"
        using gossip_step.Event [where ops = "ne_swarm (ne j)" and handle = "gossip_handle he" and v = v
            and event = "GossipsubMessage m"] that
        by fast
      have n: "network_step ne (steady he chain al) s1 (Delivered j) (after_gossip (ne j) j s1 ?l svc)"
        using network_step.Deliver [of "steady he chain al" v ?l m s1 j ne svc] v step wire False he by simp
      show ?thesis
        by (rule comes_to_step [OF n], simp add: honest_def, rule comes_toI)
          (use prev in \<open>auto simp: after_gossip_def Let_def\<close>)
    qed
  qed
qed

text \<open>
  When enough nodes have agreed to witness an event, each node can come to submit it.
\<close>

lemma network_submits:
  assumes prog: "same_program he al key ne" and v: "steady he chain al v"
    and inv: "\<And>j. network_inv os chain he al key s j"
    and I: "finite I" "inj_on key I" "\<And>i. i \<in> I \<Longrightarrow> (i, as_bytes e) \<in> nw_witnessed s"
    and t: "unat (target al) \<le> card I"
  shows "comes_to ne (steady he chain al) s (\<lambda>s'. (j, e) \<in> nw_submitted s')"
proof -
  have "\<exists>m. valid_message he al m e (key i) \<and> under_way s i m" if "i \<in> I" for i
    using inv [of i] I(3) [OF that] unfolding network_inv_def witnessed_under_way_def by blast
  then obtain msg where msg: "\<And>i. i \<in> I \<Longrightarrow> valid_message he al (msg i) e (key i) \<and> under_way s i (msg i)"
    by metis
  show ?thesis
  proof (rule comes_to_trans [OF nodes_publish [OF prog v I(1) inv]])
    fix s1 ls
    assume run: "network_run ne (steady he chain al) s ls s1"
      and pub: "\<forall>i \<in> I. \<forall>m. under_way s i m \<longrightarrow> m \<in> nw_wire s1"
    have inv1: "\<And>j. network_inv os chain he al key s1 j" by (rule network_run_inv [OF run prog inv])
    have wire: "finite (msg ` I)" "msg ` I \<subseteq> nw_wire s1" using pub msg I(1) by auto
    show "comes_to ne (steady he chain al) s1 (\<lambda>s'. (j, e) \<in> nw_submitted s')"
    proof (rule comes_to_trans [OF node_gets [OF prog v wire inv1]], rule comes_toI)
      fix s2 ls2
      assume run2: "network_run ne (steady he chain al) s1 ls2 s2" and got: "\<forall>m \<in> msg ` I. (j, m) \<in> nw_handled s2"
      have inv2: "network_inv os chain he al key s2 j" by (rule network_run_inv [OF run2 prog inv1])
      have "key ` I \<subseteq> signers os he al (node_handler s2 j) e"
        using inv2 got msg unfolding network_inv_def handled_stored_def by blast
      moreover have "finite (signers os he al (node_handler s2 j) e)" by (simp add: signers_def)
      ultimately have "card (key ` I) \<le> card (signers os he al (node_handler s2 j) e)" by (intro card_mono)
      then have "unat (target al) \<le> card (signers os he al (node_handler s2 j) e)"
        using t card_image [OF I(2)] by simp
      then show "(j, e) \<in> nw_submitted s2" using inv2 unfolding network_inv_def quorum_submitted_def by blast
    qed
  qed
qed

section \<open>The start\<close>

text \<open>
  \<open>fresh_nodes\<close>: every node has just been started, with an empty storage.
\<close>

definition fresh_nodes ::
    "'st offchain_storage \<Rightarrow> (h256 \<Rightarrow> 'aid list) \<Rightarrow> ('st, 'c, 'aid, 'ext, 'pool) handler_env
      \<Rightarrow> (nat \<Rightarrow> ('st, 'c, 'aid, 'ext, 'pool, 'sw, 'peer, 'i, 'r, 'sync) node_env)
      \<Rightarrow> (nat \<Rightarrow> ('st, 'c, 'pool, 'sw, 'i, 'sync) node) \<Rightarrow> bool" where
  "fresh_nodes os chain he ne nodes \<longleftrightarrow>
     (\<forall>i. \<exists>vs net sw st pool bs parent sync.
        nodes i = node_start (ne i) vs net sw st pool bs parent sync \<and>
        handler_sound os chain he \<lparr>gh_event_proofs = st, gh_tx_pool = pool, gh_block_state = bs\<rparr> \<and>
        (\<forall>e k. offchain_proof os (he_bincode he) st e k = None))"

lemma fresh_node:
  assumes "fresh_nodes os chain he ne nodes"
  shows "live (handler_sound os chain he) (nd_service (nodes i))"
    and "signers os he al (gs_handler (nd_service (nodes i))) e = {}"
proof -
  obtain vs net sw st pool bs parent sync where i: "nodes i = node_start (ne i) vs net sw st pool bs parent sync"
    "handler_sound os chain he \<lparr>gh_event_proofs = st, gh_tx_pool = pool, gh_block_state = bs\<rparr>"
    "\<forall>e k. offchain_proof os (he_bincode he) st e k = None"
    using assms unfolding fresh_nodes_def by metis
  then show "live (handler_sound os chain he) (nd_service (nodes i))"
    and "signers os he al (gs_handler (nd_service (nodes i))) e = {}"
    by (simp_all add: live_def signers_def node_start_def block_import_new_def provide_sync_service_def
        run_service_def start_channel_orders)
qed

lemma network_start_inv:
  assumes "fresh_nodes os chain he ne nodes" and "same_program he al key ne"
  shows "network_inv os chain he al key (network_start nodes {}) i"
proof -
  have "length (authorities al) \<le> 98302" using assms(2) by (simp add: same_program_def)
  then have "0 < unat (target al)" by (rule target_pos)
  then show ?thesis
    using fresh_node [OF assms(1)]
    by (simp add: network_inv_def network_start_def node_sound_def handled_stored_def quorum_submitted_def
        witnessed_under_way_def)
qed

lemma network_reaches_inv:
  assumes "same_program he al key ne" and "fresh_nodes os chain he ne nodes"
    and "network_run ne (steady he chain al) (network_start nodes {}) ls s"
  shows "network_inv os chain he al key s i"
  by (rule network_run_inv [OF assms(3,1) network_start_inv [OF assms(2,1)]])

section \<open>Where the events of a block come from\<close>

text \<open>
  Of a quorum more than a third of all authorities are not among the faulty, if those are at most a third.
\<close>

lemma quorum_honest:
  assumes S: "authority_quorum al S" and d: "length (authorities al) \<le> 98302" and "finite F"
    and "3 * card F \<le> length (authorities al)"
  shows "length (authorities al) < 3 * card (S - F)"
proof -
  have "finite S" "length (authorities al) * 2 < card S * 3"
    using S d target_le_iff [OF d] by (auto simp: authority_quorum_def intro: finite_subset)
  moreover have "card S - card F \<le> card (S - F)" using assms(3) by (rule diff_card_le_card_Diff)
  ultimately show ?thesis using assms(4) by linarith
qed

lemma network_import:
  assumes nodes: "\<And>i. node_ok os chain (ne i) (nodes i)"
    and run: "network_run ne (view_of chain) (network_start nodes witnessed) ls s"
    and view: "view_of chain client" and imp: "node_imports (ne j) client (nw_node s j) block"
    and e: "e \<in> set (block_event_ids client block)"
    and al: "al = chain_authorities (he_from_id (ne_handler (ne j))) chain (bip_parent_hash block)"
    and d: "distinct (authorities al)" "length (authorities al) \<le> 98302"
    and F: "finite F" "3 * card F \<le> length (authorities al)"
  shows "\<exists>H \<subseteq> set (authorities al) - F. length (authorities al) < 3 * card H \<and>
    (\<forall>k \<in> H. \<exists>g. signed_by (he_sr25519 (ne_handler (ne j))) k e g)"
proof -
  have "node_ok os chain (ne j) (nw_node s j)"
    by (rule network_run_ok [OF run]) (simp add: network_start_def nodes)
  from node_imports_witnessed [OF this view imp e al d] obtain S where
    S: "authority_quorum al S" "\<forall>k \<in> S. \<exists>g. signed_by (he_sr25519 (ne_handler (ne j))) k e g" by blast
  have "S - F \<subseteq> set (authorities al) - F" using S(1) by (auto simp: authority_quorum_def)
  then show ?thesis using quorum_honest [OF S(1) d(2) F] S(2) by (intro exI [of _ "S - F"]) auto
qed

end
