(* ===== verification/Network_Properties.thy ===== *)
theory Network_Properties
  imports Network Instances
begin

text \<open>
  The properties of a network of nodes: what its clients can rely on when their events are witnessed, and
  what everybody can rely on when an event is in an imported block.
\<close>

section \<open>Where events come from\<close>


text \<open>
  The example: nodes that have been restarted after authorities 1, 2 and 4 signed \<open>event_a\<close>, of which
  authority 4 is faulty.
\<close>

definition sign_a :: "bytes \<Rightarrow> bytes \<Rightarrow> bool" where
  "sign_a k m \<longleftrightarrow> m = as_bytes event_a \<and> k \<in> {key_of 1, key_of 2, key_of 4}"

definition owner_of :: "crypto_pair \<Rightarrow> nat" where
  "owner_of k = unat (hd (raw_public k))"


section \<open>What becomes of witnessed events\<close>


text \<open>
  The example: three of the four authorities' nodes are asked to witness \<open>event_a\<close>.
\<close>

definition four_env where
  "four_env i = ref_node_env (\<lambda>_ _. True) (key_of (of_nat i))"

definition four_key :: "nat \<Rightarrow> crypto_pair" where
  "four_key i = ref_from_id (key_of (of_nat i))"

definition four_nodes where
  "four_nodes i = node_start (four_env i) default_vs quiet_network () (ref_store event_a []) [] ref_block_state
     ([] :: h256 list) False"

lemma four_program: "same_program (ref_handler_env (\<lambda>_ _. True) True) four_authorities four_key four_env"
proof -
  have "set supported \<subseteq> {ref_from_id own}"
    if "ks_supported_keys (ref_keystore (\<lambda>_ _. True) own) (authorities four_authorities) = Inr supported" for own supported
    using that by (auto simp: ref_keystore_def four_authorities_def split: if_splits)
  then show ?thesis
    using four_authorities_facts(1,2) ref_keystore_laws
    by (simp add: same_program_def four_env_def ref_node_env_def four_key_def ref_swarm_def)
qed

lemma four_fresh: "fresh_nodes ref_storage four_chain (ref_handler_env (\<lambda>_ _. True) True) four_env four_nodes"
proof -
  have "handler_sound ref_storage four_chain (ref_handler_env (\<lambda>_ _. True) True)
      \<lparr>gh_event_proofs = ref_store event_a [], gh_tx_pool = [], gh_block_state = ref_block_state\<rparr>"
    using ref_handler_ok [of "[]" "\<lambda>_ _. True" event_a four_chain True]
    by (simp add: handler_sound_def ref_handler_def ref_block_state_def)
  moreover have "offchain_proof ref_storage ref_bincode (ref_store event_a []) e k = None" for e k
    by (simp add: ref_store_proof)
  ultimately show ?thesis unfolding fresh_nodes_def four_nodes_def by (metis ref_handler_env_simps(4))
qed

lemma four_steady: "steady (ref_handler_env (\<lambda>_ _. True) True) four_chain four_authorities four_client"
  by (simp add: steady_def four_client_def ref_client_view four_authorities_facts) (simp add: ref_client_def)

lemma four_call:
  assumes "gh_block_state (gs_handler (nd_service nd)) = ref_block_state" and "i \<in> {1, 2, 3}"
  shows "\<exists>nd'. node_witness (four_env i) four_client nd (as_bytes e) = (Inr (), nd')"
proof (rule four_latest)
  fix bs
  assume "get_latest_authorities_list ref_lru ref_from_id ref_block_state four_client = (Inr four_authorities, bs)"
  moreover have "ks_supported_keys (ref_keystore (\<lambda>_ _. True) (key_of (of_nat i))) (authorities four_authorities) =
      Inr [ref_from_id (key_of (of_nat i))]"
    using assms(2) by (auto simp: ref_keystore_def four_authorities_def)
  moreover have "ks_sign_with (ref_keystore (\<lambda>_ _. True) (key_of (of_nat i))) (ref_from_id (key_of (of_nat i))) (as_bytes e) =
      Inr (Some (key_of (of_nat i) @ as_bytes e))"
    by (simp add: ref_keystore_def)
  ultimately show ?thesis
    using assms(1)
    by (simp add: four_env_def node_witness_def grpc_witness_event_def witness_event_def sign_event_def
        ref_node_env_def Let_def ref_bincode_def and_then_def question_def)
qed

lemma four_start_node:
  "gh_block_state (node_handler (network_start four_nodes {}) i) = ref_block_state"
  by (simp add: network_start_def four_nodes_def node_start_def block_import_new_def provide_sync_service_def
      run_service_def Let_def)

lemma four_calls:
  obtains ls s where "network_run four_env (steady (ref_handler_env (\<lambda>_ _. True) True) four_chain four_authorities)
      (network_start four_nodes {}) ls s"
    and "nw_witnessed s = {(1, as_bytes event_a), (2, as_bytes event_a), (3, as_bytes event_a)}"
proof -
  let ?seen = "steady (ref_handler_env (\<lambda>_ _. True) True) four_chain four_authorities"
  let ?call = "\<lambda>s i nd. s\<lparr>nw_node := (nw_node s)(i := nd), nw_witnessed := insert (i, as_bytes event_a) (nw_witnessed s)\<rparr>"
  have call: "\<exists>nd. network_step four_env ?seen s (Called i) (?call s i nd)"
    if node: "gh_block_state (node_handler s i) = ref_block_state" "i \<in> {1, 2, 3}" for s i
  proof -
    obtain nd where "node_witness (four_env i) four_client (nw_node s i) (as_bytes event_a) = (Inr (), nd)"
      using four_call [OF node] by blast
    then have "network_step four_env ?seen s (Called i) (?call s i nd)"
      using network_step.Call [where seen = ?seen and ne = four_env and i = i and s = s, OF four_steady] by fastforce
    then show ?thesis by blast
  qed
  let ?s = "network_start four_nodes {}"
  note b = four_start_node
  obtain nd1 where s1: "network_step four_env ?seen ?s (Called 1) (?call ?s 1 nd1)" using call [OF b] by blast
  obtain nd2 where s2: "network_step four_env ?seen (?call ?s 1 nd1) (Called 2) (?call (?call ?s 1 nd1) 2 nd2)"
    using call [of "?call ?s 1 nd1" 2] b [of 2] by auto
  obtain nd3 where s3: "network_step four_env ?seen (?call (?call ?s 1 nd1) 2 nd2) (Called 3)
      (?call (?call (?call ?s 1 nd1) 2 nd2) 3 nd3)"
    using call [of "?call (?call ?s 1 nd1) 2 nd2" 3] b [of 3] by auto
  have "network_run four_env ?seen ?s [Called 1, Called 2, Called 3] (?call (?call (?call ?s 1 nd1) 2 nd2) 3 nd3)"
    by (rule network_run.Go [OF s1 network_run.Go [OF s2 network_run.Go [OF s3 network_run.Idle]]])
  then show ?thesis by (rule that) (auto simp: network_start_def)
qed



text \<open>
  The example: nodes 1 and 2 get the same message, by authority 3.
\<close>

lemma four_forged:
  assumes "ch_receiver (gs_channel (nd_service (nw_node t i)))"
  obtains s svc where "s = after_gossip (four_env i) i t (TookEvent four_client (GossipsubMessage m)) svc"
    and "network_step four_env (steady (ref_handler_env (\<lambda>_ _. True) True) four_chain four_authorities) t (Forged i) s"
  using network_step.Forge [of "steady (ref_handler_env (\<lambda>_ _. True) True) four_chain four_authorities" four_client
      "TookEvent four_client (GossipsubMessage m)" "GossipsubMessage m" four_env i t, OF four_steady refl
      gossip_step.Event [OF assms]] that by blast


end
