(* ===== verification/Runtime_Config.thy ===== *)
theory Runtime_Config
  imports Runtime_Apis
begin

text \<open>
  The rest of the runtime (\<open>src/runtime/src/lib.rs\<close>): what it configures the FRAME pallets with, and the APIs
  that hand a call on to a pallet: sessions, GRANDPA, nonces, fees, benchmarks and try-runtime. The pallets
  are parameters, the records \<open>frame_limits\<close> and \<open>frame_apis\<close>. Configuration that only names types has
  no counterpart here; the types of the model are those of the items below.
\<close>

section \<open>Types and version\<close>

type_synonym block_number = u32
type_synonym balance = u128
type_synonym tx_index = u32

record 'k session_keys =
  sk_aura :: 'k
  sk_grandpa :: 'k

record 'apis native_version =
  nv_runtime_version :: "'apis runtime_version"
  nv_can_author_with :: "u32 set"

definition runtime_native_version :: "'apis \<Rightarrow> 'apis native_version" where
  "runtime_native_version RUNTIME_API_VERSIONS =
     \<lparr>nv_runtime_version = VERSION RUNTIME_API_VERSIONS, nv_can_author_with = {}\<rparr>"

definition core_version :: "'apis \<Rightarrow> 'apis runtime_version" where
  "core_version RUNTIME_API_VERSIONS = VERSION RUNTIME_API_VERSIONS"

section \<open>Limits\<close>

record weight =
  ref_time :: u64
  proof_size :: u64

text \<open>
  \<open>Perbill\<close>: parts of a billion.
\<close>

type_synonym perbill = u32

definition perbill_from_percent :: "u32 \<Rightarrow> perbill" where
  "perbill_from_percent x = min x 100 * 10000000"

definition NORMAL_DISPATCH_RATIO :: perbill where
  "NORMAL_DISPATCH_RATIO = perbill_from_percent 75"

record ('bw, 'bl) frame_limits =
  WEIGHT_REF_TIME_PER_SECOND :: u64
  with_sensible_defaults :: "weight \<Rightarrow> perbill \<Rightarrow> 'bw"
  max_with_normal_ratio :: "u32 \<Rightarrow> perbill \<Rightarrow> 'bl"
  bw_max_block :: "'bw \<Rightarrow> weight"

definition BlockWeights :: "('bw, 'bl) frame_limits \<Rightarrow> 'bw" where
  "BlockWeights fl =
     with_sensible_defaults fl \<lparr>ref_time = 2 * WEIGHT_REF_TIME_PER_SECOND fl, proof_size = - 1\<rparr> NORMAL_DISPATCH_RATIO"

definition BlockLength :: "('bw, 'bl) frame_limits \<Rightarrow> 'bl" where
  "BlockLength fl = max_with_normal_ratio fl (5 * 1024 * 1024) NORMAL_DISPATCH_RATIO"

definition SS58Prefix :: u8 where
  "SS58Prefix = 42"

text \<open>
  The constants of the pallets' configurations.
\<close>

definition MaxConsumers :: u32 where
  "MaxConsumers = 16"

definition MaxSetIdSessionEntries :: u64 where
  "MaxSetIdSessionEntries = 0"

definition MaxLocks :: u32 where
  "MaxLocks = 50"

definition OperationalFeeMultiplier :: u8 where
  "OperationalFeeMultiplier = 5"

text \<open>
  \<open>FeeMultiplier\<close> is one, in fixed point with 18 decimals, \<open>ConstFeeMultiplier\<close> never changes it, and \<open>IdentityFee\<close> takes a unit of weight or
  length for a unit of balance.
\<close>

definition FeeMultiplier :: u128 where
  "FeeMultiplier = 1000000000000000000"

definition FeeMultiplierUpdate :: "u128 \<Rightarrow> u128" where
  "FeeMultiplierUpdate previous = FeeMultiplier"

definition WeightToFee :: "weight \<Rightarrow> balance" where
  "WeightToFee w = ucast (ref_time w)"

definition LengthToFee :: "u32 \<Rightarrow> balance" where
  "LengthToFee len = ucast len"

text \<open>
  The pallets of the runtime, in the order of \<open>construct_runtime!\<close>, and those with benchmarks.
\<close>

definition runtime_pallets :: "string list" where
  "runtime_pallets =
     [''System'', ''Timestamp'', ''Aura'', ''Grandpa'', ''Balances'', ''TransactionPayment'', ''Sudo'', ''ValidatedStreams'']"

definition benches :: "(string \<times> string) list" where
  "benches =
     [(''frame_benchmarking'', ''BaselineBench''), (''frame_system'', ''SystemBench''), (''pallet_balances'', ''Balances''),
      (''pallet_timestamp'', ''Timestamp''), (''pallet_validated_streams'', ''ValidatedStreams'')]"

section \<open>APIs of other pallets\<close>

record ('rt, 'hdr, 'sig, 'o, 'acc, 'gid, 'k, 'info, 'fees, 'meta, 'bcfg, 'key) frame_apis =
  fa_metadata :: 'meta
  fa_offchain_worker :: "'hdr \<Rightarrow> 'rt \<Rightarrow> 'rt"
  fa_session_keys_generate :: "bytes option \<Rightarrow> 'rt \<Rightarrow> bytes \<times> 'rt"
  fa_session_keys_decode :: "bytes \<Rightarrow> (bytes \<times> 'k) list option"
  fa_grandpa_authorities :: "'rt \<Rightarrow> ('gid \<times> u64) list"
  fa_grandpa_current_set_id :: "'rt \<Rightarrow> u64"
  fa_system_account_nonce :: "'acc \<Rightarrow> 'rt \<Rightarrow> tx_index"
  fa_query_info :: "('sig, 'o) unchecked_extrinsic \<Rightarrow> u32 \<Rightarrow> 'rt \<Rightarrow> 'info"
  fa_query_fee_details :: "('sig, 'o) unchecked_extrinsic \<Rightarrow> u32 \<Rightarrow> 'rt \<Rightarrow> 'fees"
  fa_query_call_info :: "'o runtime_call \<Rightarrow> u32 \<Rightarrow> 'rt \<Rightarrow> 'info"
  fa_query_call_fee_details :: "'o runtime_call \<Rightarrow> u32 \<Rightarrow> 'rt \<Rightarrow> 'fees"
  fa_weight_to_fee :: "(weight \<Rightarrow> balance) \<Rightarrow> weight \<Rightarrow> weight \<Rightarrow> balance"
  fa_length_to_fee :: "(u32 \<Rightarrow> balance) \<Rightarrow> u32 \<Rightarrow> balance"
  fa_list_benchmarks :: "string \<times> string \<Rightarrow> bool \<Rightarrow> string list"
  fa_storage_info :: "string list"
  fa_whitelisted_storage_keys :: "'key list"
  fa_add_benchmarks :: "string \<times> string \<Rightarrow> 'bcfg \<Rightarrow> 'key list \<Rightarrow> 'rt \<Rightarrow> (string + string list) \<times> 'rt"
  fa_try_runtime_upgrade :: "bool \<Rightarrow> 'rt \<Rightarrow> (string + weight) \<times> 'rt"
  fa_try_execute_block :: "'hdr \<Rightarrow> ('sig, 'o) unchecked_extrinsic list \<Rightarrow> bool \<Rightarrow> bool \<Rightarrow> string \<Rightarrow> 'rt
    \<Rightarrow> (string + weight) \<times> 'rt"

definition api_metadata :: "('rt, 'hdr, 'sig, 'o, 'acc, 'gid, 'k, 'info, 'fees, 'meta, 'bcfg, 'key) frame_apis \<Rightarrow> 'meta" where
  "api_metadata fa = fa_metadata fa"

definition api_offchain_worker ::
    "('rt, 'hdr, 'sig, 'o, 'acc, 'gid, 'k, 'info, 'fees, 'meta, 'bcfg, 'key) frame_apis \<Rightarrow> 'hdr \<Rightarrow> 'rt \<Rightarrow> 'rt" where
  "api_offchain_worker fa header rt = fa_offchain_worker fa header rt"

definition generate_session_keys ::
    "('rt, 'hdr, 'sig, 'o, 'acc, 'gid, 'k, 'info, 'fees, 'meta, 'bcfg, 'key) frame_apis \<Rightarrow> bytes option \<Rightarrow> 'rt
      \<Rightarrow> bytes \<times> 'rt" where
  "generate_session_keys fa seed rt = fa_session_keys_generate fa seed rt"

definition decode_session_keys ::
    "('rt, 'hdr, 'sig, 'o, 'acc, 'gid, 'k, 'info, 'fees, 'meta, 'bcfg, 'key) frame_apis \<Rightarrow> bytes
      \<Rightarrow> (bytes \<times> 'k) list option" where
  "decode_session_keys fa encoded = fa_session_keys_decode fa encoded"

definition api_grandpa_authorities ::
    "('rt, 'hdr, 'sig, 'o, 'acc, 'gid, 'k, 'info, 'fees, 'meta, 'bcfg, 'key) frame_apis \<Rightarrow> 'rt \<Rightarrow> ('gid \<times> u64) list" where
  "api_grandpa_authorities fa rt = fa_grandpa_authorities fa rt"

definition api_current_set_id ::
    "('rt, 'hdr, 'sig, 'o, 'acc, 'gid, 'k, 'info, 'fees, 'meta, 'bcfg, 'key) frame_apis \<Rightarrow> 'rt \<Rightarrow> u64" where
  "api_current_set_id fa rt = fa_grandpa_current_set_id fa rt"

definition account_nonce ::
    "('rt, 'hdr, 'sig, 'o, 'acc, 'gid, 'k, 'info, 'fees, 'meta, 'bcfg, 'key) frame_apis \<Rightarrow> 'acc \<Rightarrow> 'rt \<Rightarrow> tx_index" where
  "account_nonce fa account rt = fa_system_account_nonce fa account rt"

section \<open>Fees\<close>

definition query_info ::
    "('rt, 'hdr, 'sig, 'o, 'acc, 'gid, 'k, 'info, 'fees, 'meta, 'bcfg, 'key) frame_apis
      \<Rightarrow> ('sig, 'o) unchecked_extrinsic \<Rightarrow> u32 \<Rightarrow> 'rt \<Rightarrow> 'info" where
  "query_info fa uxt len rt = fa_query_info fa uxt len rt"

definition query_fee_details ::
    "('rt, 'hdr, 'sig, 'o, 'acc, 'gid, 'k, 'info, 'fees, 'meta, 'bcfg, 'key) frame_apis
      \<Rightarrow> ('sig, 'o) unchecked_extrinsic \<Rightarrow> u32 \<Rightarrow> 'rt \<Rightarrow> 'fees" where
  "query_fee_details fa uxt len rt = fa_query_fee_details fa uxt len rt"

definition query_call_info ::
    "('rt, 'hdr, 'sig, 'o, 'acc, 'gid, 'k, 'info, 'fees, 'meta, 'bcfg, 'key) frame_apis
      \<Rightarrow> 'o runtime_call \<Rightarrow> u32 \<Rightarrow> 'rt \<Rightarrow> 'info" where
  "query_call_info fa call len rt = fa_query_call_info fa call len rt"

definition query_call_fee_details ::
    "('rt, 'hdr, 'sig, 'o, 'acc, 'gid, 'k, 'info, 'fees, 'meta, 'bcfg, 'key) frame_apis
      \<Rightarrow> 'o runtime_call \<Rightarrow> u32 \<Rightarrow> 'rt \<Rightarrow> 'fees" where
  "query_call_fee_details fa call len rt = fa_query_call_fee_details fa call len rt"

text \<open>
  \<open>query_weight_to_fee\<close> and \<open>query_length_to_fee\<close>, the same in \<open>TransactionPaymentApi\<close> and
  \<open>TransactionPaymentCallApi\<close>. The pallet uses the fee functions and the block limit it is configured with.
\<close>

definition query_weight_to_fee ::
    "('rt, 'hdr, 'sig, 'o, 'acc, 'gid, 'k, 'info, 'fees, 'meta, 'bcfg, 'key) frame_apis \<Rightarrow> ('bw, 'bl) frame_limits
      \<Rightarrow> weight \<Rightarrow> balance" where
  "query_weight_to_fee fa fl weight = fa_weight_to_fee fa WeightToFee (bw_max_block fl (BlockWeights fl)) weight"

definition query_length_to_fee ::
    "('rt, 'hdr, 'sig, 'o, 'acc, 'gid, 'k, 'info, 'fees, 'meta, 'bcfg, 'key) frame_apis \<Rightarrow> u32 \<Rightarrow> balance" where
  "query_length_to_fee fa len = fa_length_to_fee fa LengthToFee len"

definition call_query_weight_to_fee ::
    "('rt, 'hdr, 'sig, 'o, 'acc, 'gid, 'k, 'info, 'fees, 'meta, 'bcfg, 'key) frame_apis \<Rightarrow> ('bw, 'bl) frame_limits
      \<Rightarrow> weight \<Rightarrow> balance" where
  "call_query_weight_to_fee fa fl weight = fa_weight_to_fee fa WeightToFee (bw_max_block fl (BlockWeights fl)) weight"

definition call_query_length_to_fee ::
    "('rt, 'hdr, 'sig, 'o, 'acc, 'gid, 'k, 'info, 'fees, 'meta, 'bcfg, 'key) frame_apis \<Rightarrow> u32 \<Rightarrow> balance" where
  "call_query_length_to_fee fa len = fa_length_to_fee fa LengthToFee len"

section \<open>Benchmarks and try-runtime\<close>

definition benchmark_metadata ::
    "('rt, 'hdr, 'sig, 'o, 'acc, 'gid, 'k, 'info, 'fees, 'meta, 'bcfg, 'key) frame_apis \<Rightarrow> bool
      \<Rightarrow> string list \<times> string list" where
  "benchmark_metadata fa extra =
     (let list = concat (map (\<lambda>bench. fa_list_benchmarks fa bench extra) benches);
          storage_info = fa_storage_info fa
      in (list, storage_info))"

text \<open>
  \<open>add_benchmarks!\<close> runs the benchmarks of each pallet in turn; an error of one ends it.
\<close>

fun add_all_benchmarks ::
    "('rt, 'hdr, 'sig, 'o, 'acc, 'gid, 'k, 'info, 'fees, 'meta, 'bcfg, 'key) frame_apis \<Rightarrow> 'bcfg \<Rightarrow> 'key list
      \<Rightarrow> (string \<times> string) list \<Rightarrow> string list \<Rightarrow> 'rt \<Rightarrow> (string + string list) \<times> 'rt" where
  "add_all_benchmarks fa config whitelist [] batches rt = (Inr batches, rt)"
| "add_all_benchmarks fa config whitelist (bench # rest) batches rt =
     (case fa_add_benchmarks fa bench config whitelist rt of
        (Inl e, rt') \<Rightarrow> (Inl e, rt')
      | (Inr new, rt') \<Rightarrow> add_all_benchmarks fa config whitelist rest (batches @ new) rt')"

definition dispatch_benchmark ::
    "('rt, 'hdr, 'sig, 'o, 'acc, 'gid, 'k, 'info, 'fees, 'meta, 'bcfg, 'key) frame_apis \<Rightarrow> 'bcfg \<Rightarrow> 'rt
      \<Rightarrow> (string + string list) \<times> 'rt" where
  "dispatch_benchmark fa config rt =
     (let whitelist = fa_whitelisted_storage_keys fa
      in add_all_benchmarks fa config whitelist benches [] rt)"

definition on_runtime_upgrade ::
    "('rt, 'hdr, 'sig, 'o, 'acc, 'gid, 'k, 'info, 'fees, 'meta, 'bcfg, 'key) frame_apis \<Rightarrow> ('bw, 'bl) frame_limits
      \<Rightarrow> bool \<Rightarrow> 'rt \<Rightarrow> (weight \<times> weight) vs_result \<times> 'rt" where
  "on_runtime_upgrade fa fl checks rt =
     (case fa_try_runtime_upgrade fa checks rt of
        (r, rt') \<Rightarrow> (and_then (unwrap r) (\<lambda>weight. Inr (weight, bw_max_block fl (BlockWeights fl))), rt'))"

definition try_execute_block ::
    "('rt, 'hdr, 'sig, 'o, 'acc, 'gid, 'k, 'info, 'fees, 'meta, 'bcfg, 'key) frame_apis
      \<Rightarrow> 'hdr \<Rightarrow> ('sig, 'o) unchecked_extrinsic list \<Rightarrow> bool \<Rightarrow> bool \<Rightarrow> string \<Rightarrow> 'rt \<Rightarrow> weight vs_result \<times> 'rt" where
  "try_execute_block fa header extrinsics state_root_check signature_check select rt =
     (case fa_try_execute_block fa header extrinsics state_root_check signature_check select rt of
        (Inr weight, rt') \<Rightarrow> (Inr weight, rt')
      | (Inl e, rt') \<Rightarrow> (Inl (Panic (''execute-block failed: '' @ e)), rt'))"

section \<open>Lemmas\<close>

text \<open>
  Three quarters of a block are for ordinary calls.
\<close>

lemma normal_dispatch_ratio: "unat NORMAL_DISPATCH_RATIO * 4 = 3 * 1000000000"
  by (simp add: NORMAL_DISPATCH_RATIO_def perbill_from_percent_def)

text \<open>
  The fees of weight and length are exact: the casts to 128 bits lose nothing.
\<close>

lemma fees_exact: "unat (WeightToFee w) = unat (ref_time w)" "unat (LengthToFee n) = unat n"
  using unsigned_less [of "ref_time w", where ?'a = nat] unsigned_less [of n, where ?'a = nat]
  by (simp_all add: WeightToFee_def LengthToFee_def unsigned_ucast_eq take_bit_nat_eq_self)

lemma benches_of_runtime:
  "list_all (\<lambda>(crate, pallet). pallet \<in> {''BaselineBench'', ''SystemBench''} \<or> pallet \<in> set runtime_pallets) benches"
  by (simp add: benches_def runtime_pallets_def)

text \<open>
  Benchmarks of all pallets succeed just in case each does, and then all their results are returned.
\<close>

lemma add_all_benchmarks_batches:
  assumes "add_all_benchmarks fa config whitelist bs batches rt = (Inr all, rt')"
  shows "\<exists>new. all = batches @ new"
  using assms by (induction bs arbitrary: batches rt) (fastforce split: prod.splits sum.splits)+

end
