(* ===== verification/Service.thy ===== *)
theory Service
  imports Node Runtime_Config
begin

text \<open>
  Building and running a full node (\<open>src/node/src/service.rs\<close>): \<open>new_partial\<close> makes the components and
  \<open>new_full\<close> starts them, in an order that matters. The constructors of Substrate are parameters, the
  record \<open>service_ops\<close>: those that can fail return an error text or a value, and nothing is assumed about
  them. What the two functions do to the outside is the list of \<open>effect\<close>s, in the order in which they
  happen; the components Validated Streams adds (the store of proofs, the cache of authorities and the
  block import around that of GRANDPA) are those of the other theories. The parameter \<open>off_chain_proofs\<close>
  is the feature of that name.
\<close>

section \<open>Configuration\<close>

record configuration =
  keystore_remote :: "string option"
  telemetry_endpoints :: "string list option"
  is_authority :: bool
  disable_grandpa :: bool
  offchain_worker_enabled :: bool
  cfg_network :: network_configuration

definition CACHE_CAPACITY :: nat where
  "CACHE_CAPACITY = 4"

datatype effect =
    SpawnTelemetry
  | StartValidatedStreams
  | BuildNetwork
  | ProvideSyncService
  | BuildOffchainWorkers
  | SpawnTasks
  | SpawnAura
  | SpawnGrandpaVoter
  | StartNetwork

text \<open>
  The calls of Substrate, on the basic parts \<open>'p\<close> of a node (client, backend, keystore and task manager).
\<close>

record ('p, 's, 'c, 'i, 'sync) service_ops =
  telemetry_worker :: "string list \<Rightarrow> string + unit"
  new_full_parts :: "configuration \<Rightarrow> string + 'p"
  grandpa_block_import :: "'p \<Rightarrow> string + 'i"
  offchain_storage :: "'p \<Rightarrow> 's option"
  new_lru_cache :: "nat \<Rightarrow> 'c"
  aura_slot_duration :: "'p \<Rightarrow> string + u64"
  aura_import_queue :: "'p \<Rightarrow> string + unit"
  genesis_hash :: "'p \<Rightarrow> h256 option"
  build_network :: "'p \<Rightarrow> string + 'sync"
  spawn_tasks :: "'p \<Rightarrow> string + unit"
  start_aura :: "'p \<Rightarrow> u64 \<Rightarrow> string + unit"
  run_grandpa_voter :: "'p \<Rightarrow> string + unit"

section \<open>new_partial\<close>

text \<open>
  The import blocks go through: that of GRANDPA, or the checking one around it.
\<close>

datatype ('i, 's, 'c, 'sync) full_import =
    GrandpaOnly 'i
  | Validated "('i, 's, 'c, 'sync) block_import"

record ('p, 's, 'c, 'i, 'sync) partial_components =
  pc_parts :: 'p
  pc_block_import :: "('i, 's, 'c, 'sync) full_import"
  pc_event_proofs :: 's
  pc_block_state :: "'c block_state"

definition new_telemetry ::
    "('p, 's, 'c, 'i, 'sync) service_ops \<Rightarrow> configuration \<Rightarrow> string + bool" where
  "new_telemetry ops config =
     (case telemetry_endpoints config of
        None \<Rightarrow> Inr False
      | Some endpoints \<Rightarrow>
          if endpoints = [] then Inr False else map_sum id (\<lambda>_. True) (telemetry_worker ops endpoints))"

definition validated_import ::
    "bool \<Rightarrow> 'i \<Rightarrow> 's \<Rightarrow> 'c block_state \<Rightarrow> ('i, 's, 'c, 'sync) full_import" where
  "validated_import off_chain_proofs grandpa event_proofs block_state =
     (if off_chain_proofs then Validated (block_import_new grandpa event_proofs block_state)
      else GrandpaOnly grandpa)"

definition new_partial ::
    "('p, 's, 'c, 'i, 'sync) service_ops \<Rightarrow> bool \<Rightarrow> configuration
      \<Rightarrow> (string + ('p, 's, 'c, 'i, 'sync) partial_components) \<times> effect list" where
  "new_partial ops off_chain_proofs config =
     (if keystore_remote config \<noteq> None then (Inl ''Remote Keystores are not supported.'', [])
      else (case new_telemetry ops config of
        Inl e \<Rightarrow> (Inl e, [])
      | Inr telemetry \<Rightarrow>
      (case new_full_parts ops config of
        Inl e \<Rightarrow> (Inl e, [])
      | Inr parts \<Rightarrow>
        let spawned = (if telemetry then [SpawnTelemetry] else [])
        in (case grandpa_block_import ops parts of
          Inl e \<Rightarrow> (Inl e, spawned)
        | Inr grandpa \<Rightarrow>
        (case offchain_storage ops parts of
          None \<Rightarrow> (Inl ''Offchain storage is required.'', spawned)
        | Some event_proofs \<Rightarrow>
          let block_state = \<lparr>bs_cache = new_lru_cache ops CACHE_CAPACITY, bs_poisoned = False\<rparr>
          in (case aura_slot_duration ops parts of
            Inl e \<Rightarrow> (Inl e, spawned)
          | Inr duration \<Rightarrow>
          (case aura_import_queue ops parts of
            Inl e \<Rightarrow> (Inl e, spawned)
          | Inr _ \<Rightarrow>
              (Inr \<lparr>pc_parts = parts,
                    pc_block_import = validated_import off_chain_proofs grandpa event_proofs block_state,
                    pc_event_proofs = event_proofs, pc_block_state = block_state\<rparr>, spawned))))))))"

text \<open>
  The import the import queue of the components uses is a clone; \<open>drop_other\<close> is what is left of the
  components where the caller takes some of them and drops the others, among them the closure that
  provides the sync service.
\<close>

definition import_queue_import ::
    "('p, 's, 'c, 'i, 'sync) partial_components \<Rightarrow> ('i, 's, 'c, 'sync) full_import" where
  "import_queue_import pc =
     (case pc_block_import pc of GrandpaOnly grandpa \<Rightarrow> GrandpaOnly grandpa | Validated bi \<Rightarrow> Validated (block_import_clone bi))"

definition drop_other ::
    "('p, 's, 'c, 'i, 'sync) partial_components \<Rightarrow> ('p, 's, 'c, 'i, 'sync) partial_components" where
  "drop_other pc =
     pc\<lparr>pc_block_import := (case pc_block_import pc of
          GrandpaOnly grandpa \<Rightarrow> GrandpaOnly grandpa
        | Validated bi \<Rightarrow> Validated (drop_sync_sender bi))\<rparr>"

section \<open>new_full\<close>

definition remote_keystore :: "string \<Rightarrow> string + unit" where
  "remote_keystore url = Inl ''Remote Keystore not supported.''"

fun provide_to_import :: "'sync \<Rightarrow> ('i, 's, 'c, 'sync) full_import \<Rightarrow> ('i, 's, 'c, 'sync) full_import" where
  "provide_to_import sync (GrandpaOnly grandpa) = GrandpaOnly grandpa"
| "provide_to_import sync (Validated bi) = Validated (provide_sync_service sync bi)"

text \<open>
  Block authoring, where the node is an authority.
\<close>

definition start_authoring ::
    "('p, 's, 'c, 'i, 'sync) service_ops \<Rightarrow> configuration \<Rightarrow> 'p \<Rightarrow> (string + unit) \<times> effect list" where
  "start_authoring ops config parts =
     (if is_authority config then
        (case aura_slot_duration ops parts of
           Inl e \<Rightarrow> (Inl e, [])
         | Inr duration \<Rightarrow>
             (case start_aura ops parts duration of
                Inl e \<Rightarrow> (Inl e, [])
              | Inr _ \<Rightarrow> (Inr (), [SpawnAura])))
      else (Inr (), []))"

text \<open>
  The voter of GRANDPA, where it is not disabled.
\<close>

definition start_finality ::
    "('p, 's, 'c, 'i, 'sync) service_ops \<Rightarrow> configuration \<Rightarrow> 'p \<Rightarrow> (string + unit) \<times> effect list" where
  "start_finality ops config parts =
     (if disable_grandpa config then (Inr (), [])
      else (case run_grandpa_voter ops parts of
              Inl e \<Rightarrow> (Inl e, [])
            | Inr _ \<Rightarrow> (Inr (), [SpawnGrandpaVoter])))"

text \<open>
  The steps from \<open>spawn_tasks\<close> on.
\<close>

definition start_consensus ::
    "('p, 's, 'c, 'i, 'sync) service_ops \<Rightarrow> configuration \<Rightarrow> 'p \<Rightarrow> (string + unit) \<times> effect list" where
  "start_consensus ops config parts =
     (case spawn_tasks ops parts of
        Inl e \<Rightarrow> (Inl e, [])
      | Inr _ \<Rightarrow>
          (case start_authoring ops config parts of
             (Inl e, effs) \<Rightarrow> (Inl e, SpawnTasks # effs)
           | (Inr _, effs) \<Rightarrow>
               (case start_finality ops config parts of
                  (Inl e, effs') \<Rightarrow> (Inl e, SpawnTasks # effs @ effs')
                | (Inr _, effs') \<Rightarrow> (Inr (), SpawnTasks # effs @ effs' @ [StartNetwork]))))"

text \<open>
  The whole of \<open>new_full\<close>: the import of the running node, or the error, and the effects. \<open>expect\<close> on the
  hash of the genesis block is a panic, the \<open>None\<close> of the result.
\<close>

definition new_full ::
    "('p, 's, 'c, 'i, 'sync) service_ops \<Rightarrow> bool \<Rightarrow> configuration
      \<Rightarrow> (string + ('i, 's, 'c, 'sync) full_import) option \<times> effect list" where
  "new_full ops off_chain_proofs config =
     (case new_partial ops off_chain_proofs config of
        (Inl e, effs) \<Rightarrow> (Some (Inl e), effs)
      | (Inr pc, effs) \<Rightarrow>
          let started = effs @ [StartValidatedStreams];
              keystore = (case keystore_remote config of None \<Rightarrow> Inr () | Some url \<Rightarrow> remote_keystore url)
          in (case keystore of
                Inl e \<Rightarrow> (Some (Inl (''Error hooking up remote keystore for '' @ the (keystore_remote config) @ '': '' @ e)),
                          started)
              | Inr _ \<Rightarrow>
                  (case genesis_hash ops (pc_parts pc) of
                     None \<Rightarrow> (None, started)
                   | Some h \<Rightarrow>
                       (case build_network ops (pc_parts pc) of
                          Inl e \<Rightarrow> (Some (Inl e), started)
                        | Inr sync \<Rightarrow>
                            let import = (if off_chain_proofs then provide_to_import sync (pc_block_import pc)
                                          else pc_block_import pc);
                                network = started @ [BuildNetwork] @ (if off_chain_proofs then [ProvideSyncService] else []) @
                                  (if offchain_worker_enabled config then [BuildOffchainWorkers] else [])
                            in (case start_consensus ops config (pc_parts pc) of
                                  (r, effs') \<Rightarrow> (Some (map_sum id (\<lambda>_. import) r), network @ effs'))))))"

section \<open>A node that has started\<close>

lemma new_partial_Ok:
  assumes "new_partial ops off_chain_proofs config = (Inr pc, effs)"
  obtains grandpa where "keystore_remote config = None" and "effs = [] \<or> effs = [SpawnTelemetry]"
    and "pc_block_import pc = validated_import off_chain_proofs grandpa (pc_event_proofs pc) (pc_block_state pc)"
    and "grandpa_block_import ops (pc_parts pc) = Inr grandpa"
    and "offchain_storage ops (pc_parts pc) = Some (pc_event_proofs pc)"
    and "pc_block_state pc = \<lparr>bs_cache = new_lru_cache ops CACHE_CAPACITY, bs_poisoned = False\<rparr>"
  using assms by (auto simp: new_partial_def Let_def split: if_splits sum.splits option.splits)

lemma start_consensus_Ok:
  assumes "start_consensus ops config parts = (Inr u, effs)"
  shows "effs = SpawnTasks # (if is_authority config then [SpawnAura] else []) @
    (if disable_grandpa config then [] else [SpawnGrandpaVoter]) @ [StartNetwork]"
  using assms
  by (auto simp: start_consensus_def start_authoring_def start_finality_def split: if_splits sum.splits prod.splits)

lemma new_full_Ok:
  assumes "new_full ops off_chain_proofs config = (Some (Inr imp), effs)"
  obtains pc effs0 sync where "new_partial ops off_chain_proofs config = (Inr pc, effs0)"
    and "build_network ops (pc_parts pc) = Inr sync"
    and "imp = (if off_chain_proofs then provide_to_import sync (pc_block_import pc) else pc_block_import pc)"
    and "effs = effs0 @ [StartValidatedStreams, BuildNetwork] @ (if off_chain_proofs then [ProvideSyncService] else []) @
      (if offchain_worker_enabled config then [BuildOffchainWorkers] else []) @
      SpawnTasks # (if is_authority config then [SpawnAura] else []) @
      (if disable_grandpa config then [] else [SpawnGrandpaVoter]) @ [StartNetwork]"
proof -
  obtain r effs0 where p: "new_partial ops off_chain_proofs config = (r, effs0)"
    by (cases "new_partial ops off_chain_proofs config")
  obtain pc where pc: "r = Inr pc" using assms p by (cases r) (simp_all add: new_full_def)
  have k: "keystore_remote config = None" by (rule new_partial_Ok [OF p [unfolded pc]])
  obtain c effs1 where c: "start_consensus ops config (pc_parts pc) = (c, effs1)"
    by (cases "start_consensus ops config (pc_parts pc)")
  obtain h sync where hs: "genesis_hash ops (pc_parts pc) = Some h" "build_network ops (pc_parts pc) = Inr sync"
    using assms p pc k by (auto simp: new_full_def Let_def split: option.splits sum.splits)
  obtain u where "c = Inr u" using assms p pc k hs c by (cases c) (simp_all add: new_full_def Let_def)
  with assms p pc k hs c start_consensus_Ok [of ops config "pc_parts pc" u effs1] show ?thesis
    by (intro that [of pc effs0 sync]) (simp_all add: new_full_def Let_def)
qed

section \<open>Properties\<close>

text \<open>
  C30. What runs when a full node has started. Validated Streams was started before the network; the node
  authors blocks exactly if it is an authority and votes in GRANDPA unless that is disabled; the network
  comes last. In the build with off-chain proofs the import of blocks is the checking one around that
  of GRANDPA, over the offchain storage, and it has the sync service before the network starts, so that
  no import waits for it; in the build with on-chain proofs it is that of GRANDPA.
\<close>

theorem full_node_starts:
  assumes "new_full ops off_chain_proofs config = (Some (Inr imp), effs)"
  shows "(SpawnAura \<in> set effs \<longleftrightarrow> is_authority config) \<and>
    (SpawnGrandpaVoter \<in> set effs \<longleftrightarrow> \<not> disable_grandpa config) \<and>
    (\<exists>before. effs = before @ [StartNetwork] \<and> StartValidatedStreams \<in> set before \<and> StartNetwork \<notin> set before \<and>
      (ProvideSyncService \<in> set before \<longleftrightarrow> off_chain_proofs)) \<and>
    (\<exists>parts grandpa sync st. grandpa_block_import ops parts = Inr grandpa \<and> offchain_storage ops parts = Some st \<and>
      imp = (if off_chain_proofs then Validated (provide_sync_service sync (block_import_new grandpa st
          \<lparr>bs_cache = new_lru_cache ops CACHE_CAPACITY, bs_poisoned = False\<rparr>))
        else GrandpaOnly grandpa))"
proof (rule new_full_Ok [OF assms])
  fix pc effs0 sync
  assume partial: "new_partial ops off_chain_proofs config = (Inr pc, effs0)"
    and imp: "imp = (if off_chain_proofs then provide_to_import sync (pc_block_import pc) else pc_block_import pc)"
    and effs: "effs = effs0 @ [StartValidatedStreams, BuildNetwork] @ (if off_chain_proofs then [ProvideSyncService] else []) @
      (if offchain_worker_enabled config then [BuildOffchainWorkers] else []) @
      SpawnTasks # (if is_authority config then [SpawnAura] else []) @
      (if disable_grandpa config then [] else [SpawnGrandpaVoter]) @ [StartNetwork]"
  show ?thesis
    by (rule new_partial_Ok [OF partial]) (use imp effs in \<open>auto simp: validated_import_def\<close>)
qed

definition ref_service :: "(unit, nat, unit, nat, bool) service_ops" where
  "ref_service =
     \<lparr>telemetry_worker = (\<lambda>_. Inr ()), new_full_parts = (\<lambda>_. Inr ()), grandpa_block_import = (\<lambda>_. Inr 7),
      offchain_storage = (\<lambda>_. Some 0), new_lru_cache = (\<lambda>_. ()), aura_slot_duration = (\<lambda>_. Inr 6000),
      aura_import_queue = (\<lambda>_. Inr ()), genesis_hash = (\<lambda>_. Some (repeat_byte 0)),
      build_network = (\<lambda>_. Inr False), spawn_tasks = (\<lambda>_. Inr ()), start_aura = (\<lambda>_ _. Inr ()),
      run_grandpa_voter = (\<lambda>_. Inr ())\<rparr>"

definition authority_config :: configuration where
  "authority_config =
     \<lparr>keystore_remote = None, telemetry_endpoints = None, is_authority = True, disable_grandpa = False,
      offchain_worker_enabled = False, cfg_network = \<lparr>listen_addresses = [], boot_nodes = []\<rparr>\<rparr>"

theorem full_node_starts_witness:
  "\<exists>imp effs. new_full ref_service True authority_config = (Some (Inr imp), effs) \<and>
    SpawnAura \<in> set effs \<and> SpawnGrandpaVoter \<in> set effs \<and> (\<exists>before. effs = before @ [StartNetwork])"
proof -
  obtain imp effs where "new_full ref_service True authority_config = (Some (Inr imp), effs)"
    by (simp add: new_full_def new_partial_def new_telemetry_def start_consensus_def start_authoring_def
        start_finality_def ref_service_def authority_config_def Let_def)
  with full_node_starts [OF this] show ?thesis by (auto simp: authority_config_def)
qed

section \<open>The native executor\<close>

text \<open>
  \<open>ExecutorDispatch\<close>, with the dispatch that \<open>impl_runtime_apis!\<close> generates for the runtime.
\<close>

definition executor_dispatch :: "(string \<Rightarrow> bytes \<Rightarrow> bytes option) \<Rightarrow> string \<Rightarrow> bytes \<Rightarrow> bytes option" where
  "executor_dispatch api_dispatch method args = api_dispatch method args"

definition executor_native_version :: "'apis \<Rightarrow> 'apis native_version" where
  "executor_native_version RUNTIME_API_VERSIONS = runtime_native_version RUNTIME_API_VERSIONS"

end
