(* ===== verification/Command.thy ===== *)
theory Command
  imports Service
begin

text \<open>
  The command line of the node (\<open>src/node/src/cli.rs\<close> and \<open>run\<close> in \<open>src/node/src/command.rs\<close>). The
  subcommands of Substrate are parameters: \<open>command_ops\<close> has what creating a runner and running a command
  on a configuration (and on the components of a node, where the command gets them) returns. What is
  modelled is what \<open>run\<close> decides: which command runs, on what, and which features it needs.
\<close>

section \<open>Subcommands\<close>

datatype benchmark_cmd = BenchPallet | BenchBlock | BenchStorage | BenchOverhead | BenchExtrinsic | BenchMachine

datatype subcommand =
    Key
  | BuildSpec
  | CheckBlock
  | ExportBlocks
  | ExportState
  | ImportBlocks
  | PurgeChain
  | Revert
  | Benchmark benchmark_cmd
  | TryRuntime
  | ChainInfo

record cli =
  cli_subcommand :: "subcommand option"
  validated_streams_params :: vs_network_configuration

record features =
  runtime_benchmarks :: bool
  try_runtime :: bool

text \<open>
  \<open>run_cmd\<close> is the \<open>run\<close> of a subcommand that needs the configuration only, \<open>run_on\<close> of one that gets
  components of a node, \<open>inherent_data\<close> the data the overhead and extrinsic benchmarks ask for.
\<close>

record ('p, 's, 'c, 'i, 'sync) command_ops =
  create_runner :: "cli \<Rightarrow> string + configuration"
  run_key :: "string + unit"
  run_cmd :: "subcommand \<Rightarrow> configuration \<Rightarrow> string + unit"
  run_on :: "subcommand \<Rightarrow> configuration \<Rightarrow> ('p, 's, 'c, 'i, 'sync) partial_components \<Rightarrow> string + unit"
  inherent_data :: "string + unit"
  co_service :: "('p, 's, 'c, 'i, 'sync) service_ops"

section \<open>About the program\<close>

text \<open>
  What the command line says about the program; the environment of the build has some of it.
\<close>

record build_env =
  SUBSTRATE_CLI_IMPL_VERSION :: string
  CARGO_PKG_DESCRIPTION :: string
  CARGO_PKG_AUTHORS :: string

definition cli_impl_name :: string where
  "cli_impl_name = ''Substrate Node''"

definition cli_impl_version :: "build_env \<Rightarrow> string" where
  "cli_impl_version env = SUBSTRATE_CLI_IMPL_VERSION env"

definition cli_description :: "build_env \<Rightarrow> string" where
  "cli_description env = CARGO_PKG_DESCRIPTION env"

definition cli_author :: "build_env \<Rightarrow> string" where
  "cli_author env = CARGO_PKG_AUTHORS env"

definition cli_support_url :: string where
  "cli_support_url = ''support.anonymous.an''"

definition cli_copyright_start_year :: "32 word" where
  "cli_copyright_start_year = 2017"

definition cli_native_runtime_version :: "'apis \<Rightarrow> 'spec \<Rightarrow> 'apis runtime_version" where
  "cli_native_runtime_version RUNTIME_API_VERSIONS chain_spec = VERSION RUNTIME_API_VERSIONS"

section \<open>Running\<close>

text \<open>
  A command on the components \<open>new_partial\<close> makes, of which it takes some and drops the others.
\<close>

definition on_partial ::
    "('p, 's, 'c, 'i, 'sync) command_ops \<Rightarrow> bool \<Rightarrow> subcommand \<Rightarrow> configuration \<Rightarrow> (string + unit) \<times> effect list" where
  "on_partial ops off_chain_proofs sub config =
     (case new_partial (co_service ops) off_chain_proofs config of
        (Inl e, effs) \<Rightarrow> (Inl e, effs)
      | (Inr pc, effs) \<Rightarrow> (run_on ops sub config (drop_other pc), effs))"

definition run_benchmark ::
    "('p, 's, 'c, 'i, 'sync) command_ops \<Rightarrow> features \<Rightarrow> bool \<Rightarrow> benchmark_cmd \<Rightarrow> configuration
      \<Rightarrow> (string + unit) \<times> effect list" where
  "run_benchmark ops fts off_chain_proofs cmd config =
     (case cmd of
        BenchPallet \<Rightarrow>
          if \<not> runtime_benchmarks fts
          then (Inl ''Runtime benchmarking wasn't enabled when building the node. You can enable it with `--features runtime-benchmarks`.'', [])
          else (run_cmd ops (Benchmark cmd) config, [])
      | BenchStorage \<Rightarrow>
          if \<not> runtime_benchmarks fts
          then (Inl ''Storage benchmarking can be enabled with `--features runtime-benchmarks`.'', [])
          else on_partial ops off_chain_proofs (Benchmark cmd) config
      | BenchBlock \<Rightarrow> on_partial ops off_chain_proofs (Benchmark cmd) config
      | BenchMachine \<Rightarrow> (run_cmd ops (Benchmark cmd) config, [])
      | _ \<Rightarrow>
          (case new_partial (co_service ops) off_chain_proofs config of
             (Inl e, effs) \<Rightarrow> (Inl e, effs)
           | (Inr pc, effs) \<Rightarrow>
               (case inherent_data ops of
                  Inl e \<Rightarrow> (Inl e, effs)
                | Inr _ \<Rightarrow> (run_on ops (Benchmark cmd) config (drop_other pc), effs))))"

text \<open>
  \<open>run\<close>: its result, \<open>None\<close> where it panics, and the effects of building a node. A node that was started
  runs until it is told to exit; that is the result \<open>Ok\<close> here.
\<close>

definition run ::
    "('p, 's, 'c, 'i, 'sync) command_ops \<Rightarrow> features \<Rightarrow> bool \<Rightarrow> cli \<Rightarrow> (string + unit) option \<times> effect list" where
  "run ops fts off_chain_proofs cli =
     (let with_config = (\<lambda>f. case create_runner ops cli of
            Inl e \<Rightarrow> (Some (Inl e), [])
          | Inr config \<Rightarrow> f config);
          plain = (\<lambda>sub. with_config (\<lambda>config. (Some (run_cmd ops sub config), [])));
          partial = (\<lambda>sub. with_config (\<lambda>config. apfst Some (on_partial ops off_chain_proofs sub config)))
      in (case cli_subcommand cli of
            Some Key \<Rightarrow> (Some (run_key ops), [])
          | Some BuildSpec \<Rightarrow> plain BuildSpec
          | Some CheckBlock \<Rightarrow> partial CheckBlock
          | Some ExportBlocks \<Rightarrow> partial ExportBlocks
          | Some ExportState \<Rightarrow> partial ExportState
          | Some ImportBlocks \<Rightarrow> partial ImportBlocks
          | Some PurgeChain \<Rightarrow> plain PurgeChain
          | Some Revert \<Rightarrow> partial Revert
          | Some (Benchmark cmd) \<Rightarrow>
              with_config (\<lambda>config. apfst Some (run_benchmark ops fts off_chain_proofs cmd config))
          | Some TryRuntime \<Rightarrow>
              if try_runtime fts then plain TryRuntime
              else (Some (Inl ''TryRuntime wasn't enabled when building the node. You can enable it with `--features try-runtime`.''), [])
          | Some ChainInfo \<Rightarrow> plain ChainInfo
          | None \<Rightarrow>
              with_config (\<lambda>config.
                apfst (map_option (map_sum id (\<lambda>_. ()))) (new_full (co_service ops) off_chain_proofs config))))"

section \<open>Lemmas\<close>

lemma new_partial_effects: "set (snd (new_partial ops off_chain_proofs config)) \<subseteq> {SpawnTelemetry}"
  by (auto simp: new_partial_def Let_def split: sum.splits option.splits)

lemma on_partial_effects: "set (snd (on_partial ops off_chain_proofs sub config)) \<subseteq> {SpawnTelemetry}"
  using new_partial_effects [of "co_service ops" off_chain_proofs config]
  by (auto simp: on_partial_def split: prod.splits sum.splits)

lemma run_benchmark_effects: "set (snd (run_benchmark ops fts off_chain_proofs cmd config)) \<subseteq> {SpawnTelemetry}"
  using new_partial_effects [of "co_service ops" off_chain_proofs config]
    on_partial_effects [of ops off_chain_proofs "Benchmark cmd" config]
  by (auto simp: run_benchmark_def split: prod.splits sum.splits benchmark_cmd.splits)

text \<open>
  Only the command line without a subcommand starts a node: every subcommand, whatever it does and
  however it ends, leaves the Validated Streams services, block authoring, the GRANDPA voter and the
  network alone.
\<close>

lemma subcommands_start_nothing:
  assumes "cli_subcommand cli = Some sub"
  shows "set (snd (run ops fts off_chain_proofs cli)) \<subseteq> {SpawnTelemetry}"
  using assms on_partial_effects [of ops off_chain_proofs] run_benchmark_effects [of ops fts off_chain_proofs]
  by (cases sub) (auto simp: run_def Let_def split: sum.splits)

section \<open>Properties\<close>

text \<open>
  C36. The subcommands that import blocks cannot. In the build with off-chain proofs, the default one,
  \<open>check-block\<close> and \<open>import-blocks\<close> take the import queue from the components and drop the closure that would
  provide the sync service, so that the import of every block panics where it waits for that service.
\<close>

theorem import_commands_panic:
  assumes "new_partial (co_service ops) True config = (Inr pc, effs)" and "sub = CheckBlock \<or> sub = ImportBlocks"
  shows "on_partial ops True sub config = (run_on ops sub config (drop_other pc), effs) \<and>
    (\<exists>bi. import_queue_import (drop_other pc) = Validated bi \<and>
      import_block iops lru from_id count is_major_syncing client bi block =
        (Inl (ImportPanic ''called `Result::unwrap()` on an `Err` value: RecvError(())''), bi))"
proof -
  obtain grandpa where "pc_block_import pc = validated_import True grandpa (pc_event_proofs pc) (pc_block_state pc)"
    by (rule new_partial_Ok [OF assms(1)])
  then show ?thesis
    using assms(1)
    by (simp add: on_partial_def import_queue_import_def drop_other_def validated_import_def block_import_clone_def
        drop_sync_sender_def block_import_new_def import_block_def)
qed

definition ref_commands :: "(unit, nat, unit, nat, bool) command_ops" where
  "ref_commands =
     \<lparr>create_runner = (\<lambda>_. Inr authority_config), run_key = Inr (), run_cmd = (\<lambda>_ _. Inr ()),
      run_on = (\<lambda>_ _ _. Inr ()), inherent_data = Inr (), co_service = ref_service\<rparr>"

definition accept_all :: "(nat, unit, unit) block_import_ops" where
  "accept_all = \<lparr>parent_check_block = (\<lambda>i h. (Inr (), i)), parent_import_block = (\<lambda>i b. (Inr (), i))\<rparr>"

definition no_cache :: "unit lru_ops" where
  "no_cache = \<lparr>lru_get = (\<lambda>c k. (None, c)), lru_put = (\<lambda>c k v. c), lru_entries = (\<lambda>c k. None)\<rparr>"

theorem import_commands_panic_witness:
  "\<exists>pc bi. on_partial ref_commands True ImportBlocks authority_config =
      (run_on ref_commands ImportBlocks authority_config (drop_other pc), []) \<and>
    import_queue_import (drop_other pc) = Validated bi \<and>
    (\<forall>client block. fst (import_block accept_all no_cache (\<lambda>b. CryptoTypePublicPair [] b) (\<lambda>st e ks. Inr 0) (\<lambda>syncing. syncing)
        client bi block) =
      Inl (ImportPanic ''called `Result::unwrap()` on an `Err` value: RecvError(())''))"
proof -
  obtain pc where pc: "new_partial (co_service ref_commands) True authority_config = (Inr pc, [])"
    by (simp add: new_partial_def new_telemetry_def ref_commands_def ref_service_def authority_config_def Let_def)
  note panic = import_commands_panic [OF pc, of ImportBlocks accept_all no_cache "\<lambda>b. CryptoTypePublicPair [] b" "\<lambda>st e ks. Inr 0"
      "\<lambda>syncing. syncing"]
  obtain bi where bi: "import_queue_import (drop_other pc) = Validated bi" using panic by auto
  have "fst (import_block accept_all no_cache (\<lambda>b. CryptoTypePublicPair [] b) (\<lambda>st e ks. Inr 0) (\<lambda>syncing. syncing) client bi block) =
      Inl (ImportPanic ''called `Result::unwrap()` on an `Err` value: RecvError(())'')" for client block
    using panic [of client block] bi by auto
  moreover have "on_partial ref_commands True ImportBlocks authority_config =
      (run_on ref_commands ImportBlocks authority_config (drop_other pc), [])"
    using panic by simp
  ultimately show ?thesis using bi by blast
qed

end
