(* ===== verification/Rpc.thy ===== *)
theory Rpc
  imports VS_Errors
begin

text \<open>
  The RPC extensions of the node (\<open>src/node/src/rpc.rs\<close>). The modules of Substrate and of jsonrpsee are
  parameters, the record \<open>rpc_ops\<close>; \<open>rpc_laws\<close> states that merging two modules joins their methods and fails
  exactly if they have one in common.
\<close>

record ('c, 'p) full_deps =
  fd_client :: 'c
  fd_pool :: 'p
  fd_deny_unsafe :: bool

record ('c, 'p, 'm) rpc_ops =
  rpc_module_new :: 'm
  rpc_merge :: "'m \<Rightarrow> 'm \<Rightarrow> string + 'm"
  system_rpc :: "'c \<Rightarrow> 'p \<Rightarrow> bool \<Rightarrow> 'm"
  transaction_payment_rpc :: "'c \<Rightarrow> 'm"
  rpc_methods :: "'m \<Rightarrow> string set"

definition rpc_laws :: "('c, 'p, 'm) rpc_ops \<Rightarrow> bool" where
  "rpc_laws ops \<longleftrightarrow>
     rpc_methods ops (rpc_module_new ops) = {} \<and>
     (\<forall>a b. if rpc_methods ops a \<inter> rpc_methods ops b = {}
        then \<exists>m. rpc_merge ops a b = Inr m \<and> rpc_methods ops m = rpc_methods ops a \<union> rpc_methods ops b
        else \<exists>e. rpc_merge ops a b = Inl e)"

definition create_full :: "('c, 'p, 'm) rpc_ops \<Rightarrow> ('c, 'p) full_deps \<Rightarrow> string + 'm" where
  "create_full ops deps =
     (case rpc_merge ops (rpc_module_new ops) (system_rpc ops (fd_client deps) (fd_pool deps) (fd_deny_unsafe deps)) of
        Inl e \<Rightarrow> Inl e
      | Inr module1 \<Rightarrow> rpc_merge ops module1 (transaction_payment_rpc ops (fd_client deps)))"

text \<open>
  The module has the methods of both parts, and it is made whenever these do not clash.
\<close>

lemma create_full_methods:
  fixes deps :: "('c, 'p) full_deps" and ops :: "('c, 'p, 'm) rpc_ops"
  assumes "rpc_laws ops"
  defines "sys \<equiv> rpc_methods ops (system_rpc ops (fd_client deps) (fd_pool deps) (fd_deny_unsafe deps))"
    and "pay \<equiv> rpc_methods ops (transaction_payment_rpc ops (fd_client deps))"
  shows "if sys \<inter> pay = {} then \<exists>m. create_full ops deps = Inr m \<and> rpc_methods ops m = sys \<union> pay
    else \<exists>e. create_full ops deps = Inl e"
proof -
  have new: "rpc_methods ops (rpc_module_new ops) = {}"
    and join: "\<And>a b. if rpc_methods ops a \<inter> rpc_methods ops b = {}
      then \<exists>m. rpc_merge ops a b = Inr m \<and> rpc_methods ops m = rpc_methods ops a \<union> rpc_methods ops b
      else \<exists>e. rpc_merge ops a b = Inl e"
    using assms(1) unfolding rpc_laws_def by blast+
  obtain m where m: "rpc_merge ops (rpc_module_new ops)
      (system_rpc ops (fd_client deps) (fd_pool deps) (fd_deny_unsafe deps)) = Inr m" "rpc_methods ops m = sys"
    using join [of "rpc_module_new ops" "system_rpc ops (fd_client deps) (fd_pool deps) (fd_deny_unsafe deps)"] new
    unfolding sys_def by auto
  show ?thesis
    using join [of m "transaction_payment_rpc ops (fd_client deps)"] m unfolding pay_def
    by (simp add: create_full_def split: if_splits)
qed

end
