(* ===== verification/Gossip_Swarm.thy ===== *)
theory Gossip_Swarm
  imports Gossip
begin

text \<open>
  Starting the gossip service (\<open>src/consensus/src/gossip/mod.rs\<close>): \<open>create_swarm\<close> with its parts, and \<open>run\<close> as a
  whole. The constructors of libp2p are parameters, the record \<open>libp2p_ops\<close>; those that can fail are unwrapped
  by the code, so that a failure is a panic of the task.
\<close>

section \<open>The swarm\<close>

record ('gs, 'kad, 'mdns, 'id) gossip_network_behavior =
  gnb_gossipsub :: 'gs
  gnb_kademlia :: 'kad
  gnb_mdns :: 'mdns
  gnb_identify :: 'id

record ('w, 'key, 'pub, 'pid, 'tr, 'gs, 'kad, 'mdns, 'id, 'sw) libp2p_ops =
  generate_ed25519 :: "'w \<Rightarrow> 'key \<times> 'w"
  key_public :: "'key \<Rightarrow> 'pub"
  peer_id_from :: "'pub \<Rightarrow> 'pid"
  tls_transport :: "'key \<Rightarrow> string + 'tr"
  gossipsub_signed :: "'key \<Rightarrow> string + 'gs"
  identify_new :: "string \<Rightarrow> 'pub \<Rightarrow> 'id"
  kademlia_new :: "'pid \<Rightarrow> 'kad"
  mdns_new :: "string + 'mdns"
  with_threadpool_executor :: "'tr \<Rightarrow> ('gs, 'kad, 'mdns, 'id) gossip_network_behavior \<Rightarrow> 'pid \<Rightarrow> 'sw"

definition create_keys ::
    "('w, 'key, 'pub, 'pid, 'tr, 'gs, 'kad, 'mdns, 'id, 'sw) libp2p_ops \<Rightarrow> 'w \<Rightarrow> 'key \<times> 'w" where
  "create_keys lp w = generate_ed25519 lp w"

definition get_transport ::
    "('w, 'key, 'pub, 'pid, 'tr, 'gs, 'kad, 'mdns, 'id, 'sw) libp2p_ops \<Rightarrow> 'key \<Rightarrow> 'tr vs_result" where
  "get_transport lp key =
     (case tls_transport lp key of
        Inl e \<Rightarrow> Inl (Panic (''Failed using tls keys: '' @ e)) | Inr transport \<Rightarrow> Inr transport)"

definition get_behaviour ::
    "('w, 'key, 'pub, 'pid, 'tr, 'gs, 'kad, 'mdns, 'id, 'sw) libp2p_ops \<Rightarrow> 'key
      \<Rightarrow> ('gs, 'kad, 'mdns, 'id) gossip_network_behavior vs_result" where
  "get_behaviour lp key =
     (let peer_id = peer_id_from lp (key_public lp key)
      in and_then (unwrap (gossipsub_signed lp key)) (\<lambda>gossipsub.
           let identify = identify_new lp ''vstreams/1.0.0'' (key_public lp key);
               kademlia = kademlia_new lp peer_id
           in (case mdns_new lp of
                 Inl e \<Rightarrow> Inl (Panic (''Failed to initialize mDNS: '' @ e))
               | Inr mdns \<Rightarrow>
                   Inr \<lparr>gnb_gossipsub = gossipsub, gnb_kademlia = kademlia, gnb_mdns = mdns, gnb_identify = identify\<rparr>)))"

definition create_swarm ::
    "('w, 'key, 'pub, 'pid, 'tr, 'gs, 'kad, 'mdns, 'id, 'sw) libp2p_ops \<Rightarrow> 'w \<Rightarrow> 'sw vs_result \<times> 'w" where
  "create_swarm lp w =
     (case create_keys lp w of
        (key, w') \<Rightarrow>
          (and_then (get_transport lp key) (\<lambda>transport.
             and_then (get_behaviour lp key) (\<lambda>behaviour.
               let peer_id = peer_id_from lp (key_public lp key)
               in Inr (with_threadpool_executor lp transport behaviour peer_id))), w'))"

text \<open>
  \<open>run\<close>: the state in which the loop starts, or the panic that ends the task before it.
\<close>

definition start_service ::
    "('w, 'key, 'pub, 'pid, 'tr, 'gs, 'kad, 'mdns, 'id, 'sw) libp2p_ops \<Rightarrow> ('sw, 'peer) swarm_ops \<Rightarrow> 'w \<Rightarrow> channel
      \<Rightarrow> string list \<Rightarrow> 'h \<Rightarrow> ('sw, 'h) gossip_service vs_result" where
  "start_service lp ops w rc topics handler =
     and_then (fst (create_swarm lp w)) (\<lambda>swarm. Inr (run_service ops swarm rc topics handler))"

section \<open>Lemmas\<close>

text \<open>
  One key: the transport, the signatures of messages, what the node tells of itself and its peer id are
  all made from the key that was generated for this start.
\<close>

lemma create_swarm_Ok:
  assumes "create_swarm lp w = (Inr sw, w')"
  obtains key transport gossipsub mdns where "generate_ed25519 lp w = (key, w')"
    and "tls_transport lp key = Inr transport" and "gossipsub_signed lp key = Inr gossipsub" and "mdns_new lp = Inr mdns"
    and "sw = with_threadpool_executor lp transport
      \<lparr>gnb_gossipsub = gossipsub, gnb_kademlia = kademlia_new lp (peer_id_from lp (key_public lp key)), gnb_mdns = mdns,
       gnb_identify = identify_new lp ''vstreams/1.0.0'' (key_public lp key)\<rparr> (peer_id_from lp (key_public lp key))"
  using assms
  by (auto simp: create_swarm_def create_keys_def get_transport_def get_behaviour_def Let_def unwrap_def and_then_def
      split: prod.splits sum.splits)

text \<open>
  The service starts exactly if TLS accepts the key and gossipsub and mDNS can be set up; otherwise it
  panics, never with an error the caller could handle.
\<close>

lemma start_service_cases:
  assumes "generate_ed25519 lp w = (key, w')"
  shows "(\<exists>s. start_service lp ops w rc topics handler = Inr s \<and> gs_channel s = rc \<and> gs_handler s = handler) \<longleftrightarrow>
      (\<exists>t g m. tls_transport lp key = Inr t \<and> gossipsub_signed lp key = Inr g \<and> mdns_new lp = Inr m)"
    and "\<not> (\<exists>e. start_service lp ops w rc topics handler = Inl (Err e))"
  using assms
  by (auto simp: start_service_def run_service_def create_swarm_def create_keys_def get_transport_def get_behaviour_def
      Let_def unwrap_def and_then_def split: sum.splits)

end
