(* ===== verification/Chain_Spec.thy ===== *)
theory Chain_Spec
  imports Authorities Runtime
begin

text \<open>
  The chains a node knows by name (\<open>src/node/src/chain_spec.rs\<close>) and how it finds the specification of a
  chain (\<open>load_spec\<close> in \<open>src/node/src/command.rs\<close>). Deriving a key pair from a secret is a parameter, the
  record \<open>key_derivation\<close>, with \<open>derivation_laws\<close>: the secrets \<open>//seed\<close> are valid and different secrets give
  different keys. The genesis of \<open>transaction_payment\<close>, the default one, is not part of the record of the
  genesis state.
\<close>

section \<open>Keys from seeds\<close>

text \<open>
  \<open>account_from_string\<close> is the account of the \<open>sr25519\<close> key of a secret.
\<close>

record ('aura, 'grandpa, 'acc) key_derivation =
  aura_from_string :: "string \<Rightarrow> string + 'aura"
  grandpa_from_string :: "string \<Rightarrow> string + 'grandpa"
  account_from_string :: "string \<Rightarrow> string + 'acc"

definition derivation_laws :: "('aura, 'grandpa, 'acc) key_derivation \<Rightarrow> bool" where
  "derivation_laws kd \<longleftrightarrow>
     (\<forall>seed. (\<exists>k. aura_from_string kd (''//'' @ seed) = Inr k) \<and> (\<exists>k. grandpa_from_string kd (''//'' @ seed) = Inr k) \<and>
       (\<exists>k. account_from_string kd (''//'' @ seed) = Inr k)) \<and>
     (\<forall>s s' k. aura_from_string kd s = Inr k \<longrightarrow> aura_from_string kd s' = Inr k \<longrightarrow> s = s') \<and>
     (\<forall>s s' k. account_from_string kd s = Inr k \<longrightarrow> account_from_string kd s' = Inr k \<longrightarrow> s = s')"

definition get_from_seed :: "(string \<Rightarrow> string + 'k) \<Rightarrow> string \<Rightarrow> 'k vs_result" where
  "get_from_seed from_string seed =
     (case from_string (''//'' @ seed) of
        Inl e \<Rightarrow> Inl (Panic (''static values are valid; qed: '' @ e))
      | Inr public \<Rightarrow> Inr public)"

definition get_account_id_from_seed :: "('aura, 'grandpa, 'acc) key_derivation \<Rightarrow> string \<Rightarrow> 'acc vs_result" where
  "get_account_id_from_seed kd seed = get_from_seed (account_from_string kd) seed"

definition authority_keys_from_seed ::
    "('aura, 'grandpa, 'acc) key_derivation \<Rightarrow> string \<Rightarrow> ('aura \<times> 'grandpa) vs_result" where
  "authority_keys_from_seed kd s =
     and_then (get_from_seed (aura_from_string kd) s) (\<lambda>a.
       and_then (get_from_seed (grandpa_from_string kd) s) (\<lambda>g. Inr (a, g)))"

fun collect_results :: "'a vs_result list \<Rightarrow> 'a list vs_result" where
  "collect_results [] = Inr []"
| "collect_results (r # rs) = and_then r (\<lambda>x. and_then (collect_results rs) (\<lambda>xs. Inr (x # xs)))"

section \<open>Genesis\<close>

record ('aura, 'grandpa, 'acc) genesis_config =
  system_code :: bytes
  balances :: "('acc \<times> u128) list"
  aura_authorities :: "'aura list"
  grandpa_authorities :: "('grandpa \<times> u64) list"
  sudo_key :: "'acc option"

definition testnet_genesis ::
    "bytes \<Rightarrow> ('aura \<times> 'grandpa) list \<Rightarrow> 'acc \<Rightarrow> 'acc list \<Rightarrow> bool \<Rightarrow> ('aura, 'grandpa, 'acc) genesis_config" where
  "testnet_genesis wasm_binary initial_authorities root_key endowed_accounts enable_println =
     \<lparr>system_code = wasm_binary,
      balances = map (\<lambda>k. (k, push_bit 60 1)) endowed_accounts,
      aura_authorities = map fst initial_authorities,
      grandpa_authorities = map (\<lambda>x. (snd x, 1)) initial_authorities,
      sudo_key = Some root_key\<rparr>"

section \<open>The chains\<close>

datatype chain_type = Development | Local

text \<open>
  The genesis of a chain is a closure, evaluated when it is needed, so its result may be a panic. Boot
  nodes, telemetry, protocol id, properties and extensions are empty for both chains.
\<close>

record ('aura, 'grandpa, 'acc) chain_spec =
  cs_name :: string
  cs_id :: string
  cs_chain_type :: chain_type
  cs_genesis :: "('aura, 'grandpa, 'acc) genesis_config vs_result"

text \<open>
  The arguments of \<open>testnet_genesis\<close> from the seeds, in the order in which they are evaluated.
\<close>

definition genesis_from_seeds ::
    "('aura, 'grandpa, 'acc) key_derivation \<Rightarrow> bytes \<Rightarrow> string list \<Rightarrow> string \<Rightarrow> string list
      \<Rightarrow> ('aura, 'grandpa, 'acc) genesis_config vs_result" where
  "genesis_from_seeds kd wasm_binary auths root endowed =
     and_then (collect_results (map (authority_keys_from_seed kd) auths)) (\<lambda>initial_authorities.
       and_then (get_account_id_from_seed kd root) (\<lambda>root_key.
         and_then (collect_results (map (get_account_id_from_seed kd) endowed)) (\<lambda>endowed_accounts.
           Inr (testnet_genesis wasm_binary initial_authorities root_key endowed_accounts True))))"

definition development_config ::
    "('aura, 'grandpa, 'acc) key_derivation \<Rightarrow> bytes option \<Rightarrow> string + ('aura, 'grandpa, 'acc) chain_spec" where
  "development_config kd WASM_BINARY =
     (case WASM_BINARY of
        None \<Rightarrow> Inl ''Development wasm not available''
      | Some wasm_binary \<Rightarrow>
          Inr \<lparr>cs_name = ''Development'', cs_id = ''dev'', cs_chain_type = Development,
               cs_genesis = genesis_from_seeds kd wasm_binary [''Alice''] ''Alice''
                 [''Alice'', ''Bob'', ''Alice//stash'', ''Bob//stash'']\<rparr>)"

definition local_testnet_config ::
    "('aura, 'grandpa, 'acc) key_derivation \<Rightarrow> bytes option \<Rightarrow> string + ('aura, 'grandpa, 'acc) chain_spec" where
  "local_testnet_config kd WASM_BINARY =
     (case WASM_BINARY of
        None \<Rightarrow> Inl ''Development wasm not available''
      | Some wasm_binary \<Rightarrow>
          Inr \<lparr>cs_name = ''Local Testnet'', cs_id = ''local_testnet'', cs_chain_type = Local,
               cs_genesis = genesis_from_seeds kd wasm_binary [''Alice'', ''Bob'', ''Charlie'', ''Dave''] ''Alice''
                 [''Alice'', ''Bob'', ''Charlie'', ''Dave'', ''Eve'', ''Ferdie'', ''Alice//stash'', ''Bob//stash'',
                  ''Charlie//stash'', ''Dave//stash'', ''Eve//stash'', ''Ferdie//stash'']\<rparr>)"

text \<open>
  \<open>load_spec\<close>: \<open>from_json_file\<close> reads any other chain from a file.
\<close>

definition load_spec ::
    "('aura, 'grandpa, 'acc) key_derivation \<Rightarrow> bytes option
      \<Rightarrow> (string \<Rightarrow> string + ('aura, 'grandpa, 'acc) chain_spec) \<Rightarrow> string
      \<Rightarrow> string + ('aura, 'grandpa, 'acc) chain_spec" where
  "load_spec kd WASM_BINARY from_json_file chain_id =
     (if chain_id = ''dev'' then development_config kd WASM_BINARY
      else if chain_id = '''' \<or> chain_id = ''local'' then local_testnet_config kd WASM_BINARY
      else from_json_file chain_id)"

section \<open>Lemmas\<close>

lemma get_from_seed_Inr: "get_from_seed f s = Inr k \<longleftrightarrow> f (''//'' @ s) = Inr k"
  by (simp add: get_from_seed_def split: sum.split)

lemma collect_results_Inr:
  assumes "\<And>s. s \<in> set ss \<Longrightarrow> f s = Inr (g s)"
  shows "collect_results (map f ss) = Inr (map g ss)"
  using assms by (induction ss) simp_all

text \<open>
  The genesis made from seeds: the keys of the seeds, in their order.
\<close>

lemma genesis_from_seeds_Inr:
  assumes "derivation_laws kd"
  obtains aura grandpa acc where "inj aura" and "inj acc"
    and "\<And>wasm auths root endowed. genesis_from_seeds kd wasm auths root endowed =
      Inr (testnet_genesis wasm (map (\<lambda>s. (aura s, grandpa s)) auths) (acc root) (map acc endowed) True)"
proof -
  let ?key = "\<lambda>f :: string \<Rightarrow> string + _. \<lambda>s. projr (f (''//'' @ s))"
  have aura: "get_from_seed (aura_from_string kd) s = Inr (?key (aura_from_string kd) s)"
    and grandpa: "get_from_seed (grandpa_from_string kd) s = Inr (projr (grandpa_from_string kd (''//'' @ s)))"
    and acc: "get_from_seed (account_from_string kd) s = Inr (projr (account_from_string kd (''//'' @ s)))" for s
    using assms unfolding derivation_laws_def get_from_seed_Inr by (metis sum.sel(2))+
  have inj: "s = s'" if "aura_from_string kd (''//'' @ s) = Inr k" "aura_from_string kd (''//'' @ s') = Inr k" for s s' k
    using assms that unfolding derivation_laws_def by (metis same_append_eq)
  have inj': "s = s'" if "account_from_string kd (''//'' @ s) = Inr k" "account_from_string kd (''//'' @ s') = Inr k" for s s' k
    using assms that unfolding derivation_laws_def by (metis same_append_eq)
  show ?thesis
  proof (rule that)
    show "inj (\<lambda>s. projr (aura_from_string kd (''//'' @ s)))"
      using aura inj unfolding get_from_seed_Inr inj_def by metis
    show "inj (\<lambda>s. projr (account_from_string kd (''//'' @ s)))"
      using acc inj' unfolding get_from_seed_Inr inj_def by metis
    show "genesis_from_seeds kd wasm auths root endowed =
      Inr (testnet_genesis wasm (map (\<lambda>s. (projr (aura_from_string kd (''//'' @ s)),
          projr (grandpa_from_string kd (''//'' @ s)))) auths)
        (projr (account_from_string kd (''//'' @ root))) (map (\<lambda>s. projr (account_from_string kd (''//'' @ s))) endowed) True)"
      for wasm auths root endowed
      using aura grandpa acc
      by (simp add: genesis_from_seeds_def authority_keys_from_seed_def get_account_id_from_seed_def
          collect_results_Inr [where g = "\<lambda>s. (projr (aura_from_string kd (''//'' @ s)), projr (grandpa_from_string kd (''//'' @ s)))"]
          collect_results_Inr [where g = "\<lambda>s. projr (account_from_string kd (''//'' @ s))"])
  qed
qed

section \<open>Properties\<close>

text \<open>
  The chains a node starts with are fit for Validated Streams. For the development chain and the
  local one (also the default), the genesis has the keys of one and of four different authorities, within
  the bound of the pallet, each with weight 1 in GRANDPA; the target for them is 1 and 3, so the local
  chain works with one faulty authority; the sudo account is among the endowed ones, which are all
  different and hold 2 to the power of 60 each, more than the existential deposit.
\<close>

theorem testnets_genesis:
  assumes "derivation_laws kd" and "chain_id \<in> {''dev'', '''', ''local''}"
  shows "\<exists>spec g. load_spec kd (Some wasm) from_json chain_id = Inr spec \<and> cs_genesis spec = Inr g \<and>
    system_code g = wasm \<and> distinct (aura_authorities g) \<and> length (aura_authorities g) \<le> unat VS_MAX_AUTHORITIES \<and>
    length (aura_authorities g) = (if chain_id = ''dev'' then 1 else 4) \<and>
    map snd (grandpa_authorities g) = replicate (length (aura_authorities g)) 1 \<and>
    unat (target \<lparr>authorities = map from_id (aura_authorities g)\<rparr>) = (if chain_id = ''dev'' then 1 else 3) \<and>
    distinct (map fst (balances g)) \<and> list_all (\<lambda>(k, b). unat b = 2 ^ 60 \<and> EXISTENTIAL_DEPOSIT \<le> b) (balances g) \<and>
    (\<exists>k. sudo_key g = Some k \<and> k \<in> set (map fst (balances g)))"
proof (rule genesis_from_seeds_Inr [OF assms(1)])
  fix aura grandpa acc
  assume inj: "inj aura" "inj acc" and gen: "\<And>wasm auths root endowed. genesis_from_seeds kd wasm auths root endowed =
      Inr (testnet_genesis wasm (map (\<lambda>s. (aura s, grandpa s)) auths) (acc root) (map acc endowed) True)"
  have d: "distinct (map aura auths)" if "distinct auths" for auths
    using that inj(1) by (simp add: distinct_map inj_on_subset [of _ UNIV])
  have d': "distinct (map acc accs)" if "distinct accs" for accs
    using that inj(2) by (simp add: distinct_map inj_on_subset [of _ UNIV])
  note simps = testnet_genesis_def VS_MAX_AUTHORITIES_def EXISTENTIAL_DEPOSIT_def unat_target o_def split_def list_all_iff
    word_le_nat_alt push_bit_eq_mult
  show ?thesis
  proof (cases "chain_id = ''dev''")
    case True
    then show ?thesis
      using d [of "[''Alice'']"] d' [of "[''Alice'', ''Bob'', ''Alice//stash'', ''Bob//stash'']"]
      by (simp add: load_spec_def development_config_def gen simps)
  next
    case False
    then show ?thesis
      using assms(2) d [of "[''Alice'', ''Bob'', ''Charlie'', ''Dave'']"]
        d' [of "[''Alice'', ''Bob'', ''Charlie'', ''Dave'', ''Eve'', ''Ferdie'', ''Alice//stash'', ''Bob//stash'',
          ''Charlie//stash'', ''Dave//stash'', ''Eve//stash'', ''Ferdie//stash'']"]
      by (auto simp: load_spec_def local_testnet_config_def gen simps)
  qed
qed

definition seed_keys :: "(string, string, string) key_derivation" where
  "seed_keys = \<lparr>aura_from_string = Inr, grandpa_from_string = Inr, account_from_string = Inr\<rparr>"

theorem testnets_genesis_witness:
  "\<exists>spec g. load_spec seed_keys (Some [0]) (\<lambda>_. Inl ''no such file'') ''local'' = Inr spec \<and> cs_genesis spec = Inr g \<and>
    length (aura_authorities g) = 4 \<and> distinct (aura_authorities g)"
proof -
  have "derivation_laws seed_keys" by (simp add: derivation_laws_def seed_keys_def)
  from testnets_genesis [OF this, of "''local''" "[0]" "\<lambda>_. Inl ''no such file''" "\<lambda>_. CryptoTypePublicPair [] []"]
  show ?thesis by fastforce
qed

end
