(* ===== verification/Node_Benchmarking.thy ===== *)
theory Node_Benchmarking
  imports Runtime_Config
begin

text \<open>
  The extrinsics of the node's benchmarks (\<open>src/node/src/benchmarking.rs\<close>) and the weight of
  \<open>validate_event\<close> (\<open>src/pallet/src/weights.rs\<close>). The calls of FRAME pallets, the era of a mortal
  transaction, encoding and signing are parameters. A signed extrinsic carries what the chain checks it
  against: \<open>signed_payload\<close> has the call, the era, the nonce and the four additional values that are
  signed but not sent.
\<close>

section \<open>Weights\<close>

definition saturating_add_u64 :: "u64 \<Rightarrow> u64 \<Rightarrow> u64" where
  "saturating_add_u64 a b = (if 2 ^ 64 \<le> unat a + unat b then - 1 else a + b)"

definition weight_saturating_add :: "weight \<Rightarrow> weight \<Rightarrow> weight" where
  "weight_saturating_add a b =
     \<lparr>ref_time = saturating_add_u64 (ref_time a) (ref_time b), proof_size = saturating_add_u64 (proof_size a) (proof_size b)\<rparr>"

text \<open>
  \<open>validate_event\<close> costs a constant, one read and one write of the database, whose weights are given.
\<close>

definition validate_event_weight :: "(u64 \<Rightarrow> weight) \<Rightarrow> (u64 \<Rightarrow> weight) \<Rightarrow> weight" where
  "validate_event_weight reads writes =
     weight_saturating_add
       (weight_saturating_add
         (weight_saturating_add \<lparr>ref_time = 8834000, proof_size = 0\<rparr> \<lparr>ref_time = 0, proof_size = 3517\<rparr>) (reads 1))
       (writes 1)"

lemma unat_saturating_add_u64: "unat (saturating_add_u64 a b) = min (2 ^ 64 - 1) (unat a + unat b)"
proof -
  have "unat (- 1 :: u64) = 2 ^ 64 - 1" by (simp add: unsigned_minus_1_eq_mask mask_eq_exp_minus_1)
  then show ?thesis by (auto simp: saturating_add_u64_def unat_word_ariths min_def)
qed

lemma validate_event_weight_value:
  "unat (ref_time (validate_event_weight reads writes)) =
     min (2 ^ 64 - 1) (8834000 + unat (ref_time (reads 1)) + unat (ref_time (writes 1)))"
  by (simp add: validate_event_weight_def weight_saturating_add_def unat_saturating_add_u64 min_def)

section \<open>Signed extrinsics\<close>

definition BLOCK_HASH_COUNT :: u32 where
  "BLOCK_HASH_COUNT = 2400"

definition checked_next_power_of_two :: "u32 \<Rightarrow> u32 option" where
  "checked_next_power_of_two n = List.find (\<lambda>p. n \<le> p) (map (\<lambda>k. 2 ^ k) [0..<32])"

definition mortal_period :: u64 where
  "mortal_period =
     ucast (case checked_next_power_of_two BLOCK_HASH_COUNT of None \<Rightarrow> 2 | Some c \<Rightarrow> c div 2)"

record 'era signed_extra =
  check_era :: 'era
  check_nonce :: u32
  tip :: u128

record ('o, 'era) signed_payload =
  sp_call :: "'o runtime_call"
  sp_extra :: "'era signed_extra"
  sp_spec_version :: u32
  sp_transaction_version :: u32
  sp_genesis_hash :: h256
  sp_best_hash :: h256

record ('o, 'era, 'acc) benchmark_env =
  genesis_block_hash :: "h256 option"
  be_best_hash :: h256
  be_best_number :: u32
  era_mortal :: "u64 \<Rightarrow> u64 \<Rightarrow> 'era"
  sign_payload :: "bytes \<Rightarrow> ('o, 'era) signed_payload \<Rightarrow> bytes"
  account_of :: "bytes \<Rightarrow> 'acc"
  remark :: "bytes \<Rightarrow> 'o"
  transfer_keep_alive :: "'acc \<Rightarrow> u128 \<Rightarrow> 'o"

definition create_benchmark_extrinsic ::
    "('o, 'era, 'acc) benchmark_env \<Rightarrow> bytes \<Rightarrow> 'o runtime_call \<Rightarrow> u32
      \<Rightarrow> ('acc \<times> bytes \<times> 'era signed_extra, 'o) unchecked_extrinsic vs_result" where
  "create_benchmark_extrinsic env sender call nonce =
     (case genesis_block_hash env of
        None \<Rightarrow> Inl (Panic ''Genesis block exists; qed'')
      | Some genesis_hash \<Rightarrow>
          let extra = \<lparr>check_era = era_mortal env mortal_period (ucast (be_best_number env)),
                       check_nonce = nonce, tip = 0\<rparr>;
              raw_payload = \<lparr>sp_call = call, sp_extra = extra, sp_spec_version = spec_version (VERSION ()),
                             sp_transaction_version = transaction_version (VERSION ()), sp_genesis_hash = genesis_hash,
                             sp_best_hash = be_best_hash env\<rparr>
          in Inr \<lparr>ux_signature = Some (account_of env sender, sign_payload env sender raw_payload, extra),
                  ux_function = call\<rparr>)"

text \<open>
  \<open>RemarkBuilder\<close> and \<open>TransferKeepAliveBuilder\<close>; both sign as Bob.
\<close>

record ('o, 'era, 'acc) remark_builder =
  rb_client :: "('o, 'era, 'acc) benchmark_env"

definition remark_builder_new :: "('o, 'era, 'acc) benchmark_env \<Rightarrow> ('o, 'era, 'acc) remark_builder" where
  "remark_builder_new client = \<lparr>rb_client = client\<rparr>"

definition remark_pallet :: "('o, 'era, 'acc) remark_builder \<Rightarrow> string" where
  "remark_pallet self = ''system''"

definition remark_extrinsic :: "('o, 'era, 'acc) remark_builder \<Rightarrow> string" where
  "remark_extrinsic self = ''remark''"

definition remark_build ::
    "('o, 'era, 'acc) remark_builder \<Rightarrow> bytes \<Rightarrow> u32
      \<Rightarrow> ('acc \<times> bytes \<times> 'era signed_extra, 'o) unchecked_extrinsic vs_result" where
  "remark_build self bob nonce = create_benchmark_extrinsic (rb_client self) bob (System (remark (rb_client self) [])) nonce"

record ('o, 'era, 'acc) transfer_keep_alive_builder =
  tb_client :: "('o, 'era, 'acc) benchmark_env"
  tb_dest :: 'acc
  tb_value :: u128

definition transfer_keep_alive_builder_new ::
    "('o, 'era, 'acc) benchmark_env \<Rightarrow> 'acc \<Rightarrow> u128 \<Rightarrow> ('o, 'era, 'acc) transfer_keep_alive_builder" where
  "transfer_keep_alive_builder_new client dest value = \<lparr>tb_client = client, tb_dest = dest, tb_value = value\<rparr>"

definition transfer_keep_alive_pallet :: "('o, 'era, 'acc) transfer_keep_alive_builder \<Rightarrow> string" where
  "transfer_keep_alive_pallet self = ''balances''"

definition transfer_keep_alive_extrinsic :: "('o, 'era, 'acc) transfer_keep_alive_builder \<Rightarrow> string" where
  "transfer_keep_alive_extrinsic self = ''transfer_keep_alive''"

definition transfer_keep_alive_build ::
    "('o, 'era, 'acc) transfer_keep_alive_builder \<Rightarrow> bytes \<Rightarrow> u32
      \<Rightarrow> ('acc \<times> bytes \<times> 'era signed_extra, 'o) unchecked_extrinsic vs_result" where
  "transfer_keep_alive_build self bob nonce =
     create_benchmark_extrinsic (tb_client self) bob
       (Balances (transfer_keep_alive (tb_client self) (tb_dest self) (tb_value self))) nonce"

definition inherent_benchmark_data :: "string + 'd \<Rightarrow> string + 'd" where
  "inherent_benchmark_data provided = map_sum (\<lambda>e. ''creating inherent data: '' @ e) id provided"

text \<open>
  The era is half of the next power of two of the number of block hashes the chain keeps, so the block
  a benchmark transaction refers to is still known while it is valid.
\<close>

lemma mortal_period_value: "mortal_period = 2048"
  by (simp add: mortal_period_def checked_next_power_of_two_def BLOCK_HASH_COUNT_def upt_rec word_le_nat_alt)

lemma mortal_period_known: "unat mortal_period < unat BLOCK_HASH_COUNT"
  by (simp add: mortal_period_value BLOCK_HASH_COUNT_def)

text \<open>
  Benchmark transactions contain no events: a block made of them passes the check of events.
\<close>

lemma benchmark_extrinsics_no_events:
  assumes "list_all (\<lambda>r. \<exists>n. r = remark_build remarks bob n \<or> r = transfer_keep_alive_build transfers bob n) (map Inr xs)"
  shows "get_extrinsic_ids xs = []"
  using assms
  by (induction xs)
    (auto simp: remark_build_def transfer_keep_alive_build_def create_benchmark_extrinsic_def Let_def split: option.splits)

end
