(* ===== verification/Pallet_Benchmarking.thy ===== *)
theory Pallet_Benchmarking
  imports Runtime
begin

text \<open>
  The benchmarks of the pallet (\<open>src/pallet/src/benchmarking.rs\<close>). The one for off-chain proofs is a call of
  \<open>validate_event\<close>. The one for on-chain proofs repeats the checks of \<open>validate_event\<close> in its own code; modelled
  are the proofs it makes and these checks, up to where it inserts the proofs. (Its proofs are byte
  vectors, which is not the type of the values of \<open>OnStreams\<close>, so the insertion has no counterpart in
  the model of the pallet.) Generating a key and signing are parameters. \<open>usize_max\<close> is the value to which
  \<open>0 - 1\<close> wraps where overflow is not checked.
\<close>

section \<open>Off-chain proofs\<close>

definition bench_validate_event :: "'sys frame_system \<Rightarrow> 'sys offchain_pallet \<Rightarrow> dispatch_result \<times> 'sys offchain_pallet" where
  "bench_validate_event fs self = validate_event_offchain fs self (repeat_byte 0) None"

definition verify_validate_event :: "'sys offchain_pallet \<Rightarrow> bool" where
  "verify_validate_event self = is_event_valid_offchain self (repeat_byte 0)"

section \<open>On-chain proofs\<close>

datatype benchmark_error = Stop string

datatype benchmark_failure = BenchErr benchmark_error | BenchPanic string

record 'w bench_crypto =
  bc_generate :: "'w \<Rightarrow> public \<times> 'w"
  bc_sign :: "'w \<Rightarrow> public \<Rightarrow> bytes \<Rightarrow> bytes option"

text \<open>
  The map of 32 proofs; \<open>try_into\<close> to a bounded vector and \<open>try_insert\<close> fail beyond the bounds \<open>sig_bound\<close> and 32.
\<close>

fun bench_proofs ::
    "'w bench_crypto \<Rightarrow> nat \<Rightarrow> h256 \<Rightarrow> nat \<Rightarrow> (public, bytes) fmap \<Rightarrow> 'w \<Rightarrow> benchmark_failure + (public, bytes) fmap" where
  "bench_proofs ops sig_bound event_id 0 proofs w = Inr proofs"
| "bench_proofs ops sig_bound event_id (Suc n) proofs w =
     (case bc_generate ops w of
        (key, w') \<Rightarrow>
          (case bc_sign ops w' key (as_bytes event_id) of
             None \<Rightarrow> Inl (BenchPanic ''called `Option::unwrap()` on a `None` value'')
           | Some signature \<Rightarrow>
               if length signature \<le> sig_bound \<and> (hm_len proofs < unat VS_MAX_AUTHORITIES \<or> fmlookup proofs key \<noteq> None)
               then bench_proofs ops sig_bound event_id n (fmupd key signature proofs) w'
               else Inl (BenchPanic ''called `Result::unwrap()` on an `Err` value'')))"

definition bench_target :: "bool \<Rightarrow> nat \<Rightarrow> nat \<Rightarrow> benchmark_failure + u16" where
  "bench_target overflow_checks usize_max n =
     (if n = 0 \<and> overflow_checks then Inl (BenchPanic ''attempt to subtract with overflow'')
      else Inr (as_u16 (2 * ((if n = 0 then usize_max else n - 1) div 3) + 1)))"

fun bench_count :: "sr25519 \<Rightarrow> h256 \<Rightarrow> u16 \<Rightarrow> (public \<times> bytes) list \<Rightarrow> benchmark_failure + u16" where
  "bench_count sr event_id proof_count [] = Inr proof_count"
| "bench_count sr event_id proof_count ((key, sig) # rs) =
     (case signature_from_slice sr sig of
        Some signature \<Rightarrow>
          if sr_verify sr key (as_bytes event_id) signature then bench_count sr event_id (proof_count + 1) rs
          else Inl (BenchErr (Stop ''Invalid proof''))
      | None \<Rightarrow> Inl (BenchErr (Stop ''Bad Signature'')))"

definition on_chain_proofs_checks ::
    "sr25519 \<Rightarrow> bool \<Rightarrow> nat \<Rightarrow> ('aid \<Rightarrow> bytes) \<Rightarrow> 'aid list \<Rightarrow> 'sys onchain_pallet \<Rightarrow> h256 \<Rightarrow> h256
      \<Rightarrow> (public, bytes) fmap \<Rightarrow> benchmark_failure + unit" where
  "on_chain_proofs_checks sr overflow_checks usize_max to_raw_vec ids self event_id event_hash proofs =
     (case raw_authorities to_raw_vec ids of
        None \<Rightarrow> Inl (BenchPanic ''assertion failed'')
      | Some auths \<Rightarrow>
          (case bench_target overflow_checks usize_max (length auths) of
             Inl f \<Rightarrow> Inl f
           | Inr tgt \<Rightarrow>
               if fmlookup (on_streams self) event_hash \<noteq> None then Inl (BenchErr (Stop ''Already validated event''))
               else if \<not> list_all (\<lambda>key. fmlookup proofs key \<noteq> None) (map fst (sorted_list_of_fmap proofs))
               then Inl (BenchErr (Stop ''Unrecognized Authority''))
               else (case bench_count sr event_id 0 (sorted_list_of_fmap proofs) of
                       Inl f \<Rightarrow> Inl f
                     | Inr proof_count \<Rightarrow>
                         if proof_count < tgt then Inl (BenchErr (Stop ''not enough proofs'')) else Inr ())))"

section \<open>Lemmas\<close>

lemma bench_validate_event_ok:
  assumes "bench_validate_event fs self = (Inr (), self')"
  shows "verify_validate_event self'"
  using off.ok_marks [OF assms [unfolded bench_validate_event_def], of "repeat_byte 0"]
  by (simp add: verify_validate_event_def)

text \<open>
  The benchmark's target is never above that of \<open>validate_event\<close>, and the same exactly if \<open>n\<close> is one more
  than a multiple of three.
\<close>

lemma bench_target_le:
  assumes "0 < n"
  shows "bench_target overflow_checks usize_max n = Inr (as_u16 (2 * ((n - 1) div 3) + 1))"
    and "2 * ((n - 1) div 3) + 1 \<le> n * 2 div 3 + 1"
    and "2 * ((n - 1) div 3) + 1 = n * 2 div 3 + 1 \<longleftrightarrow> n mod 3 = 1"
proof -
  show "bench_target overflow_checks usize_max n = Inr (as_u16 (2 * ((n - 1) div 3) + 1))"
    using assms by (simp add: bench_target_def)
  define a b where "a = (n - 1) div 3" and "b = (n - 1) mod 3"
  have n: "n = 3 * a + b + 1" using assms by (simp add: a_def b_def)
  have d: "n * 2 div 3 = 2 * a + (2 * b + 2) div 3"
    using div_mult_self4 [of 3 "2 * a" "2 * b + 2"] by (simp add: n algebra_simps)
  have m: "n mod 3 = (b + 1) mod 3" using mod_mult_self4 [of 3 a "b + 1"] by (simp add: n)
  have "b < 3" by (simp add: b_def)
  then consider "b = 0" | "b = 1" | "b = 2" by linarith
  then have "2 * a + 1 \<le> n * 2 div 3 + 1 \<and> (2 * a + 1 = n * 2 div 3 + 1 \<longleftrightarrow> n mod 3 = 1)"
    by cases (simp_all add: d m)
  then show "2 * ((n - 1) div 3) + 1 \<le> n * 2 div 3 + 1"
    and "2 * ((n - 1) div 3) + 1 = n * 2 div 3 + 1 \<longleftrightarrow> n mod 3 = 1"
    by (simp_all add: a_def)
qed

text \<open>
  The check of the keys never fails: it looks for the keys of the proofs among the proofs.
\<close>

lemma bench_keys_check: "list_all (\<lambda>key. fmlookup proofs key \<noteq> None) (map fst (sorted_list_of_fmap proofs))"
  using keys_sorted_list_of_fmap [of proofs] by (auto simp: list_all_iff fset_fmdom simp del: set_map)

lemma bench_count_ok:
  assumes "\<And>k b. (k, b) \<in> set rs \<Longrightarrow> \<exists>g. signature_from_slice sr b = Some g \<and> sr_verify sr k (as_bytes e) g"
  shows "bench_count sr e n rs = Inr (n + of_nat (length rs))"
  using assms
proof (induction sr e n rs rule: bench_count.induct)
  case (2 sr e n key sig rs)
  obtain g where "signature_from_slice sr sig = Some g" "sr_verify sr key (as_bytes e) g"
    using 2(2) [of key sig] by auto
  with 2 show ?case by (fastforce simp: algebra_simps)
qed simp

text \<open>
  So correct signatures of keys that are no authorities pass the benchmark, where \<open>validate_event\<close>
  answers \<open>UnrecognizedAuthority\<close>.
\<close>

lemma benchmark_accepts_strangers:
  assumes raw: "raw_authorities to_raw ids = Some auths" and n: "0 < length auths" "length auths \<le> 32"
    and fresh: "fmlookup (on_streams self) event_hash = None" "fmlookup (on_streams self) e = None"
    and sigs: "\<And>k b. fmlookup proofs k = Some b \<Longrightarrow> \<exists>g. signature_from_slice sr b = Some g \<and> sr_verify sr k (as_bytes e) g"
    and len: "hm_len proofs = 32" and dom: "fset (fmdom proofs) = fset (fmdom ps)"
    and strange: "\<not> fset (fmdom ps) \<subseteq> set auths"
  shows "on_chain_proofs_checks sr overflow_checks usize_max to_raw ids self e event_hash proofs = Inr ()"
    and "validate_event_onchain fs sr to_raw ids self e (Some ps) = (Inl (DispatchErr UnrecognizedAuthority), self)"
proof -
  have "bench_count sr e 0 (sorted_list_of_fmap proofs) = Inr (as_u16 32)"
    using bench_count_ok [of "sorted_list_of_fmap proofs" sr e 0] sigs len
    by (simp add: set_sorted_list_of_fmap length_sorted_list_of_fmap as_u16_def)
  moreover have "\<not> as_u16 32 < as_u16 (2 * ((length auths - 1) div 3) + 1)"
    using n by (simp add: as_u16_less_iff)
  ultimately show "on_chain_proofs_checks sr overflow_checks usize_max to_raw ids self e event_hash proofs = Inr ()"
    using raw fresh n bench_keys_check [of proofs] by (simp add: on_chain_proofs_checks_def bench_target_def)
  have "\<not> check_keys auths (map fst (sorted_list_of_fmap ps))"
    using strange by (simp add: check_keys_iff keys_sorted_list_of_fmap del: set_map)
  then show "validate_event_onchain fs sr to_raw ids self e (Some ps) = (Inl (DispatchErr UnrecognizedAuthority), self)"
    using raw fresh by (simp add: validate_event_onchain_def)
qed

end
