(* ===== verification/F32.thy ===== *)
theory F32
  imports VS_Errors Complex_Main
begin

text \<open>
  The type \<open>f32\<close> of Rust, for the arithmetic of the benchmark client: IEEE single precision, with rounding
  to nearest and ties to even, the conversions \<open>as f32\<close> and \<open>as u32\<close>, the operations the client uses, and
  \<open>f32::from_str\<close>. A finite value is its sign and its magnitude, a rational number; \<open>round_mag\<close> takes a
  magnitude to the nearest one of the format, of 24 bits and with the last place at \<open>2\<^sup>-\<^sup>1\<^sup>4\<^sup>9\<close> or above,
  or to infinity from \<open>2\<^sup>1\<^sup>2\<^sup>8\<close> on.
\<close>

section \<open>Rounding\<close>

datatype f32 = NaN | Infinite bool | Finite bool rat

definition round_even :: "rat \<Rightarrow> int" where
  "round_even x =
     (let f = \<lfloor>x\<rfloor>; d = x - of_int f
      in if d < 1 / 2 then f else if 1 / 2 < d then f + 1 else if even f then f else f + 1)"

fun ilog2 :: "nat \<Rightarrow> nat" where
  "ilog2 n = (if n < 2 then 0 else Suc (ilog2 (n div 2)))"

declare ilog2.simps [simp del]

text \<open>
  The power of two a positive number lies in, and the one of its last place.
\<close>

definition exponent_of :: "rat \<Rightarrow> int" where
  "exponent_of x =
     (case quotient_of x of
        (a, b) \<Rightarrow>
          let k = int (ilog2 (nat a)) - int (ilog2 (nat b))
          in if 2 powi k \<le> x then k else k - 1)"

definition last_place :: "rat \<Rightarrow> int" where
  "last_place x = max (- 149) (exponent_of x - 23)"

definition round_mag :: "rat \<Rightarrow> rat option" where
  "round_mag x =
     (if x = 0 then Some 0
      else let q = last_place x; v = of_int (round_even (x / 2 powi q)) * 2 powi q
           in if 2 ^ 128 \<le> v then None else Some v)"

definition f32_of :: "bool \<Rightarrow> rat \<Rightarrow> f32" where
  "f32_of neg x = (case round_mag x of None \<Rightarrow> Infinite neg | Some v \<Rightarrow> Finite neg v)"

section \<open>Operations\<close>

definition u32_as_f32 :: "u32 \<Rightarrow> f32" where
  "u32_as_f32 n = f32_of False (of_nat (unat n))"

definition i32_as_f32 :: "32 word \<Rightarrow> f32" where
  "i32_as_f32 n = f32_of (sint n < 0) (of_int \<bar>sint n\<bar>)"

fun f32_mul :: "f32 \<Rightarrow> f32 \<Rightarrow> f32" where
  "f32_mul (Finite s x) (Finite t y) = f32_of (s \<noteq> t) (x * y)"
| "f32_mul (Infinite s) (Finite t y) = (if y = 0 then NaN else Infinite (s \<noteq> t))"
| "f32_mul (Finite s x) (Infinite t) = (if x = 0 then NaN else Infinite (s \<noteq> t))"
| "f32_mul (Infinite s) (Infinite t) = Infinite (s \<noteq> t)"
| "f32_mul _ _ = NaN"

fun f32_div :: "f32 \<Rightarrow> f32 \<Rightarrow> f32" where
  "f32_div (Finite s x) (Finite t y) =
     (if y = 0 then (if x = 0 then NaN else Infinite (s \<noteq> t)) else f32_of (s \<noteq> t) (x / y))"
| "f32_div (Infinite s) (Finite t y) = Infinite (s \<noteq> t)"
| "f32_div (Finite s x) (Infinite t) = Finite (s \<noteq> t) 0"
| "f32_div _ _ = NaN"

text \<open>
  \<open><=\<close>, which is false on NaN.
\<close>

fun f32_le :: "f32 \<Rightarrow> f32 \<Rightarrow> bool" where
  "f32_le NaN y = False"
| "f32_le x NaN = False"
| "f32_le (Infinite s) y = (s \<or> y = Infinite False)"
| "f32_le x (Infinite t) = (\<not> t)"
| "f32_le (Finite s x) (Finite t y) = ((if s then - x else x) \<le> (if t then - y else y))"

text \<open>
  \<open>as u32\<close> cuts off, saturates, and takes NaN to 0.
\<close>

fun f32_as_u32 :: "f32 \<Rightarrow> u32" where
  "f32_as_u32 NaN = 0"
| "f32_as_u32 (Infinite s) = (if s then 0 else - 1)"
| "f32_as_u32 (Finite s x) = (if s then 0 else if 2 ^ 32 \<le> x then - 1 else of_int \<lfloor>x\<rfloor>)"

section \<open>Reading\<close>

definition is_digit :: "char \<Rightarrow> bool" where
  "is_digit c \<longleftrightarrow> (48 :: nat) \<le> of_char c \<and> of_char c \<le> (57 :: nat)"

definition digits_value :: "string \<Rightarrow> nat" where
  "digits_value s = foldl (\<lambda>n c. 10 * n + (of_char c - 48)) 0 s"

text \<open>
  The exponent, with its \<open>e\<close>; then a number without sign.
\<close>

definition parse_exponent :: "string \<Rightarrow> int option" where
  "parse_exponent s =
     (case s of
        [] \<Rightarrow> Some 0
      | c # r \<Rightarrow>
          if c = CHR ''e'' \<or> c = CHR ''E'' then
            (let neg = (r \<noteq> [] \<and> hd r = CHR ''-'');
                 ds = (if r \<noteq> [] \<and> (hd r = CHR ''-'' \<or> hd r = CHR ''+'') then tl r else r)
             in if ds \<noteq> [] \<and> list_all is_digit ds
                then Some (if neg then - int (digits_value ds) else int (digits_value ds)) else None)
          else None)"

definition parse_decimal :: "string \<Rightarrow> rat option" where
  "parse_decimal s =
     (let whole = takeWhile is_digit s; r = dropWhile is_digit s;
          frac = (if r \<noteq> [] \<and> hd r = CHR ''.'' then takeWhile is_digit (tl r) else []);
          rest = (if r \<noteq> [] \<and> hd r = CHR ''.'' then dropWhile is_digit (tl r) else r)
      in if whole = [] \<and> frac = [] then None
         else map_option (\<lambda>e. of_nat (digits_value (whole @ frac)) * 10 powi (e - int (length frac))) (parse_exponent rest))"

definition lower :: "char \<Rightarrow> char" where
  "lower c = (if (65 :: nat) \<le> of_char c \<and> of_char c \<le> (90 :: nat) then char_of (of_char c + 32 :: nat) else c)"

definition f32_from_str :: "string \<Rightarrow> string + f32" where
  "f32_from_str s =
     (if s = [] then Inl ''cannot parse float from empty string''
      else let neg = (hd s = CHR ''-'');
               r = (if hd s = CHR ''-'' \<or> hd s = CHR ''+'' then tl s else s)
           in if map lower r = ''inf'' \<or> map lower r = ''infinity'' then Inr (Infinite neg)
              else if map lower r = ''nan'' then Inr NaN
              else (case parse_decimal r of
                      None \<Rightarrow> Inl ''invalid float literal''
                    | Some x \<Rightarrow> Inr (f32_of neg x)))"

section \<open>Facts about rounding\<close>

lemma round_even_int [simp]: "round_even (of_int n) = n"
  by (simp add: round_even_def)

lemma round_even_near: "\<bar>of_int (round_even x) - x\<bar> \<le> 1 / 2"
proof -
  have "of_int \<lfloor>x\<rfloor> \<le> x" and "x < of_int \<lfloor>x\<rfloor> + 1" by linarith+
  then show ?thesis by (simp add: round_even_def Let_def abs_if) linarith
qed

lemma ilog2_bounds: "0 < n \<Longrightarrow> 2 ^ ilog2 n \<le> n \<and> n < 2 ^ Suc (ilog2 n)"
proof (induction n rule: ilog2.induct)
  case (1 n)
  show ?case
  proof (cases "n < 2")
    case True
    then show ?thesis using 1(2) by (simp add: ilog2.simps [of n])
  next
    case False
    with 1 have "2 ^ ilog2 (n div 2) \<le> n div 2 \<and> n div 2 < 2 ^ Suc (ilog2 (n div 2))" by simp
    then have "2 * 2 ^ ilog2 (n div 2) \<le> n" "n < 2 * 2 ^ Suc (ilog2 (n div 2))" by linarith+
    then show ?thesis using False by (simp add: ilog2.simps [of n])
  qed
qed

lemma exponent_of_bounds:
  assumes "0 < x"
  shows "2 powi exponent_of x \<le> x" and "x < 2 powi (exponent_of x + 1)"
proof -
  obtain a b where q: "quotient_of x = (a, b)" by (cases "quotient_of x")
  then have x: "x = of_int a / of_int b" and b: "0 < b" by (simp_all add: quotient_of_div quotient_of_denom_pos)
  have a: "0 < a" using assms b x by (simp add: zero_less_divide_iff)
  define i j where "i = ilog2 (nat a)" and "j = ilog2 (nat b)"
  have "2 ^ i \<le> nat a" "nat a < 2 ^ Suc i" "2 ^ j \<le> nat b" "nat b < 2 ^ Suc j"
    using ilog2_bounds [of "nat a"] ilog2_bounds [of "nat b"] a b by (simp_all add: i_def j_def)
  then have "int (2 ^ i) \<le> a" "a < int (2 ^ Suc i)" "int (2 ^ j) \<le> b" "b < int (2 ^ Suc j)"
    using a b by linarith+
  then have "of_int (int (2 ^ i)) \<le> (of_int a :: rat)" "(of_int a :: rat) < of_int (int (2 ^ Suc i))"
    "of_int (int (2 ^ j)) \<le> (of_int b :: rat)" "(of_int b :: rat) < of_int (int (2 ^ Suc j))"
    by (simp_all only: of_int_le_iff of_int_less_iff)
  then have ab: "2 ^ i \<le> (of_int a :: rat)" "(of_int a :: rat) < 2 * 2 ^ i" "2 ^ j \<le> (of_int b :: rat)"
    "(of_int b :: rat) < 2 * 2 ^ j"
    by simp_all
  have k: "(2 :: rat) powi (int i - int j) = 2 ^ i / 2 ^ j" by (simp add: power_int_diff)
  have lower: "2 ^ i / (2 * 2 ^ j) < x" unfolding x using ab b by (intro frac_less2) simp_all
  have upper: "x < 2 * 2 ^ i / 2 ^ j" unfolding x using ab a by (intro frac_less) simp_all
  have "2 powi (int i - int j - 1) = 2 ^ i / (2 * 2 ^ j :: rat)" by (simp add: power_int_diff)
  moreover have "2 powi (int i - int j + 1) = 2 * 2 ^ i / (2 ^ j :: rat)" by (simp add: power_int_add k)
  ultimately show "2 powi exponent_of x \<le> x" and "x < 2 powi (exponent_of x + 1)"
    using lower upper by (auto simp: exponent_of_def q i_def [symmetric] j_def [symmetric] Let_def)
qed


lemma exponent_of_mono_bound: "0 < x \<Longrightarrow> x < 2 powi n \<Longrightarrow> exponent_of x < n"
proof (rule ccontr)
  assume x: "0 < x" "x < 2 powi n" and "\<not> exponent_of x < n"
  then have "(2 :: rat) powi n \<le> 2 powi exponent_of x" by (intro power_int_increasing) simp_all
  then show False using exponent_of_bounds(1) [OF x(1)] x(2) by linarith
qed

text \<open>
  Rounding moves a magnitude by half of the last place at most, and keeps the whole numbers below \<open>2\<^sup>2\<^sup>4\<close>.
\<close>

lemma round_mag_near:
  assumes "round_mag x = Some v" and "0 < x"
  shows "\<bar>v - x\<bar> \<le> 2 powi last_place x / 2"
proof -
  let ?u = "(2 :: rat) powi last_place x"
  have v: "v = of_int (round_even (x / ?u)) * ?u"
    using assms by (auto simp: round_mag_def Let_def split: if_splits)
  have u: "0 < ?u" by simp
  have "\<bar>of_int (round_even (x / ?u)) - x / ?u\<bar> * ?u \<le> 1 / 2 * ?u"
    by (intro mult_right_mono round_even_near) simp
  moreover have "v - x = (of_int (round_even (x / ?u)) - x / ?u) * ?u" using u by (simp add: v left_diff_distrib)
  then have "\<bar>v - x\<bar> = \<bar>of_int (round_even (x / ?u)) - x / ?u\<bar> * ?u" using u by (simp add: abs_mult)
  ultimately show ?thesis by simp
qed

lemma round_mag_nat:
  assumes "n < 2 ^ 24"
  shows "round_mag (of_nat n) = Some (of_nat n)"
proof (cases "n = 0")
  case False
  have n: "(of_nat n :: rat) < 2 powi 24"
    using assms by (simp flip: of_nat_less_iff [of n "2 ^ 24", where 'a = rat])
  have "exponent_of (of_nat n) < 24" using False n by (intro exponent_of_mono_bound) simp_all
  then obtain k where k: "last_place (of_nat n) = - int k"
    by (intro that [of "nat (- last_place (of_nat n))"]) (simp add: last_place_def)
  have "(of_nat n :: rat) / 2 powi (- int k) = of_int (int (n * 2 ^ k))"
    by (simp add: power_int_minus field_simps)
  then have "of_int (round_even (of_nat n / 2 powi (- int k))) * 2 powi (- int k) = (of_nat n :: rat)"
    by (simp only: round_even_int) (simp add: power_int_minus)
  moreover have "(2 :: rat) powi 24 < 2 ^ 128" by simp
  then have "\<not> (2 :: rat) ^ 128 \<le> of_nat n" using n by linarith
  ultimately show ?thesis using False by (simp add: round_mag_def k Let_def)
qed (simp add: round_mag_def)

lemma f32_as_u32_small: "0 \<le> v \<Longrightarrow> v < 1 \<Longrightarrow> f32_as_u32 (Finite False v) = 0"
  using floor_eq_iff [of v 0] by (simp add: not_le)

lemma round_mag_finite_below:
  assumes "0 \<le> x" and "x \<le> 1 / 2"
  obtains v where "round_mag x = Some v" and "0 \<le> v" and "v < 1"
proof (cases "x = 0")
  case True
  then show thesis using that [of 0] by (simp add: round_mag_def)
next
  case False
  then have x: "0 < x" using assms(1) by simp
  let ?u = "(2 :: rat) powi last_place x"
  let ?v = "of_int (round_even (x / ?u)) * ?u"
  have "exponent_of x < 0" by (rule exponent_of_mono_bound [OF x]) (use assms(2) in simp)
  then have "last_place x \<le> - 24" by (simp add: last_place_def)
  then have u: "?u \<le> 2 powi (- 24)" by (intro power_int_increasing) simp_all
  have "0 \<le> \<lfloor>x / ?u\<rfloor>" using x by simp
  then have "0 \<le> round_even (x / ?u)" by (simp add: round_even_def Let_def)
  then have nonneg: "0 \<le> ?v" by simp
  have "of_int (round_even (x / ?u)) \<le> x / ?u + 1 / 2" using round_even_near [of "x / ?u"] by linarith
  then have "?v \<le> (x / ?u + 1 / 2) * ?u" by (intro mult_right_mono) simp_all
  then have "?v \<le> x + ?u / 2" by (simp add: distrib_right)
  moreover have "(2 :: rat) powi (- 24) < 1" by (simp add: power_int_minus)
  ultimately have "?v < 1" using assms(2) u by linarith
  moreover from this have "round_mag x = Some ?v" using False by (auto simp: round_mag_def Let_def)
  ultimately show thesis using that nonneg by blast
qed

lemma u32_as_f32_exact: "unat n < 2 ^ 24 \<Longrightarrow> u32_as_f32 n = Finite False (of_nat (unat n))"
  using round_mag_nat [of "unat n"] by (simp add: u32_as_f32_def f32_of_def)

end
