(* ===== verification/Tps_Benchmark.thy ===== *)
theory Tps_Benchmark
  imports Port_Config F32
begin

unbundle bit_operations_syntax

text \<open>
  The benchmark client (\<open>src/samples/tps-benchmark/src/main.rs\<close>): numbering the events it makes, and the
  loop that decides after each block how many more to send. \<open>sha256\<close> is a parameter, of which only the
  length of a digest matters. The loop takes the arithmetic on the rate (the comparison of the backlog with
  the rate, and scaling the rate by the factors given on the command line) as the record \<open>controller\<close> of
  three functions, which \<open>Tps_Controller\<close> gives from \<open>f32\<close>. All counters have the width of the
  code, and the flag \<open>overflow_checks\<close> says whether an overflow panics or wraps around. The texts the
  client prints are not part of the model.
\<close>

section \<open>Event identifiers\<close>

definition u32_to_be_bytes :: "u32 \<Rightarrow> bytes" where
  "u32_to_be_bytes n = [ucast (drop_bit 24 n), ucast (drop_bit 16 n), ucast (drop_bit 8 n), ucast n]"

definition u32_from_be_bytes :: "bytes \<Rightarrow> u32" where
  "u32_from_be_bytes b =
     push_bit 24 (ucast (b ! 0)) OR push_bit 16 (ucast (b ! 1)) OR push_bit 8 (ucast (b ! 2)) OR ucast (b ! 3)"

text \<open>
  \<open>write_all\<close> to a mutable slice: the bytes replace the first ones of the slice.
\<close>

definition slice_write_all :: "bytes \<Rightarrow> bytes \<Rightarrow> string + bytes" where
  "slice_write_all buf data =
     (if length buf < length data then Inl ''failed to write whole buffer''
      else Inr (data @ drop (length data) buf))"

definition event_num_to_event_id :: "(bytes \<Rightarrow> bytes) \<Rightarrow> u32 \<Rightarrow> bytes vs_result" where
  "event_num_to_event_id sha256 event_num =
     (let num_bytes = u32_to_be_bytes event_num;
          event_id = sha256 num_bytes
      in unwrap (slice_write_all event_id num_bytes))"

definition event_id_to_event_num :: "bytes \<Rightarrow> u32 vs_result" where
  "event_id_to_event_num event_id =
     (if length event_id < 4 then Inl (Panic ''range end index 4 out of range for slice'')
      else Inr (u32_from_be_bytes (take 4 event_id)))"

section \<open>Sending\<close>

definition checked_add :: "bool \<Rightarrow> u32 \<Rightarrow> u32 \<Rightarrow> u32 vs_result" where
  "checked_add overflow_checks a b =
     (if overflow_checks \<and> 2 ^ 32 \<le> unat a + unat b then Inl (Panic ''attempt to add with overflow'')
      else Inr (a + b))"

definition checked_sub :: "bool \<Rightarrow> u32 \<Rightarrow> u32 \<Rightarrow> u32 vs_result" where
  "checked_sub overflow_checks a b =
     (if overflow_checks \<and> a < b then Inl (Panic ''attempt to subtract with overflow'')
      else Inr (a - b))"

text \<open>
  \<open>wait_validators\<close> asks the node to witness event 0 until it agrees. The answers of the node are given;
  the result is the number of failed attempts, \<open>None\<close> while the client still waits.
\<close>

fun wait_validators :: "(string + unit) list \<Rightarrow> nat option" where
  "wait_validators [] = None"
| "wait_validators (Inl e # answers) = map_option Suc (wait_validators answers)"
| "wait_validators (Inr _ # answers) = Some 0"

fun event_ids :: "(bytes \<Rightarrow> bytes) \<Rightarrow> u32 list \<Rightarrow> bytes list vs_result" where
  "event_ids sha256 [] = Inr []"
| "event_ids sha256 (i # is) =
     and_then (event_num_to_event_id sha256 i) (\<lambda>event_id.
       and_then (event_ids sha256 is) (\<lambda>rest. Inr (event_id # rest)))"

text \<open>
  The requests of \<open>send_events\<close>, for the numbers in \<open>from_num + 1..to_num + 1\<close>.
\<close>

definition send_requests :: "bool \<Rightarrow> (bytes \<Rightarrow> bytes) \<Rightarrow> u32 \<Rightarrow> u32 \<Rightarrow> bytes list vs_result" where
  "send_requests overflow_checks sha256 from_num to_num =
     and_then (checked_add overflow_checks from_num 1) (\<lambda>first.
       and_then (checked_add overflow_checks to_num 1) (\<lambda>last1.
         event_ids sha256 (map of_nat [unat first..<unat last1])))"

text \<open>
  The whole of \<open>send_events\<close>: every request must succeed. Up to eight are under way at a time, so the
  order in which the node sees them is not fixed, and the outcome does not depend on it.
\<close>

definition send_events ::
    "bool \<Rightarrow> (bytes \<Rightarrow> bytes) \<Rightarrow> (bytes \<Rightarrow> string + unit) \<Rightarrow> u32 \<Rightarrow> u32 \<Rightarrow> unit vs_result" where
  "send_events overflow_checks sha256 witness_event from_num to_num =
     and_then (send_requests overflow_checks sha256 from_num to_num) (\<lambda>events.
       (case List.find (\<lambda>event. isl (witness_event event)) events of
          Some event \<Rightarrow> Inl (Panic (projl (witness_event event)))
        | None \<Rightarrow> Inr ()))"

section \<open>The loop over the blocks\<close>

record bench =
  max_block_events :: u32
  received_events :: u32
  num_blocks :: "32 word"
  max_received_event_id :: u32
  sent_events :: u32
  events_per_block :: u32

definition bench_start :: bench where
  "bench_start =
     \<lparr>max_block_events = 0, received_events = 0, num_blocks = 0, max_received_event_id = 0,
      sent_events = 0, events_per_block = 1\<rparr>"

text \<open>
  \<open>keeps_up d n e\<close>: \<open>d as f32 / n as f32 <= e as f32\<close>; \<open>increase e\<close>: \<open>(e as f32 * increase_factor) as u32\<close>;
  \<open>decrease e\<close>: \<open>(e as f32 / decrease_factor) as u32\<close>. The count of blocks is an \<open>i32\<close>.
\<close>

record controller =
  keeps_up :: "u32 \<Rightarrow> 32 word \<Rightarrow> u32 \<Rightarrow> bool"
  increase :: "u32 \<Rightarrow> u32"
  decrease :: "u32 \<Rightarrow> u32"

definition checked_inc_i32 :: "bool \<Rightarrow> 32 word \<Rightarrow> (32 word) vs_result" where
  "checked_inc_i32 overflow_checks n =
     (if overflow_checks \<and> n = 0x7FFFFFFF then Inl (Panic ''attempt to add with overflow'') else Inr (n + 1))"

fun event_nums :: "bytes list \<Rightarrow> u32 list vs_result" where
  "event_nums [] = Inr []"
| "event_nums (event # events) =
     and_then (event_id_to_event_num event) (\<lambda>n. and_then (event_nums events) (\<lambda>ns. Inr (n # ns)))"

text \<open>
  How many more events to send after a block: the new rate and the new number of events sent.
\<close>

definition send_more :: "bool \<Rightarrow> controller \<Rightarrow> u32 \<Rightarrow> bench \<Rightarrow> (bench \<times> (u32 \<times> u32)) vs_result" where
  "send_more overflow_checks ctl limit st =
     and_then (checked_sub overflow_checks (sent_events st) (received_events st)) (\<lambda>unprocessed.
       let rate = (if keeps_up ctl unprocessed (num_blocks st) (events_per_block st)
                   then increase ctl (events_per_block st)
                   else if 1 < events_per_block st then decrease ctl (events_per_block st)
                   else events_per_block st)
       in and_then (checked_add overflow_checks (sent_events st) rate) (\<lambda>sum.
            let new_sent_events = (if limit \<le> sum then limit else sum)
            in Inr (st\<lparr>events_per_block := rate, sent_events := new_sent_events\<rparr>,
                    (sent_events st, new_sent_events))))"

text \<open>
  One block: the new state, the calls of \<open>send_events\<close> that are spawned, and whether the loop ends.
\<close>

definition on_block ::
    "bool \<Rightarrow> controller \<Rightarrow> u32 \<Rightarrow> bench \<Rightarrow> bytes list \<Rightarrow> (bench \<times> (u32 \<times> u32) list \<times> bool) vs_result" where
  "on_block overflow_checks ctl limit st events =
     (let current_block_events = of_nat (length events)
      in and_then (event_nums events) (\<lambda>nums.
           let max_id = (if nums = [] then max_received_event_id st
                         else max (max_received_event_id st) (Max (set nums)))
           in and_then (checked_inc_i32 overflow_checks (num_blocks st)) (\<lambda>blocks.
             and_then (checked_add overflow_checks (received_events st) current_block_events) (\<lambda>received.
               let st1 = st\<lparr>max_received_event_id := max_id, num_blocks := blocks, received_events := received,
                            max_block_events := max (max_block_events st) current_block_events\<rparr>
               in and_then (if sent_events st1 < limit
                            then and_then (send_more overflow_checks ctl limit st1) (\<lambda>(st2, range). Inr (st2, [range]))
                            else Inr (st1, [])) (\<lambda>(st2, spawned).
                    Inr (st2, spawned, limit \<le> received_events st2))))))"

text \<open>
  \<open>witness_events\<close> over the responses of the stream: the last state, all spawned calls and whether the
  loop has ended because everything was received.
\<close>

fun witness_events ::
    "bool \<Rightarrow> controller \<Rightarrow> u32 \<Rightarrow> bench \<Rightarrow> (string + bytes list) list
      \<Rightarrow> (bench \<times> (u32 \<times> u32) list \<times> bool) vs_result" where
  "witness_events overflow_checks ctl limit st [] = Inr (st, [], False)"
| "witness_events overflow_checks ctl limit st (response # responses) =
     and_then (unwrap response) (\<lambda>events.
       and_then (on_block overflow_checks ctl limit st events) (\<lambda>(st', spawned, stop).
         if stop then Inr (st', spawned, True)
         else and_then (witness_events overflow_checks ctl limit st' responses) (\<lambda>(st'', more, stopped).
           Inr (st'', spawned @ more, stopped))))"

section \<open>The command line\<close>

definition u32_from_str :: "string \<Rightarrow> int_error_kind + u32" where
  "u32_from_str s =
     (case s of
        [] \<Rightarrow> Inl Empty
      | c # cs \<Rightarrow>
          if (c = CHR ''+'' \<or> c = CHR ''-'') \<and> cs = [] then Inl InvalidDigit
          else map_sum id word_of_int (parse_pos 4294967295 0 (if c = CHR ''+'' then cs else s)))"

datatype bench_args = Usage | Args string f32 f32 u32

text \<open>
  The first part of \<open>main\<close>.
\<close>

definition parse_args :: "string list \<Rightarrow> bench_args vs_result" where
  "parse_args args =
     (if length args < 4 then Inr Usage
      else and_then (unwrap (f32_from_str (args ! 2))) (\<lambda>increase_factor.
        and_then (unwrap (f32_from_str (args ! 3))) (\<lambda>decrease_factor.
          if length args < 5 then Inl (Panic ''bad max events value'')
          else (case u32_from_str (args ! 4) of
                  Inl e \<Rightarrow> Inl (Panic ''called `Result::unwrap()` on an `Err` value: ParseIntError'')
                | Inr limit \<Rightarrow> Inr (Args (args ! 1) increase_factor decrease_factor limit)))))"

section \<open>Round trips\<close>

lemma length_u32_to_be_bytes [simp]: "length (u32_to_be_bytes n) = 4"
  by (simp add: u32_to_be_bytes_def)

lemma u32_be_bytes: "u32_from_be_bytes (u32_to_be_bytes n) = n"
proof (rule bit_word_eqI)
  fix k :: nat
  assume "k < LENGTH(32)"
  then consider "k < 8" | "8 \<le> k \<and> k < 16" | "16 \<le> k \<and> k < 24" | "24 \<le> k \<and> k < 32" by force
  then show "bit (u32_from_be_bytes (u32_to_be_bytes n)) k = bit n k"
    by cases (auto simp: u32_from_be_bytes_def u32_to_be_bytes_def bit_simps)
qed

lemma event_num_to_event_id_Inr:
  assumes "length (sha256 (u32_to_be_bytes n)) = 32"
  obtains i where "event_num_to_event_id sha256 n = Inr i" and "length i = 32"
    and "event_id_to_event_num i = Inr n"
proof -
  let ?b = "u32_to_be_bytes n"
  show ?thesis
    using that [of "?b @ drop 4 (sha256 ?b)"] assms
    by (simp add: event_num_to_event_id_def slice_write_all_def event_id_to_event_num_def u32_be_bytes Let_def)
qed

lemma event_ids_nums:
  assumes "\<And>b. length (sha256 b) = 32"
  obtains ids where "event_ids sha256 ns = Inr ids" and "map event_id_to_event_num ids = map Inr ns"
    and "\<forall>i \<in> set ids. length i = 32"
  using assms
proof (induction ns arbitrary: thesis)
  case (Cons n ns)
  obtain i where i: "event_num_to_event_id sha256 n = Inr i" "length i = 32" "event_id_to_event_num i = Inr n"
    by (rule event_num_to_event_id_Inr [OF Cons.prems(2)])
  obtain ids where ids: "event_ids sha256 ns = Inr ids" "map event_id_to_event_num ids = map Inr ns"
    "\<forall>i \<in> set ids. length i = 32"
    by (rule Cons.IH [OF _ Cons.prems(2)])
  show ?case by (rule Cons.prems(1) [of "i # ids"]) (use i ids in simp_all)
qed simp

lemma event_num_of_event_id:
  "event_num_to_event_id sha256 n = Inr event_id \<Longrightarrow> event_id_to_event_num event_id = Inr n"
  by (auto simp: event_num_to_event_id_def slice_write_all_def event_id_to_event_num_def u32_be_bytes Let_def
      split: if_splits)

section \<open>What is sent\<close>

lemma checked_add_Inr: "checked_add True a b = Inr c \<Longrightarrow> unat c = unat a + unat b"
  by (auto simp: checked_add_def unat_plus_simple word_le_nat_alt unat_word_ariths split: if_splits)

text \<open>
  The requests of several calls of \<open>send_events\<close>, one call after the other.
\<close>

fun all_requests :: "bool \<Rightarrow> (bytes \<Rightarrow> bytes) \<Rightarrow> (u32 \<times> u32) list \<Rightarrow> bytes list vs_result" where
  "all_requests overflow_checks sha256 [] = Inr []"
| "all_requests overflow_checks sha256 ((from_num, to_num) # ranges) =
     and_then (send_requests overflow_checks sha256 from_num to_num) (\<lambda>ids.
       and_then (all_requests overflow_checks sha256 ranges) (\<lambda>rest. Inr (ids @ rest)))"

lemma all_requests_append:
  "all_requests overflow_checks sha256 (xs @ ys) =
     and_then (all_requests overflow_checks sha256 xs) (\<lambda>a.
       and_then (all_requests overflow_checks sha256 ys) (\<lambda>b. Inr (a @ b)))"
  by (induction xs) (auto simp: and_then_def split: sum.splits)

lemma send_more_range:
  assumes "send_more True ctl limit st = Inr (st', rng)" and "sent_events st < limit"
  shows "rng = (sent_events st, sent_events st') \<and> sent_events st \<le> sent_events st' \<and> sent_events st' \<le> limit \<and>
    received_events st' = received_events st"
proof -
  obtain rate sum where sum: "checked_add True (sent_events st) rate = Inr sum"
    and r: "rng = (sent_events st, if limit \<le> sum then limit else sum)"
      "st' = st\<lparr>events_per_block := rate, sent_events := (if limit \<le> sum then limit else sum)\<rparr>"
    using assms(1) by (auto simp: send_more_def and_then_eq_Inr Let_def)
  have "sent_events st \<le> sum" using checked_add_Inr [OF sum] by (simp add: word_le_nat_alt)
  then show ?thesis using r assms(2) by auto
qed

lemma on_block_range:
  assumes "on_block True ctl limit st events = Inr (st', spawned, stop)" and "sent_events st \<le> limit"
  shows "stop = (limit \<le> received_events st')"
    and "sent_events st \<le> sent_events st'" and "sent_events st' \<le> limit"
    and "spawned = [] \<and> sent_events st' = sent_events st \<or> spawned = [(sent_events st, sent_events st')]"
  using assms by (auto simp: on_block_def and_then_eq_Inr Let_def dest!: send_more_range split: if_splits)

lemma send_requests_nums:
  assumes "\<And>b. length (sha256 b) = 32" and "a \<le> b" and "unat b < 4294967295"
  obtains ids where "send_requests True sha256 a b = Inr ids"
    and "map event_id_to_event_num ids = map (\<lambda>n. Inr (of_nat n)) [Suc (unat a)..<Suc (unat b)]"
    and "\<forall>i \<in> set ids. length i = 32"
proof -
  have "unat a \<le> unat b" using assms(2) by (simp add: word_le_nat_alt)
  then have n: "unat (a + 1) = Suc (unat a)" "unat (b + 1) = Suc (unat b)"
    using assms(3) by (simp_all add: unat_word_ariths)
  obtain ids where "event_ids sha256 (map of_nat [Suc (unat a)..<Suc (unat b)]) = Inr ids"
    and "map event_id_to_event_num ids = map Inr (map of_nat [Suc (unat a)..<Suc (unat b)])"
    and "\<forall>i \<in> set ids. length i = 32"
    by (rule event_ids_nums [OF assms(1)])
  then show ?thesis
    using that [of ids] assms(3) \<open>unat a \<le> unat b\<close>
    by (simp add: send_requests_def checked_add_def n o_def del: upt_Suc)
qed

lemma on_block_requests:
  assumes "\<And>b. length (sha256 b) = 32" and "unat limit < 4294967295"
    and "on_block True ctl limit st events = Inr (st', spawned, stop)" and "sent_events st \<le> limit"
  obtains ids where "all_requests True sha256 spawned = Inr ids" and "\<forall>i \<in> set ids. length i = 32"
    and "map event_id_to_event_num ids = map (\<lambda>n. Inr (of_nat n)) [Suc (unat (sent_events st))..<Suc (unat (sent_events st'))]"
proof (cases "spawned = []")
  case True
  then show thesis using that [of "[]"] on_block_range(4) [OF assms(3,4)] by simp
next
  case False
  note range = on_block_range [OF assms(3,4)]
  have "unat (sent_events st') < 4294967295" using range(3) assms(2) by (simp add: word_le_nat_alt)
  then obtain ids where "send_requests True sha256 (sent_events st) (sent_events st') = Inr ids"
    "\<forall>i \<in> set ids. length i = 32"
    "map event_id_to_event_num ids = map (\<lambda>n. Inr (of_nat n)) [Suc (unat (sent_events st))..<Suc (unat (sent_events st'))]"
    by (rule send_requests_nums [OF assms(1) range(2)])
  then show thesis using that [of ids] range(4) False by simp
qed

lemma witness_events_requests:
  assumes "\<And>b. length (sha256 b) = 32" and "unat limit < 4294967295"
    and "witness_events True ctl limit st responses = Inr (st', spawned, stop)" and "sent_events st \<le> limit"
  shows "sent_events st \<le> sent_events st' \<and> sent_events st' \<le> limit \<and> (stop \<longrightarrow> limit \<le> received_events st') \<and>
    (\<exists>ids. all_requests True sha256 spawned = Inr ids \<and> (\<forall>i \<in> set ids. length i = 32) \<and>
      map event_id_to_event_num ids =
        map (\<lambda>n. Inr (of_nat n)) [Suc (unat (sent_events st))..<Suc (unat (sent_events st'))])"
  using assms(3,4)
proof (induction responses arbitrary: st spawned)
  case (Cons response responses)
  obtain events st1 sp1 stop1 where b: "on_block True ctl limit st events = Inr (st1, sp1, stop1)"
    and rest: "if stop1 then st' = st1 \<and> spawned = sp1 \<and> stop
      else \<exists>more. witness_events True ctl limit st1 responses = Inr (st', more, stop) \<and> spawned = sp1 @ more"
    using Cons.prems(1) by (auto simp: and_then_eq_Inr split: if_splits)
  note range = on_block_range [OF b Cons.prems(2)]
  obtain ids1 where ids1: "all_requests True sha256 sp1 = Inr ids1" "\<forall>i \<in> set ids1. length i = 32"
    "map event_id_to_event_num ids1 = map (\<lambda>n. Inr (of_nat n)) [Suc (unat (sent_events st))..<Suc (unat (sent_events st1))]"
    by (rule on_block_requests [OF assms(1,2) b Cons.prems(2)])
  show ?case
  proof (cases stop1)
    case True
    then show ?thesis using rest range(1-3) ids1 by auto
  next
    case False
    then obtain more where more: "witness_events True ctl limit st1 responses = Inr (st', more, stop)" "spawned = sp1 @ more"
      using rest by auto
    from Cons.IH [OF more(1) range(3)] obtain ids2 where le: "sent_events st1 \<le> sent_events st'" "sent_events st' \<le> limit"
      "stop \<longrightarrow> limit \<le> received_events st'"
      and ids2: "all_requests True sha256 more = Inr ids2" "\<forall>i \<in> set ids2. length i = 32"
        "map event_id_to_event_num ids2 = map (\<lambda>n. Inr (of_nat n)) [Suc (unat (sent_events st1))..<Suc (unat (sent_events st'))]"
      by blast
    have "[Suc (unat (sent_events st))..<Suc (unat (sent_events st'))] =
        [Suc (unat (sent_events st))..<Suc (unat (sent_events st1))] @ [Suc (unat (sent_events st1))..<Suc (unat (sent_events st'))]"
      using range(2) le(1) by (intro upt_append [symmetric]) (simp_all add: word_le_nat_alt)
    then have "map event_id_to_event_num (ids1 @ ids2) =
        map (\<lambda>n. Inr (of_nat n)) [Suc (unat (sent_events st))..<Suc (unat (sent_events st'))]"
      using ids1(3) ids2(3) by (simp del: upt_Suc)
    then show ?thesis
      using range(2) le ids1(1,2) ids2(1,2) more(2)
      by (intro conjI exI [of _ "ids1 @ ids2"]) (auto simp: all_requests_append simp del: upt_Suc map_append)
  qed
qed auto

section \<open>Properties\<close>

text \<open>
  C31. The benchmark sends every event once. Whatever the responses and whatever the controller does with
  the rate, in a run with overflow checks the requests of all spawned calls of \<open>send_events\<close> are, in
  their order, the identifiers of the events 1, 2, 3 and so on up to the number counted as sent, which
  never exceeds the limit; and the loop ends by itself only when the limit has been received.
\<close>

theorem benchmark_sends_each_once:
  assumes "\<And>b. length (sha256 b) = 32" and "unat limit < 4294967295"
    and "witness_events True ctl limit bench_start responses = Inr (st, spawned, stop)"
  shows "sent_events st \<le> limit \<and> (stop \<longrightarrow> limit \<le> received_events st) \<and>
    (\<exists>ids. all_requests True sha256 spawned = Inr ids \<and>
      map event_id_to_event_num ids = map (\<lambda>n. Inr (of_nat n)) [1..<Suc (unat (sent_events st))])"
  using witness_events_requests [of sha256, OF assms] by (auto simp: bench_start_def simp del: upt_Suc)

definition doubling :: controller where
  "doubling = \<lparr>keeps_up = (\<lambda>_ _ _. True), increase = (\<lambda>e. 2 * e), decrease = (\<lambda>e. e)\<rparr>"

lemma doubling_run:
  "witness_events True doubling 3 bench_start [Inr [], Inr []] =
     Inr (\<lparr>max_block_events = 0, received_events = 0, num_blocks = 2, max_received_event_id = 0,
           sent_events = 3, events_per_block = 4\<rparr>, [(0, 2), (2, 3)], False)"
  by (simp add: on_block_def send_more_def doubling_def bench_start_def checked_add_def checked_sub_def
      checked_inc_i32_def Let_def)

theorem benchmark_sends_each_once_witness:
  "\<exists>ids. all_requests True (\<lambda>_. replicate 32 0) [(0, 2), (2, 3)] = Inr ids \<and>
    map event_id_to_event_num ids = [Inr 1, Inr 2, Inr 3]"
proof -
  have "length (replicate 32 (0 :: u8)) = 32" and "unat (3 :: u32) < 4294967295" by simp_all
  from benchmark_sends_each_once [OF this doubling_run] show ?thesis by (simp add: upt_rec)
qed

text \<open>
  The event the client uses to find out whether the node is ready spoils the benchmark: where the
  first block it sees has just that event, number 0, one event has been received and none sent, and the
  difference of the two underflows, a panic where overflow checks are on.
\<close>

theorem benchmark_probe_underflows:
  assumes "event_num_to_event_id sha256 0 = Inr event_id" and "0 < limit"
  shows "witness_events True ctl limit bench_start (Inr [event_id] # responses) =
    Inl (Panic ''attempt to subtract with overflow'')"
  using assms(2) event_num_of_event_id [OF assms(1)]
  by (simp add: on_block_def send_more_def bench_start_def checked_add_def checked_sub_def checked_inc_i32_def Let_def)

theorem benchmark_probe_underflows_witness:
  "witness_events True doubling 1000 bench_start [Inr [replicate 32 0]] =
    Inl (Panic ''attempt to subtract with overflow'')"
proof -
  have "event_num_to_event_id (\<lambda>_. replicate 32 0) 0 = Inr (replicate 32 0)"
    by (simp add: event_num_to_event_id_def slice_write_all_def u32_to_be_bytes_def numeral_eq_Suc)
  then show ?thesis by (rule benchmark_probe_underflows) simp
qed

end
