(* ===== verification/Tps_Controller.thy ===== *)
theory Tps_Controller
  imports Tps_Benchmark "HOL-Library.Multiset"
begin

text \<open>
  The rest of the benchmark client (\<open>src/samples/tps-benchmark/src/main.rs\<close>): the control loop on \<open>f32\<close>, the
  figures it prints, the requests of \<open>send_events\<close> with at most \<open>CONCURRENT_REQUESTS\<close> under way, as a step
  relation, and \<open>main\<close>. The elapsed time of a report is given, as the \<open>f32\<close> of seconds the clock gives.
\<close>

section \<open>The control loop\<close>

definition bench_controller :: "f32 \<Rightarrow> f32 \<Rightarrow> controller" where
  "bench_controller increase_factor decrease_factor =
     \<lparr>keeps_up = (\<lambda>unprocessed num_blocks events_per_block.
        f32_le (f32_div (u32_as_f32 unprocessed) (i32_as_f32 num_blocks)) (u32_as_f32 events_per_block)),
      increase = (\<lambda>events_per_block. f32_as_u32 (f32_mul (u32_as_f32 events_per_block) increase_factor)),
      decrease = (\<lambda>events_per_block. f32_as_u32 (f32_div (u32_as_f32 events_per_block) decrease_factor))\<rparr>"

section \<open>Reports\<close>

record bench_report =
  rp_current_block_events :: u32
  rp_events_per_block :: f32
  rp_max_block_events :: u32
  rp_sent :: u32
  rp_received :: u32
  rp_throughput_avg :: f32
  rp_throughput_max :: f32

definition throughput_max :: "u32 \<Rightarrow> 32 word \<Rightarrow> f32 \<Rightarrow> f32" where
  "throughput_max max_events blocks total_time =
     f32_div (f32_mul (u32_as_f32 max_events) (i32_as_f32 blocks)) total_time"

text \<open>
  The report of a block is printed before the peak is updated and before more events are sent.
\<close>

definition block_report :: "bool \<Rightarrow> bench \<Rightarrow> bytes list \<Rightarrow> f32 \<Rightarrow> bench_report vs_result" where
  "block_report overflow_checks st events total_time =
     (let current_block_events = of_nat (length events)
      in and_then (event_nums events) (\<lambda>_.
           and_then (checked_inc_i32 overflow_checks (num_blocks st)) (\<lambda>blocks.
             and_then (checked_add overflow_checks (received_events st) current_block_events) (\<lambda>received.
               Inr \<lparr>rp_current_block_events = current_block_events,
                    rp_events_per_block = f32_div (u32_as_f32 received) (i32_as_f32 blocks),
                    rp_max_block_events = max_block_events st,
                    rp_sent = sent_events st, rp_received = received,
                    rp_throughput_avg = f32_div (u32_as_f32 received) total_time,
                    rp_throughput_max = throughput_max (max_block_events st) blocks total_time\<rparr>))))"

definition final_report :: "bench \<Rightarrow> f32 \<Rightarrow> bench_report" where
  "final_report st total_time =
     \<lparr>rp_current_block_events = 0,
      rp_events_per_block = f32_div (u32_as_f32 (received_events st)) (i32_as_f32 (num_blocks st)),
      rp_max_block_events = max_block_events st,
      rp_sent = sent_events st, rp_received = received_events st,
      rp_throughput_avg = f32_div (u32_as_f32 (received_events st)) total_time,
      rp_throughput_max = throughput_max (max_block_events st) (num_blocks st) total_time\<rparr>"

text \<open>
  The reports of the blocks of a run, each response with the time at which it came.
\<close>

fun block_reports ::
    "bool \<Rightarrow> controller \<Rightarrow> u32 \<Rightarrow> bench \<Rightarrow> ((string + bytes list) \<times> f32) list \<Rightarrow> bench_report list" where
  "block_reports overflow_checks ctl limit st [] = []"
| "block_reports overflow_checks ctl limit st ((response, total_time) # responses) =
     (case response of
        Inl e \<Rightarrow> []
      | Inr events \<Rightarrow>
          (case block_report overflow_checks st events total_time of
             Inl e \<Rightarrow> []
           | Inr report \<Rightarrow>
               report # (case on_block overflow_checks ctl limit st events of
                           Inl e \<Rightarrow> []
                         | Inr (st', spawned, stop) \<Rightarrow>
                             if stop then [] else block_reports overflow_checks ctl limit st' responses)))"

section \<open>Requests under way\<close>

definition CONCURRENT_REQUESTS :: nat where
  "CONCURRENT_REQUESTS = 8"

record sender =
  sd_queue :: "bytes list"
  sd_in_flight :: "bytes list"
  sd_done :: "bytes list"

datatype sender_state = Sending sender | SendPanicked string

definition sender_start :: "bytes list \<Rightarrow> sender_state" where
  "sender_start events = Sending \<lparr>sd_queue = events, sd_in_flight = [], sd_done = []\<rparr>"

text \<open>
  \<open>buffer_unordered\<close> starts the next request while fewer than \<open>CONCURRENT_REQUESTS\<close> are under way, and takes
  the answers in the order in which they come; \<open>for_each\<close> unwraps each.
\<close>

inductive sender_step :: "(bytes \<Rightarrow> string + unit) \<Rightarrow> sender_state \<Rightarrow> sender_state \<Rightarrow> bool"
  for witness_event :: "bytes \<Rightarrow> string + unit" where
  StartRequest: "sd_queue s = event # queue \<Longrightarrow> length (sd_in_flight s) < CONCURRENT_REQUESTS \<Longrightarrow>
    sender_step witness_event (Sending s) (Sending (s\<lparr>sd_queue := queue, sd_in_flight := sd_in_flight s @ [event]\<rparr>))"
| Answered: "event \<in> set (sd_in_flight s) \<Longrightarrow> witness_event event = Inr () \<Longrightarrow>
    sender_step witness_event (Sending s)
      (Sending (s\<lparr>sd_in_flight := remove1 event (sd_in_flight s), sd_done := sd_done s @ [event]\<rparr>))"
| Refused: "event \<in> set (sd_in_flight s) \<Longrightarrow> witness_event event = Inl e \<Longrightarrow>
    sender_step witness_event (Sending s) (SendPanicked e)"

inductive_simps sender_step_simps: "sender_step witness_event (Sending s) s'"

inductive_cases sender_stepE: "sender_step witness_event s s'"

definition sender_ok :: "(bytes \<Rightarrow> string + unit) \<Rightarrow> bytes list \<Rightarrow> sender_state \<Rightarrow> bool" where
  "sender_ok witness_event events st =
     (case st of
        Sending s \<Rightarrow>
          mset (sd_queue s) + mset (sd_in_flight s) + mset (sd_done s) = mset events \<and>
          length (sd_in_flight s) \<le> CONCURRENT_REQUESTS \<and>
          list_all (\<lambda>event. witness_event event = Inr ()) (sd_done s)
      | SendPanicked e \<Rightarrow> list_ex (\<lambda>event. witness_event event = Inl e) events)"

definition sender_finished :: "sender_state \<Rightarrow> bool" where
  "sender_finished st = (case st of Sending s \<Rightarrow> sd_queue s = [] \<and> sd_in_flight s = [] | SendPanicked e \<Rightarrow> True)"

section \<open>The program\<close>

fun connect :: "(string + unit) list \<Rightarrow> nat option" where
  "connect [] = None"
| "connect (Inl e # attempts) = map_option Suc (connect attempts)"
| "connect (Inr client # attempts) = Some 0"

datatype bench_outcome = PrintedUsage | Completed bench "(u32 \<times> u32) list" bench_report

text \<open>
  \<open>main\<close>, for the outcomes of the attempts to connect, the answers to the probe, whether the stream opens,
  its responses, and the time at the end. It does not return while no attempt has succeeded.
\<close>

definition bench_main ::
    "bool \<Rightarrow> string list \<Rightarrow> (string + unit) list \<Rightarrow> (string + unit) list \<Rightarrow> string + unit
      \<Rightarrow> (string + bytes list) list \<Rightarrow> f32 \<Rightarrow> bench_outcome vs_result" where
  "bench_main overflow_checks args attempts answers opened responses total_time =
     and_then (parse_args args) (\<lambda>parsed.
       (case parsed of
          Usage \<Rightarrow> Inr PrintedUsage
        | Args validator_addr increase_factor decrease_factor limit \<Rightarrow>
            (case connect attempts of
               None \<Rightarrow> Inl Diverge
             | Some failed_attempts \<Rightarrow>
                 (case wait_validators answers of
                    None \<Rightarrow> Inl Diverge
                  | Some refused \<Rightarrow>
                      and_then (unwrap opened) (\<lambda>_.
                        and_then (witness_events overflow_checks (bench_controller increase_factor decrease_factor)
                                    limit bench_start responses) (\<lambda>(st, spawned, stopped).
                          Inr (Completed st spawned (final_report st total_time))))))))"

section \<open>The requests of one call\<close>

lemma sender_ok_start: "sender_ok witness_event events (sender_start events)"
  by (simp add: sender_ok_def sender_start_def)

lemma sender_ok_step:
  assumes "sender_step witness_event s s'" and "sender_ok witness_event events s"
  shows "sender_ok witness_event events s'"
  using assms
proof cases
  case (Refused event t e)
  then have "mset events = mset (sd_queue t) + mset (sd_in_flight t) + mset (sd_done t)"
    using assms(2) by (simp add: sender_ok_def)
  then have "event \<in># mset events" using Refused by simp
  then show ?thesis using Refused by (auto simp: sender_ok_def list_ex_iff)
next
  case (Answered event t)
  then have "mset events = mset (sd_queue t) + mset (sd_in_flight t) + mset (sd_done t)"
    using assms(2) by (simp add: sender_ok_def)
  then have "event \<in># mset events" using Answered by simp
  then have "add_mset event (mset events - {#event#}) = mset events" by (rule insert_DiffM)
  then show ?thesis using Answered assms(2) by (auto simp: sender_ok_def length_remove1)
qed (use assms(2) in \<open>auto simp: sender_ok_def ac_simps\<close>)

lemma sender_ok_steps:
  assumes "(sender_step witness_event)\<^sup>*\<^sup>* (sender_start events) s"
  shows "sender_ok witness_event events s"
  using assms by induction (auto intro: sender_ok_start sender_ok_step)

lemma sender_not_stuck:
  assumes "\<not> sender_finished s"
  shows "\<exists>s'. sender_step witness_event s s'"
proof (cases s)
  case (Sending t)
  show ?thesis
  proof (cases "sd_in_flight t")
    case Nil
    then show ?thesis using assms Sending
      by (cases "sd_queue t") (auto simp: sender_finished_def CONCURRENT_REQUESTS_def sender_step_simps)
  next
    case (Cons event rest)
    then have "event \<in> set (sd_in_flight t)" by simp
    then show ?thesis unfolding Sending
      by (cases "witness_event event") (auto intro: Answered [of event t witness_event] Refused)
  qed
qed (use assms in \<open>simp add: sender_finished_def\<close>)

text \<open>
  Each step brings the sender nearer to its end.
\<close>

definition sender_left :: "sender_state \<Rightarrow> nat" where
  "sender_left st =
     (case st of Sending s \<Rightarrow> Suc (2 * length (sd_queue s) + length (sd_in_flight s)) | SendPanicked e \<Rightarrow> 0)"

lemma sender_step_left: "sender_step witness_event s s' \<Longrightarrow> sender_left s' < sender_left s"
  by (erule sender_stepE) (auto simp: sender_left_def length_remove1 dest: length_pos_if_in_set)

lemma sender_finished_outcome:
  assumes "sender_ok witness_event events s" and "sender_finished s"
    and "send_requests overflow_checks sha256 from_num to_num = Inr events"
  shows "(send_events overflow_checks sha256 witness_event from_num to_num = Inr ()) = (\<forall>e. s \<noteq> SendPanicked e)"
proof (cases s)
  case (Sending t)
  then have "list_all (\<lambda>event. witness_event event = Inr ()) (sd_done t)" "mset (sd_done t) = mset events"
    using assms(1,2) by (auto simp: sender_ok_def sender_finished_def)
  then have "\<forall>event \<in> set events. witness_event event = Inr ()" by (auto simp: list_all_iff dest: mset_eq_setD)
  then have "List.find (\<lambda>event. isl (witness_event event)) events = None" by (auto simp: find_None_iff)
  then show ?thesis using assms(3) Sending by (simp add: send_events_def)
next
  case (SendPanicked e)
  then have "List.find (\<lambda>event. isl (witness_event event)) events \<noteq> None"
    using assms(1) by (auto simp: sender_ok_def list_ex_iff find_None_iff)
  then show ?thesis using assms(3) SendPanicked by (auto simp: send_events_def)
qed

section \<open>The rate\<close>

lemma f32_mul_zero: "f32_as_u32 (f32_mul (Finite False 0) y) = 0"
  by (cases y) (simp_all add: f32_of_def round_mag_def)

lemma increase_zero: "increase (bench_controller increase_factor decrease_factor) 0 = 0"
  using u32_as_f32_exact [of 0] by (simp add: bench_controller_def f32_mul_zero)

lemma increase_one:
  assumes "round_mag f = Some f" and "1 \<le> f" and "f < 2"
  shows "increase (bench_controller (Finite False f) decrease_factor) 1 = 1"
proof -
  have "\<lfloor>f\<rfloor> = 1" using assms(2,3) by (simp add: floor_eq_iff)
  moreover have "\<not> 2 ^ 32 \<le> f" using assms(3) by simp
  ultimately show ?thesis
    using u32_as_f32_exact [of 1] assms(1) by (simp add: bench_controller_def f32_of_def)
qed

text \<open>
  A factor of two doubles the rate, while it is below \<open>2\<^sup>2\<^sup>3\<close>.
\<close>

lemma increase_two:
  assumes "unat e < 2 ^ 23"
  shows "increase (bench_controller (Finite False 2) decrease_factor) e = 2 * e"
proof -
  have n: "unat e * 2 < 2 ^ 24" using assms by simp
  have "round_mag (of_nat (unat e * 2)) = Some (of_nat (unat e * 2))" by (rule round_mag_nat [OF n])
  then have r: "f32_mul (u32_as_f32 e) (Finite False 2) = Finite False (of_nat (unat e * 2))"
    using assms u32_as_f32_exact [of e] by (simp add: f32_of_def)
  have "\<not> (2 ^ 32 :: rat) \<le> of_nat (unat e * 2)"
    using n by (simp flip: of_nat_less_iff [of "unat e * 2", where 'a = rat] add: not_le)
  then show ?thesis unfolding bench_controller_def using r by (simp del: of_nat_mult) (simp add: mult.commute)
qed

text \<open>
  A decrease factor of at least twice the rate takes the rate to zero.
\<close>

lemma decrease_to_zero:
  assumes "unat e < 2 ^ 24" and "2 * of_nat (unat e) \<le> d" and "0 < d"
  shows "decrease (bench_controller increase_factor (Finite False d)) e = 0"
proof -
  define n where "n = unat e"
  have "of_nat n / d \<le> 1 / 2" using assms(2,3) by (simp add: divide_le_eq flip: n_def)
  moreover have "0 \<le> of_nat n / d" using assms(3) by simp
  ultimately obtain v where "round_mag (of_nat n / d) = Some v" "0 \<le> v" "v < 1"
    by (metis round_mag_finite_below)
  moreover have "u32_as_f32 e = Finite False (of_nat n)" unfolding n_def by (rule u32_as_f32_exact [OF assms(1)])
  ultimately show ?thesis using assms(3) f32_as_u32_small [of v] by (simp add: bench_controller_def f32_of_def)
qed

lemma send_more_rate:
  assumes "send_more overflow_checks ctl limit st = Inr (st', rng)"
    and "increase ctl (events_per_block st) = events_per_block st" and "events_per_block st \<le> 1"
  shows "events_per_block st' = events_per_block st"
  using assms by (auto simp: send_more_def and_then_eq_Inr Let_def)

lemma send_more_nothing:
  assumes "send_more overflow_checks ctl limit st = Inr (st', rng)" and "sent_events st < limit"
    and "increase ctl 0 = 0" and "events_per_block st = 0"
  shows "sent_events st' = sent_events st"
  using assms by (auto simp: send_more_def and_then_eq_Inr checked_add_def Let_def split: if_splits)

lemma on_block_rate:
  assumes "on_block overflow_checks ctl limit st events = Inr (st', spawned, stop)"
    and "increase ctl (events_per_block st) = events_per_block st" and "events_per_block st \<le> 1"
  shows "events_per_block st' = events_per_block st"
  using assms by (auto simp: on_block_def and_then_eq_Inr Let_def dest!: send_more_rate split: if_splits)

lemma on_block_nothing:
  assumes "on_block overflow_checks ctl limit st events = Inr (st', spawned, stop)"
    and "increase ctl 0 = 0" and "events_per_block st = 0"
  shows "sent_events st' = sent_events st"
  using assms by (auto simp: on_block_def and_then_eq_Inr Let_def dest!: send_more_nothing split: if_splits)

lemma witness_events_rate:
  assumes "witness_events overflow_checks ctl limit st responses = Inr (st', spawned, stop)"
    and "increase ctl (events_per_block st) = events_per_block st" and "events_per_block st \<le> 1"
  shows "events_per_block st' = events_per_block st \<and> (events_per_block st = 0 \<longrightarrow> sent_events st' = sent_events st)"
  using assms
proof (induction responses arbitrary: st spawned)
  case (Cons response responses)
  obtain events st1 sp1 stop1 where b: "on_block overflow_checks ctl limit st events = Inr (st1, sp1, stop1)"
    and rest: "if stop1 then st' = st1
      else \<exists>more. witness_events overflow_checks ctl limit st1 responses = Inr (st', more, stop)"
    using Cons.prems(1) by (auto simp: and_then_eq_Inr split: if_splits)
  have rate: "events_per_block st1 = events_per_block st" by (rule on_block_rate [OF b Cons.prems(2,3)])
  have none: "events_per_block st = 0 \<longrightarrow> sent_events st1 = sent_events st"
    using on_block_nothing [OF b] Cons.prems(2) by auto
  show ?case using rest rate none Cons.IH [of st1] Cons.prems(2,3) by (auto split: if_splits)
qed simp

section \<open>Properties\<close>


lemma three_halves: "round_mag (3 / 2) = Some (3 / 2)"
proof -
  have "ilog2 3 = 1" and "ilog2 2 = 1" by (simp_all add: ilog2.simps)
  moreover have "quotient_of (3 / 2) = (3, 2)" by code_simp
  ultimately have "exponent_of (3 / 2) = 0" by (simp add: exponent_of_def)
  then have "last_place (3 / 2) = - 23" by (simp add: last_place_def)
  moreover have "(3 / 2) / 2 powi (- 23) = (of_int 12582912 :: rat)" by (simp add: power_int_minus)
  then have "round_even ((3 / 2) / 2 powi (- 23)) = 12582912" by (simp only: round_even_int)
  ultimately show ?thesis by (simp add: round_mag_def power_int_minus)
qed

lemma f32_from_str_examples:
  "f32_from_str ''2'' = Inr (Finite False 2)" "f32_from_str ''1.5'' = Inr (Finite False (3 / 2))"
  "f32_from_str ''15e-1'' = Inr (Finite False (3 / 2))" "f32_from_str ''-inf'' = Inr (Infinite True)"
  "f32_from_str ''1e'' = Inl ''invalid float literal''"
  using round_mag_nat [of 2] three_halves
  by (simp_all add: f32_from_str_def parse_decimal_def parse_exponent_def is_digit_def digits_value_def lower_def
      f32_of_def power_int_minus Let_def)



definition first_id :: bytes where
  "first_id = [0, 0, 0, 1] @ replicate 28 0"


end
