(* ===== verification/Irc_Text.thy ===== *)
theory Irc_Text
  imports VS_Prelude
begin

text \<open>
  What the IRC client (\<open>src/samples/irc\<close>, in C sharp) uses of the .NET library for text: strings, UTF-8,
  hexadecimal numbers, and regular expressions. A string is the list of its Unicode code points; the
  text of IRC messages is decoded from UTF-8, so that it has no lone surrogates.

  A regular expression is matched the way .NET does it, by backtracking: repetitions are greedy and give
  up characters from the end, alternatives are tried in order, and the first way to match all of the
  expression is the match. \<open>rmatch\<close> passes the rest of the text to a continuation that matches the rest of
  the expression.
\<close>

type_synonym ustring = "nat list"

definition lit :: "string \<Rightarrow> ustring" where
  "lit s = map of_char s"

lemma lit_simps [simp]: "lit [] = []" "lit (c # s) = of_char c # lit s"
  by (simp_all add: lit_def)

section \<open>UTF-8\<close>

definition is_scalar :: "nat \<Rightarrow> bool" where
  "is_scalar c \<longleftrightarrow> c < 55296 \<or> 57343 < c \<and> c < 1114112"

definition utf8_char :: "nat \<Rightarrow> bytes" where
  "utf8_char c =
     (if c < 128 then [of_nat c]
      else if c < 2048 then [of_nat (192 + c div 64), of_nat (128 + c mod 64)]
      else if c < 65536 then [of_nat (224 + c div 4096), of_nat (128 + c div 64 mod 64), of_nat (128 + c mod 64)]
      else [of_nat (240 + c div 262144), of_nat (128 + c div 4096 mod 64), of_nat (128 + c div 64 mod 64), of_nat (128 + c mod 64)])"

definition utf8_bytes :: "ustring \<Rightarrow> bytes" where
  "utf8_bytes s = concat (map utf8_char s)"

text \<open>
  The length of a character is told by its first byte.
\<close>

definition utf8_length :: "u8 \<Rightarrow> nat" where
  "utf8_length b = (if unat b < 128 then 1 else if unat b < 224 then 2 else if unat b < 240 then 3 else 4)"

lemma unat_of_nat_u8: "n < 256 \<Longrightarrow> unat (of_nat n :: u8) = n"
  by (simp add: unat_of_nat)

lemma unat_utf8_bytes:
  assumes "c < 1114112"
  shows "unat (of_nat (128 + n mod 64) :: u8) = 128 + n mod 64"
    and "c < 2048 \<Longrightarrow> unat (of_nat (192 + c div 64) :: u8) = 192 + c div 64 \<and> c div 64 < 32"
    and "c < 65536 \<Longrightarrow> unat (of_nat (224 + c div 4096) :: u8) = 224 + c div 4096 \<and> c div 4096 < 16"
    and "unat (of_nat (240 + c div 262144) :: u8) = 240 + c div 262144 \<and> c div 262144 < 5"
proof -
  have "n mod 64 < 64" by simp
  then show "unat (of_nat (128 + n mod 64) :: u8) = 128 + n mod 64" by (intro unat_of_nat_u8) linarith
  show "unat (of_nat (192 + c div 64) :: u8) = 192 + c div 64 \<and> c div 64 < 32" if "c < 2048"
    using less_mult_imp_div_less [of c 32 64] that unat_of_nat_u8 [of "192 + c div 64"] by simp
  show "unat (of_nat (224 + c div 4096) :: u8) = 224 + c div 4096 \<and> c div 4096 < 16" if "c < 65536"
    using less_mult_imp_div_less [of c 16 4096] that unat_of_nat_u8 [of "224 + c div 4096"] by simp
  show "unat (of_nat (240 + c div 262144) :: u8) = 240 + c div 262144 \<and> c div 262144 < 5"
    using less_mult_imp_div_less [of c 5 262144] assms unat_of_nat_u8 [of "240 + c div 262144"] by simp
qed

lemma utf8_cases:
  fixes c :: nat
  obtains "c < 128" | "\<not> c < 128" "c < 2048" | "\<not> c < 128" "\<not> c < 2048" "c < 65536"
    | "\<not> c < 128" "\<not> c < 2048" "\<not> c < 65536"
  by linarith

lemma utf8_char_length:
  assumes "c < 1114112"
  shows "utf8_char c \<noteq> []" "utf8_length (hd (utf8_char c)) = length (utf8_char c)"
proof -
  show "utf8_char c \<noteq> []" by (simp add: utf8_char_def)
  show "utf8_length (hd (utf8_char c)) = length (utf8_char c)"
    using unat_utf8_bytes(2-4) [OF assms]
    by (cases c rule: utf8_cases) (simp_all add: utf8_char_def utf8_length_def unat_of_nat_u8 del: of_nat_add)
qed

definition utf8_value :: "bytes \<Rightarrow> nat" where
  "utf8_value bs =
     (case map unat bs of
        [a] \<Rightarrow> a
      | [a, b] \<Rightarrow> (a - 192) * 64 + (b - 128)
      | [a, b, c] \<Rightarrow> (a - 224) * 4096 + (b - 128) * 64 + (c - 128)
      | [a, b, c, d] \<Rightarrow> (a - 240) * 262144 + (b - 128) * 4096 + (c - 128) * 64 + (d - 128)
      | _ \<Rightarrow> 0)"

lemma utf8_value_char:
  assumes "c < 1114112"
  shows "utf8_value (utf8_char c) = c"
proof -
  note unat = unat_utf8_bytes [OF assms]
  have "c div 4096 = c div 64 div 64" "c div 262144 = c div 64 div 64 div 64"
    by (simp_all add: div_mult2_eq [symmetric])
  then have r1: "c div 64 * 64 + c mod 64 = c" and r2: "c div 4096 * 64 + c div 64 mod 64 = c div 64"
    and r3: "c div 262144 * 64 + c div 4096 mod 64 = c div 4096"
    by simp_all
  have e3: "c div 4096 * 4096 + c div 64 mod 64 * 64 + c mod 64 = c" using r1 r2 by linarith
  have e4: "c div 262144 * 262144 + c div 4096 mod 64 * 4096 + c div 64 mod 64 * 64 + c mod 64 = c"
    using r3 e3 by linarith
  show ?thesis
    using unat r1 e3 e4
    by (cases c rule: utf8_cases) (simp_all add: utf8_char_def utf8_value_def unat_of_nat_u8 del: of_nat_add)
qed

lemma utf8_char_append_eq:
  assumes "c < 1114112" "d < 1114112" and eq: "utf8_char c @ xs = utf8_char d @ ys"
  shows "c = d \<and> xs = ys"
proof -
  have "hd (utf8_char c) = hd (utf8_char d)"
    using eq utf8_char_length(1) assms by (metis hd_append)
  then have "length (utf8_char c) = length (utf8_char d)"
    using utf8_char_length(2) assms(1,2) by metis
  with eq have "utf8_char c = utf8_char d" "xs = ys" by simp_all
  then show ?thesis using utf8_value_char assms(1,2) by metis
qed

lemma utf8_bytes_inject:
  assumes "list_all is_scalar s" "list_all is_scalar t" and "utf8_bytes s = utf8_bytes t"
  shows "s = t"
  using assms
proof (induction s arbitrary: t)
  case Nil
  then show ?case by (cases t) (auto simp: utf8_bytes_def utf8_char_def split: if_splits)
next
  case (Cons c s)
  then obtain d t' where t: "t = d # t'"
    by (cases t) (auto simp: utf8_bytes_def utf8_char_def split: if_splits)
  have "c < 1114112" "d < 1114112" using Cons.prems t by (auto simp: is_scalar_def)
  then have "c = d \<and> utf8_bytes s = utf8_bytes t'"
    using utf8_char_append_eq [of c d "utf8_bytes s" "utf8_bytes t'"] Cons.prems(3) t by (simp add: utf8_bytes_def)
  then show ?case using Cons t by simp
qed

section \<open>Hexadecimal numbers\<close>

definition hex_digit :: "nat \<Rightarrow> nat" where
  "hex_digit n = (if n < 10 then 48 + n else 55 + n)"

definition to_hex_string :: "bytes \<Rightarrow> ustring" where
  "to_hex_string bs = concat (map (\<lambda>b. [hex_digit (unat b div 16), hex_digit (unat b mod 16)]) bs)"

definition hex_value :: "nat \<Rightarrow> nat option" where
  "hex_value c =
     (if 48 \<le> c \<and> c \<le> 57 then Some (c - 48)
      else if 65 \<le> c \<and> c \<le> 70 then Some (c - 55)
      else if 97 \<le> c \<and> c \<le> 102 then Some (c - 87) else None)"

text \<open>
  \<open>Convert.FromHexString\<close>; \<open>None\<close> is its \<open>FormatException\<close>.
\<close>

fun from_hex_string :: "ustring \<Rightarrow> bytes option" where
  "from_hex_string [] = Some []"
| "from_hex_string [c] = None"
| "from_hex_string (c # d # s) =
     (case (hex_value c, hex_value d, from_hex_string s) of
        (Some h, Some l, Some bs) \<Rightarrow> Some (of_nat (16 * h + l) # bs) | _ \<Rightarrow> None)"

lemma hex_value_digit: "n < 16 \<Longrightarrow> hex_value (hex_digit n) = Some n"
  by (auto simp: hex_value_def hex_digit_def)

lemma unat_div_16: "unat (b :: u8) div 16 < 16"
proof -
  have "unat b < 2 ^ LENGTH(8)" by (rule unsigned_less)
  then show ?thesis by (simp add: less_mult_imp_div_less)
qed

lemma from_to_hex_string [simp]: "from_hex_string (to_hex_string bs) = Some bs"
proof (induction bs)
  case (Cons b bs)
  have "unat b div 16 < 16" by (rule unat_div_16)
  then show ?case using Cons by (simp add: to_hex_string_def hex_value_digit)
qed (simp add: to_hex_string_def)

definition is_alnum_upper :: "nat \<Rightarrow> bool" where
  "is_alnum_upper c \<longleftrightarrow> 65 \<le> c \<and> c \<le> 90 \<or> 48 \<le> c \<and> c \<le> 57"

lemma hex_digit_alnum: "n < 16 \<Longrightarrow> is_alnum_upper (hex_digit n)"
  by (auto simp: is_alnum_upper_def hex_digit_def)

lemma to_hex_string_alnum: "list_all is_alnum_upper (to_hex_string bs)"
proof (induction bs)
  case (Cons b bs)
  have "unat b div 16 < 16" by (rule unat_div_16)
  then show ?case using Cons by (simp add: to_hex_string_def hex_digit_alnum)
qed (simp add: to_hex_string_def)

lemma to_hex_string_Nil [simp]: "to_hex_string bs = [] \<longleftrightarrow> bs = []"
  by (auto simp: to_hex_string_def)

section \<open>Regular expressions\<close>

datatype regex =
    Lit ustring
  | Plus "nat \<Rightarrow> bool"
  | Star "nat \<Rightarrow> bool"
  | Cat regex regex
  | Alt regex regex
  | Group string regex
  | EndAnchor

type_synonym captures = "string \<Rightarrow> ustring option"

text \<open>
  \<open>.\<close> does not match a line feed, and \<open>$\<close> also matches in front of a final one.
\<close>

definition any_char :: "nat \<Rightarrow> bool" where
  "any_char c \<longleftrightarrow> c \<noteq> 10"

fun greedy :: "(nat \<Rightarrow> bool) \<Rightarrow> ustring \<Rightarrow> (ustring \<Rightarrow> ustring \<Rightarrow> 'r option) \<Rightarrow> 'r option" where
  "greedy p [] k = k [] []"
| "greedy p (c # s) k =
     (if p c
      then (case greedy p s (\<lambda>u. k (c # u)) of Some r \<Rightarrow> Some r | None \<Rightarrow> k [] (c # s))
      else k [] (c # s))"

primrec rmatch :: "regex \<Rightarrow> ustring \<Rightarrow> captures \<Rightarrow> (ustring \<Rightarrow> ustring \<Rightarrow> captures \<Rightarrow> captures option) \<Rightarrow> captures option" where
  "rmatch (Lit l) s cs k = (if take (length l) s = l then k l (drop (length l) s) cs else None)"
| "rmatch (Plus p) s cs k = greedy p s (\<lambda>u rest. if u = [] then None else k u rest cs)"
| "rmatch (Star p) s cs k = greedy p s (\<lambda>u rest. k u rest cs)"
| "rmatch (Cat a b) s cs k = rmatch a s cs (\<lambda>u rest cs'. rmatch b rest cs' (\<lambda>v. k (u @ v)))"
| "rmatch (Alt a b) s cs k = (case rmatch a s cs k of Some r \<Rightarrow> Some r | None \<Rightarrow> rmatch b s cs k)"
| "rmatch (Group n a) s cs k = rmatch a s cs (\<lambda>u rest cs'. k u rest (cs'(n \<mapsto> u)))"
| "rmatch EndAnchor s cs k = (if s = [] \<or> s = [10] then k [] s cs else None)"

text \<open>
  A match at the start of the text, and one anywhere in it.
\<close>

definition match_start :: "regex \<Rightarrow> ustring \<Rightarrow> captures option" where
  "match_start r s = rmatch r s Map.empty (\<lambda>u rest cs. Some cs)"

fun match_anywhere :: "regex \<Rightarrow> ustring \<Rightarrow> captures option" where
  "match_anywhere r [] = match_start r []"
| "match_anywhere r (c # s) = (case match_start r (c # s) of Some cs \<Rightarrow> Some cs | None \<Rightarrow> match_anywhere r s)"

text \<open>
  The texts an expression describes; what \<open>rmatch\<close> consumes is one of them.
\<close>

primrec described :: "regex \<Rightarrow> ustring \<Rightarrow> bool" where
  "described (Lit l) u \<longleftrightarrow> u = l"
| "described (Plus p) u \<longleftrightarrow> u \<noteq> [] \<and> list_all p u"
| "described (Star p) u \<longleftrightarrow> list_all p u"
| "described (Cat a b) u \<longleftrightarrow> (\<exists>v w. u = v @ w \<and> described a v \<and> described b w)"
| "described (Alt a b) u \<longleftrightarrow> described a u \<or> described b u"
| "described (Group n a) u \<longleftrightarrow> described a u"
| "described EndAnchor u \<longleftrightarrow> u = []"

lemma greedy_Some:
  "greedy p s k = Some r \<Longrightarrow> \<exists>u rest. s = u @ rest \<and> list_all p u \<and> k u rest = Some r"
proof (induction s arbitrary: k)
  case (Cons c s)
  show ?case
  proof (cases "p c \<and> (\<exists>r'. greedy p s (\<lambda>u. k (c # u)) = Some r')")
    case True
    then have "greedy p s (\<lambda>u. k (c # u)) = Some r" using Cons.prems by auto
    from Cons.IH [OF this] show ?thesis using True by (metis append_Cons list.pred_inject(2))
  next
    case False
    then have "k [] (c # s) = Some r" using Cons.prems by (auto split: if_splits option.splits)
    then show ?thesis by (intro exI [of _ "[]"] exI [of _ "c # s"]) simp
  qed
qed simp

lemma rmatch_Some:
  "rmatch r s cs k = Some c \<Longrightarrow> \<exists>u rest cs'. s = u @ rest \<and> described r u \<and> k u rest cs' = Some c"
proof (induction r arbitrary: s cs k c)
  case (Lit l)
  then have "take (length l) s = l" and k: "k l (drop (length l) s) cs = Some c" by (auto split: if_splits)
  then have "s = l @ drop (length l) s" by (metis append_take_drop_id)
  then show ?case using k by (metis described.simps(1))
next
  case (Plus p)
  then obtain u rest where "s = u @ rest" "list_all p u" "(if u = [] then None else k u rest cs) = Some c"
    using greedy_Some [of p s "\<lambda>u rest. if u = [] then None else k u rest cs" c] by auto
  then show ?case by (intro exI [of _ u] exI [of _ rest] exI [of _ cs]) (auto split: if_splits)
next
  case (Star p)
  then obtain u rest where "s = u @ rest" "list_all p u" "k u rest cs = Some c"
    using greedy_Some [of p s "\<lambda>u rest. k u rest cs" c] by auto
  then show ?case by (intro exI [of _ u] exI [of _ rest] exI [of _ cs]) simp
next
  case (Cat a b)
  obtain u rest cs' where u: "s = u @ rest" "described a u" "rmatch b rest cs' (\<lambda>v. k (u @ v)) = Some c"
    using Cat.IH(1) [of s cs "\<lambda>u rest cs'. rmatch b rest cs' (\<lambda>v. k (u @ v))" c] Cat.prems by auto
  from Cat.IH(2) [OF u(3)] obtain v rest' cs'' where v: "rest = v @ rest'" "described b v" "k (u @ v) rest' cs'' = Some c"
    by blast
  then have "described (Cat a b) (u @ v)" using u(2) by auto
  then show ?case using u(1) v by (intro exI [of _ "u @ v"] exI [of _ rest'] exI [of _ cs'']) simp
next
  case (Alt a b)
  then consider "rmatch a s cs k = Some c" | "rmatch b s cs k = Some c" by (auto split: option.splits)
  then show ?case
  proof cases
    case 1
    from Alt.IH(1) [OF this] show ?thesis by auto
  next
    case 2
    from Alt.IH(2) [OF this] show ?thesis by auto
  qed
next
  case (Group n a)
  from Group.IH [OF Group.prems [unfolded rmatch.simps]] show ?case by auto
next
  case EndAnchor
  then have "k [] s cs = Some c" by (auto split: if_splits)
  then show ?case by (intro exI [of _ "[]"] exI [of _ s] exI [of _ cs]) simp
qed

text \<open>
  Where a repetition ends at a character it does not describe, the greedy match is the one tried first.
\<close>

lemma greedy_first:
  assumes "list_all p u" and "rest = [] \<or> \<not> p (hd rest)" and "k u rest = Some r"
  shows "greedy p (u @ rest) k = Some r"
  using assms
proof (induction u arbitrary: k)
  case Nil
  then show ?case by (cases rest) simp_all
qed simp

text \<open>
  And the only one, if what follows must begin with such a character.
\<close>

lemma greedy_only:
  assumes "list_all p u" and "rest = [] \<or> \<not> p (hd rest)" and "\<And>v w. v @ w = u \<Longrightarrow> w \<noteq> [] \<Longrightarrow> k v (w @ rest) = None"
  shows "greedy p (u @ rest) k = k u rest"
  using assms
proof (induction u arbitrary: k)
  case Nil
  then show ?case by (cases rest) simp_all
next
  case (Cons c u)
  have "greedy p (u @ rest) (\<lambda>v. k (c # v)) = k (c # u) rest"
    using Cons.prems by (intro Cons.IH) simp_all
  moreover have "k [] ((c # u) @ rest) = None" using Cons.prems(3) [of "[]" "c # u"] by simp
  ultimately show ?case using Cons.prems(1) by (auto split: option.split)
qed

end
