(* ===== verification/Irc_Replier.thy ===== *)
theory Irc_Replier
  imports Irc_Text Complex_Main "HOL-Library.Multiset"
begin

text \<open>
  How the IRC clients agree on who answers a user (\<open>src/samples/irc\<close>): \<open>ByteArrayComparer.cs\<close>,
  \<open>TrustedClientUserTracker.cs\<close> and \<open>TrustedClientReplier.cs\<close>. Every client orders the clients in the channel by
  a hash, and waits according to its own place in that order; a reply by another client cancels the timer.

  A timer of .NET runs its callback on the thread pool: once it has expired the callback is queued, and
  disposing of the timer does not take it from the queue. So a timer is the slot it waits for and whether it has
  expired, and the replier has the queue of callbacks. \<open>AddOrUpdate\<close> of a \<open>ConcurrentDictionary\<close> is one step.
  SHA-256 is a parameter. Times are real numbers, without the rounding of floating-point numbers.
\<close>

section \<open>The order of byte arrays\<close>

datatype irc_exception =
    FormatException
  | NullReferenceException
  | IndexOutOfRangeException
  | TimeoutException
  | RpcUnavailable
  | RpcOther

text \<open>
  \<open>CompareTo\<close> of \<open>bool\<close>, \<open>int\<close> and \<open>byte\<close>.
\<close>

definition bool_compare :: "bool \<Rightarrow> bool \<Rightarrow> int" where
  "bool_compare x y = (if x = y then 0 else if x then 1 else - 1)"

definition int_compare :: "nat \<Rightarrow> nat \<Rightarrow> int" where
  "int_compare x y = (if x < y then - 1 else if x = y then 0 else 1)"

definition byte_compare :: "u8 \<Rightarrow> u8 \<Rightarrow> int" where
  "byte_compare x y = uint x - uint y"

text \<open>
  The loop of \<open>Compare\<close>, on arrays of the same length; \<open>None\<close> is \<open>null\<close>.
\<close>

fun compare_loop :: "bytes \<Rightarrow> bytes \<Rightarrow> int" where
  "compare_loop (a # x) (b # y) =
     (let result = byte_compare a b in if result \<noteq> 0 then result else compare_loop x y)"
| "compare_loop _ _ = 0"

definition compare_arrays :: "bytes option \<Rightarrow> bytes option \<Rightarrow> irc_exception + int" where
  "compare_arrays x y =
     (let result = bool_compare (x = None) (y = None)
      in if result \<noteq> 0 then Inr result
         else (case (x, y) of
                 (Some a, Some b) \<Rightarrow>
                   (let result = int_compare (length a) (length b)
                    in if result \<noteq> 0 then Inr result else Inr (compare_loop a b))
               | _ \<Rightarrow> Inl NullReferenceException))"

lemma compare_loop_sign:
  "length x = length y \<Longrightarrow> (compare_loop x y < 0 \<longleftrightarrow> x < y) \<and> (compare_loop x y = 0 \<longleftrightarrow> x = y)"
proof (induction x y rule: compare_loop.induct)
  case (1 a x b y)
  have "byte_compare a b < 0 \<longleftrightarrow> a < b" "byte_compare a b = 0 \<longleftrightarrow> a = b"
    by (simp_all add: byte_compare_def word_less_def word_uint_eq_iff)
  with 1 show ?case by (auto simp: Let_def)
qed simp_all

text \<open>
  On arrays the comparison is a total order, by length first; only two \<open>null\<close>s cannot be compared.
\<close>

datatype byte_array = Byte_Array (array_bytes: bytes)

instantiation byte_array :: linorder
begin

definition less_eq_byte_array :: "byte_array \<Rightarrow> byte_array \<Rightarrow> bool" where
  "less_eq_byte_array x y \<longleftrightarrow>
     (case compare_arrays (Some (array_bytes x)) (Some (array_bytes y)) of Inr r \<Rightarrow> r \<le> 0 | Inl _ \<Rightarrow> False)"

definition less_byte_array :: "byte_array \<Rightarrow> byte_array \<Rightarrow> bool" where
  "less_byte_array x y \<longleftrightarrow>
     (case compare_arrays (Some (array_bytes x)) (Some (array_bytes y)) of Inr r \<Rightarrow> r < 0 | Inl _ \<Rightarrow> False)"

lemma byte_array_order:
  fixes x y :: byte_array
  shows "x < y \<longleftrightarrow> length (array_bytes x) < length (array_bytes y) \<or>
      length (array_bytes x) = length (array_bytes y) \<and> array_bytes x < array_bytes y"
    and "x \<le> y \<longleftrightarrow> x < y \<or> x = y"
proof -
  show "x < y \<longleftrightarrow> length (array_bytes x) < length (array_bytes y) \<or>
      length (array_bytes x) = length (array_bytes y) \<and> array_bytes x < array_bytes y"
    using compare_loop_sign [of "array_bytes x" "array_bytes y"]
    by (auto simp: less_byte_array_def compare_arrays_def bool_compare_def int_compare_def Let_def)
  show "x \<le> y \<longleftrightarrow> x < y \<or> x = y"
    using compare_loop_sign [of "array_bytes x" "array_bytes y"] byte_array.expand [of x y]
    by (auto simp: less_eq_byte_array_def less_byte_array_def compare_arrays_def bool_compare_def int_compare_def Let_def)
qed

instance
proof
  fix x y z :: byte_array
  show "x < y \<longleftrightarrow> x \<le> y \<and> \<not> y \<le> x" and "x \<le> x" and "x \<le> y \<Longrightarrow> y \<le> z \<Longrightarrow> x \<le> z"
    and "x \<le> y \<Longrightarrow> y \<le> x \<Longrightarrow> x = y"
    by (auto simp: byte_array_order)
  show "x \<le> y \<or> y \<le> x"
    using byte_array.expand [of x y] linorder_less_linear [of "array_bytes x" "array_bytes y"]
    by (auto simp: byte_array_order)
qed

end

section \<open>Who asked\<close>

type_synonym user_tracker = "(bytes, ustring) fmap"

definition set_origin_user :: "user_tracker \<Rightarrow> bytes \<Rightarrow> ustring \<Rightarrow> user_tracker" where
  "set_origin_user users hash username = fmupd hash username users"

definition get_origin_user :: "user_tracker \<Rightarrow> bytes \<Rightarrow> ustring option" where
  "get_origin_user users hash = fmlookup users hash"

section \<open>Replies\<close>

definition nick_char :: "nat \<Rightarrow> bool" where
  "nick_char c \<longleftrightarrow> c \<notin> set (lit ''!@: '')"

definition WITNESS_REPLY_REGEX :: regex where
  "WITNESS_REPLY_REGEX =
     Cat (Group ''nickname'' (Plus nick_char)) (Cat (Lit (lit '': witnessing ''))
       (Cat (Group ''eventId'' (Plus is_alnum_upper)) (Cat (Lit (lit ''...'')) EndAnchor)))"

definition witness_reply_format :: "ustring \<Rightarrow> ustring \<Rightarrow> ustring" where
  "witness_reply_format hash_hex user = user @ lit '': witnessing '' @ hash_hex @ lit ''...''"

definition VALIDATE_REPLY_REGEX :: regex where
  "VALIDATE_REPLY_REGEX =
     Cat (Group ''nickname'' (Alt (Plus nick_char) (Lit (lit ''<unknown user>'')))) (Cat (Lit (lit '': ''))
       (Cat (Group ''eventId'' (Plus is_alnum_upper)) (Cat (Lit (lit '' validated!'')) EndAnchor)))"

definition validate_reply_format :: "ustring \<Rightarrow> ustring \<Rightarrow> ustring" where
  "validate_reply_format hash_hex user = user @ lit '': '' @ hash_hex @ lit '' validated!''"

definition USERNAME_REGEX :: regex where
  "USERNAME_REGEX = Cat (Lit (lit ''vs-'')) (Star any_char)"

definition username_format :: "ustring \<Rightarrow> ustring" where
  "username_format nick = lit ''vs-'' @ nick"

section \<open>The replier\<close>

record channel_user =
  user_name :: "ustring option"
  nick_name :: ustring
  is_local :: bool

record timer =
  tm_slot :: nat
  tm_expired :: bool

record replier =
  reply_regex :: regex
  reply_format :: "ustring \<Rightarrow> ustring \<Rightarrow> ustring"
  reply_timers :: "(bytes, timer option) fmap"
  timer_queue :: "bytes list"

definition new_replier :: "regex \<times> (ustring \<Rightarrow> ustring \<Rightarrow> ustring) \<Rightarrow> replier" where
  "new_replier fmt = \<lparr>reply_regex = fst fmt, reply_format = snd fmt, reply_timers = fmempty, timer_queue = []\<rparr>"

definition add_or_update :: "(bytes, 'v) fmap \<Rightarrow> bytes \<Rightarrow> 'v \<Rightarrow> ('v \<Rightarrow> 'v) \<Rightarrow> (bytes, 'v) fmap" where
  "add_or_update m key add update = fmupd key (case fmlookup m key of None \<Rightarrow> add | Some v \<Rightarrow> update v) m"

text \<open>
  The handler the constructor adds to the channel's \<open>MessageReceived\<close>.
\<close>

definition replier_received :: "replier \<Rightarrow> ustring \<Rightarrow> (irc_exception + unit) \<times> replier" where
  "replier_received self message =
     (case match_start (reply_regex self) message of
        None \<Rightarrow> (Inr (), self)
      | Some groups \<Rightarrow>
          (case from_hex_string (case groups ''eventId'' of Some hash_hex \<Rightarrow> hash_hex | None \<Rightarrow> []) of
             None \<Rightarrow> (Inl FormatException, self)
           | Some hash \<Rightarrow> (Inr (), self\<lparr>reply_timers := add_or_update (reply_timers self) hash None (\<lambda>_. None)\<rparr>)))"

definition is_client :: "channel_user \<Rightarrow> bool" where
  "is_client user \<longleftrightarrow> match_anywhere USERNAME_REGEX (case user_name user of Some n \<Rightarrow> n | None \<Rightarrow> []) \<noteq> None"

definition client_key :: "(bytes \<Rightarrow> bytes) \<Rightarrow> bytes \<Rightarrow> channel_user \<Rightarrow> byte_array" where
  "client_key sha256 hash user = Byte_Array (sha256 (hash @ utf8_bytes (nick_name user)))"

definition own_number :: "(bytes \<Rightarrow> bytes) \<Rightarrow> channel_user list \<Rightarrow> bytes \<Rightarrow> nat" where
  "own_number sha256 users hash =
     length (takeWhile (\<lambda>x. \<not> is_local x) (sort_key (client_key sha256 hash) (filter is_client users)))"

definition slot_to_time :: "nat \<Rightarrow> real" where
  "slot_to_time slot = sqrt (real slot) * 2"

definition send_reply :: "(bytes \<Rightarrow> bytes) \<Rightarrow> channel_user list \<Rightarrow> replier \<Rightarrow> bytes \<Rightarrow> replier" where
  "send_reply sha256 users self hash =
     self\<lparr>reply_timers := add_or_update (reply_timers self) hash
       (Some \<lparr>tm_slot = own_number sha256 users hash, tm_expired = False\<rparr>) (\<lambda>timer. timer)\<rparr>"

text \<open>
  A timer expires: .NET queues its callback.
\<close>

definition timer_expires :: "replier \<Rightarrow> bytes \<Rightarrow> replier option" where
  "timer_expires self hash =
     (case fmlookup (reply_timers self) hash of
        Some (Some timer) \<Rightarrow>
          if tm_expired timer then None
          else Some (self\<lparr>reply_timers := fmupd hash (Some (timer\<lparr>tm_expired := True\<rparr>)) (reply_timers self),
            timer_queue := timer_queue self @ [hash]\<rparr>)
      | _ \<Rightarrow> None)"

text \<open>
  \<open>TimerCallback\<close>: the message it sends, and the new state.
\<close>

definition timer_callback :: "user_tracker \<Rightarrow> replier \<Rightarrow> bytes \<Rightarrow> ustring \<times> replier" where
  "timer_callback tracker self hash =
     (let hash_hex = to_hex_string hash;
          user = (case get_origin_user tracker hash of Some u \<Rightarrow> u | None \<Rightarrow> lit ''<unknown user>'')
      in (reply_format self hash_hex user,
          self\<lparr>reply_timers := add_or_update (reply_timers self) hash None (\<lambda>_. None)\<rparr>))"

section \<open>Reading replies\<close>

lemma group_plus_then:
  assumes "list_all p u" and "u \<noteq> []" and "rest = [] \<or> \<not> p (hd rest)"
    and "rmatch b rest (cs(n \<mapsto> u)) (\<lambda>v. k (u @ v)) = Some r"
  shows "rmatch (Cat (Group n (Plus p)) b) (u @ rest) cs k = Some r"
  using greedy_first [of p u rest "\<lambda>u rest. if u = [] then None else rmatch b rest (cs(n \<mapsto> u)) (\<lambda>v. k (u @ v))" r] assms
  by simp

lemma lit_then: "rmatch (Cat (Lit l) b) (l @ rest) cs k = rmatch b rest cs (\<lambda>v. k (l @ v))"
  by simp

text \<open>
  A nickname as IRC has it, which the expressions can read.
\<close>

definition is_nick :: "ustring \<Rightarrow> bool" where
  "is_nick n \<longleftrightarrow> n \<noteq> [] \<and> list_all nick_char n"

text \<open>
  The rest of a reply after the nickname, whose expression is that of both kinds of replies.
\<close>

lemma hash_read:
  assumes "hash \<noteq> []" and "after = [] \<or> \<not> is_alnum_upper (hd after)"
  shows "rmatch (Cat (Lit before) (Cat (Group ''eventId'' (Plus is_alnum_upper)) (Cat (Lit after) EndAnchor)))
    (before @ to_hex_string hash @ after) cs (\<lambda>v rest cs. Some cs) = Some (cs(''eventId'' \<mapsto> to_hex_string hash))"
  unfolding lit_then
  by (rule group_plus_then) (use assms in \<open>simp_all add: to_hex_string_alnum\<close>)

lemma reply_starts:
  "nick_char (hd (lit '': witnessing '' @ rest)) = False" "nick_char (hd (lit '': '' @ rest)) = False"
  "is_alnum_upper (hd (lit ''...'')) = False" "is_alnum_upper (hd (lit '' validated!'')) = False"
  by (simp_all add: nick_char_def is_alnum_upper_def)

lemma witness_reply_read:
  assumes "is_nick user" and "hash \<noteq> []"
  shows "match_start WITNESS_REPLY_REGEX (witness_reply_format (to_hex_string hash) user) =
    Some [''nickname'' \<mapsto> user, ''eventId'' \<mapsto> to_hex_string hash]"
  unfolding match_start_def WITNESS_REPLY_REGEX_def witness_reply_format_def
  using assms(1) reply_starts hash_read [OF assms(2), of "lit ''...''"]
  by (intro group_plus_then) (simp_all only: is_nick_def simp_thms)

lemma validate_reply_read:
  assumes "is_nick user" and "hash \<noteq> []"
  shows "match_start VALIDATE_REPLY_REGEX (validate_reply_format (to_hex_string hash) user) =
    Some [''nickname'' \<mapsto> user, ''eventId'' \<mapsto> to_hex_string hash]"
proof -
  have "rmatch (Cat (Group ''nickname'' (Plus nick_char)) (Cat (Lit (lit '': ''))
       (Cat (Group ''eventId'' (Plus is_alnum_upper)) (Cat (Lit (lit '' validated!'')) EndAnchor))))
      (validate_reply_format (to_hex_string hash) user) Map.empty (\<lambda>u rest cs. Some cs) =
    Some [''nickname'' \<mapsto> user, ''eventId'' \<mapsto> to_hex_string hash]"
    unfolding validate_reply_format_def
    using assms(1) reply_starts hash_read [OF assms(2), of "lit '' validated!''"]
    by (intro group_plus_then) (simp_all only: is_nick_def simp_thms)
  then show ?thesis
    unfolding match_start_def VALIDATE_REPLY_REGEX_def rmatch.simps(4-6) by simp
qed

lemma validate_reply_unknown_read:
  assumes "hash \<noteq> []"
  shows "match_start VALIDATE_REPLY_REGEX (validate_reply_format (to_hex_string hash) (lit ''<unknown user>'')) =
    Some [''nickname'' \<mapsto> lit ''<unknown user>'', ''eventId'' \<mapsto> to_hex_string hash]"
proof -
  note rest = hash_read [OF assms, of "lit '' validated!''" "lit '': ''" "[''nickname'' \<mapsto> lit ''<unknown user>'']"]
  show ?thesis
    unfolding match_start_def VALIDATE_REPLY_REGEX_def validate_reply_format_def
    using rest by (simp add: nick_char_def is_alnum_upper_def)
qed

section \<open>Slots\<close>

lemma index_bij:
  assumes "distinct ns"
  shows "bij_betw (\<lambda>n. length (takeWhile (\<lambda>m. m \<noteq> n) ns)) (set ns) {..<length ns}"
proof (rule bij_betw_byWitness [where f' = "nth ns"])
  have less: "length (takeWhile (\<lambda>m. m \<noteq> n) ns) < length ns" if "n \<in> set ns" for n
  proof -
    from split_list_first [OF that] obtain ys zs where "ns = ys @ n # zs" "n \<notin> set ys" by blast
    moreover from this have "takeWhile (\<lambda>m. m \<noteq> n) ns = ys" by (auto simp: takeWhile_tail takeWhile_append)
    ultimately show ?thesis by simp
  qed
  then show "\<forall>n \<in> set ns. ns ! length (takeWhile (\<lambda>m. m \<noteq> n) ns) = n"
    using nth_length_takeWhile by blast
  show "(\<lambda>n. length (takeWhile (\<lambda>m. m \<noteq> n) ns)) ` set ns \<subseteq> {..<length ns}" using less by auto
  show "\<forall>i \<in> {..<length ns}. length (takeWhile (\<lambda>m. m \<noteq> ns ! i) ns) = i"
  proof
    fix i
    assume "i \<in> {..<length ns}"
    then have "takeWhile (\<lambda>m. m \<noteq> ns ! i) ns = take i ns"
      using assms by (intro takeWhile_eq_take_P_nth) (auto simp: nth_eq_iff_index_eq)
    then show "length (takeWhile (\<lambda>m. m \<noteq> ns ! i) ns) = i" using \<open>i \<in> {..<length ns}\<close> by simp
  qed
  show "(!) ns ` {..<length ns} \<subseteq> set ns" by auto
qed

text \<open>
  The users of a channel as the client with the given nickname sees them, in whatever order.
\<close>

definition seen_by :: "ustring \<Rightarrow> channel_user \<Rightarrow> channel_user" where
  "seen_by nick u = u\<lparr>is_local := nick_name u = nick\<rparr>"

lemma seen_by_simps [simp]:
  "nick_name (seen_by nick u) = nick_name u" "is_local (seen_by nick u) \<longleftrightarrow> nick_name u = nick"
  "is_client (seen_by nick u) \<longleftrightarrow> is_client u" "client_key sha256 hash (seen_by nick u) = client_key sha256 hash u"
  by (simp_all add: seen_by_def is_client_def client_key_def)

lemma own_number_index:
  assumes inj: "inj_on (client_key sha256 hash) {u \<in> set users. is_client u}"
    and view: "mset view = mset (map (seen_by nick) users)"
  shows "own_number sha256 view hash =
    length (takeWhile (\<lambda>n. n \<noteq> nick) (map nick_name (sort_key (client_key sha256 hash) (filter is_client users))))"
proof -
  define sorted_users where "sorted_users = sort_key (client_key sha256 hash) (filter is_client users)"
  have set_view: "set view = seen_by nick ` set users" using view by (metis list.set_map set_mset_mset)
  have "mset (filter is_client view) = filter_mset is_client (image_mset (seen_by nick) (mset users))"
    using view by (simp add: mset_filter)
  also have "\<dots> = image_mset (seen_by nick) (filter_mset is_client (mset users))"
    by (simp add: filter_mset_image_mset)
  also have "\<dots> = mset (map (seen_by nick) sorted_users)"
    by (simp add: sorted_users_def mset_filter)
  finally have m: "mset (filter is_client view) = mset (map (seen_by nick) sorted_users)" .
  have "inj_on (client_key sha256 hash) (set (filter is_client view))"
    using inj set_view by (auto simp: inj_on_def)
  moreover have "sorted (map (client_key sha256 hash) (map (seen_by nick) sorted_users))"
    by (simp add: comp_def sorted_users_def)
  ultimately have "sort_key (client_key sha256 hash) (filter is_client view) = map (seen_by nick) sorted_users"
    using m sort_key_inj_key_eq by blast
  then show ?thesis by (simp add: own_number_def takeWhile_map comp_def sorted_users_def)
qed

lemma slot_to_time_strict_mono: "m < n \<Longrightarrow> slot_to_time m < slot_to_time n"
  by (simp add: slot_to_time_def)

text \<open>
  To make a client wait \<open>k\<close> times as long, an attacker needs \<open>k\<^sup>2\<close> times as many clients in front of it.
\<close>

lemma slot_to_time_scale: "slot_to_time (k\<^sup>2 * n) = real k * slot_to_time n"
  by (simp add: slot_to_time_def real_sqrt_mult)

end
