(* ===== verification/Irc_Bot.thy ===== *)
theory Irc_Bot
  imports Irc_Replier Server
begin

text \<open>
  The IRC client as a whole (\<open>src/samples/irc/TrustedClientBot.cs\<close> and \<open>Program.cs\<close>): the commands of users, the
  witnessing of their events, the replies, and the start of the program. A message of the channel goes to
  the three handlers of \<open>MessageReceived\<close> in the order in which they were added: that of the replier for
  witnessed events, that of the bot, that of the replier for validated events; an exception in one of them
  keeps the message from the rest. The gRPC client, IrcDotNet and Polly are parameters.

  \<open>irc_step\<close> is a channel with any number of clients and users: users say what they like, every client gets
  the messages of all others in order but at its own pace, and timers expire and their callbacks run at
  any time.
\<close>

section \<open>Commands\<close>

definition HELP_COMMAND_REGEX :: regex where
  "HELP_COMMAND_REGEX =
     Cat (Group ''nickname'' (Plus nick_char)) (Cat (Plus any_char) (Cat (Lit (lit '' help'')) (Cat (Star any_char) EndAnchor)))"

definition WITNESS_COMMAND_REGEX :: regex where
  "WITNESS_COMMAND_REGEX =
     Cat (Lit (lit ''!w'')) (Cat (Alt (Lit (lit ''itness'')) (Lit []))
       (Cat (Lit (lit '' '')) (Cat (Group ''data'' (Plus any_char)) EndAnchor)))"

definition witness_command_help :: "ustring \<Rightarrow> ustring" where
  "witness_command_help user = user @ lit '': !w[itness] <data> -- create and witness a validated-streams event''"

datatype reply_kind = WitnessReply | ValidateReply

fun reply_formats :: "reply_kind \<Rightarrow> regex \<times> (ustring \<Rightarrow> ustring \<Rightarrow> ustring)" where
  "reply_formats WitnessReply = (WITNESS_REPLY_REGEX, witness_reply_format)"
| "reply_formats ValidateReply = (VALIDATE_REPLY_REGEX, validate_reply_format)"

section \<open>The bot\<close>

text \<open>
  What does not change: SHA-256, the nickname, and the call \<open>WitnessEvent\<close> of the gRPC client. What does: the
  two repliers and the tracker, and the node on the other side of the call.
\<close>

record 'n bot_env =
  be_sha256 :: "bytes \<Rightarrow> bytes"
  be_nick :: ustring
  be_witness_event :: "'n \<Rightarrow> bytes \<Rightarrow> (irc_exception + unit) \<times> 'n"

record 'n bot =
  bt_repliers :: "reply_kind \<Rightarrow> replier"
  bt_tracker :: user_tracker
  bt_node :: 'n

definition new_bot :: "'n \<Rightarrow> 'n bot" where
  "new_bot node = \<lparr>bt_repliers = (\<lambda>kind. new_replier (reply_formats kind)), bt_tracker = fmempty, bt_node = node\<rparr>"

definition set_replier :: "reply_kind \<Rightarrow> replier \<Rightarrow> 'n bot \<Rightarrow> 'n bot" where
  "set_replier kind r self = self\<lparr>bt_repliers := (bt_repliers self)(kind := r)\<rparr>"

text \<open>
  The event id of what a user says, and the first half of the handler.
\<close>

definition client_event_id :: "(bytes \<Rightarrow> bytes) \<Rightarrow> ustring \<Rightarrow> ustring \<Rightarrow> bytes" where
  "client_event_id sha256 user data = sha256 (utf8_bytes (user @ [0] @ data))"

definition witness_command ::
    "'n bot_env \<Rightarrow> channel_user list \<Rightarrow> ustring \<Rightarrow> ustring \<Rightarrow> 'n bot \<Rightarrow> (irc_exception + unit) \<times> 'n bot" where
  "witness_command env users source message self =
     (case match_start WITNESS_COMMAND_REGEX message of
        None \<Rightarrow> (Inr (), self)
      | Some groups \<Rightarrow>
          (let data = (case groups ''data'' of Some d \<Rightarrow> d | None \<Rightarrow> []);
               user = source;
               hash = client_event_id (be_sha256 env) user data
           in (case be_witness_event env (bt_node self) hash of
                 (Inl e, node) \<Rightarrow> (Inl e, self\<lparr>bt_node := node\<rparr>)
               | (Inr _, node) \<Rightarrow>
                   (Inr (), set_replier WitnessReply (send_reply (be_sha256 env) users (bt_repliers self WitnessReply) hash)
                      (self\<lparr>bt_node := node, bt_tracker := set_origin_user (bt_tracker self) hash user\<rparr>)))))"

definition help_command :: "'n bot_env \<Rightarrow> ustring \<Rightarrow> ustring \<Rightarrow> ustring list" where
  "help_command env source message =
     (case match_start HELP_COMMAND_REGEX message of
        None \<Rightarrow> []
      | Some groups \<Rightarrow> if groups ''nickname'' = Some (be_nick env) then [witness_command_help source] else [])"

text \<open>
  The handler of \<open>HandleIncommingMessages\<close>: how it ends, the messages it sends and the new state.
\<close>

definition bot_received ::
    "'n bot_env \<Rightarrow> channel_user list \<Rightarrow> ustring \<Rightarrow> ustring \<Rightarrow> 'n bot \<Rightarrow> (irc_exception + unit) \<times> ustring list \<times> 'n bot" where
  "bot_received env users source message self =
     (case witness_command env users source message self of
        (Inl e, self') \<Rightarrow> (Inl e, [], self')
      | (Inr _, self') \<Rightarrow> (Inr (), help_command env source message, self'))"

text \<open>
  All handlers of the channel.
\<close>

definition channel_received ::
    "'n bot_env \<Rightarrow> channel_user list \<Rightarrow> ustring \<Rightarrow> ustring \<Rightarrow> 'n bot \<Rightarrow> (irc_exception + unit) \<times> ustring list \<times> 'n bot" where
  "channel_received env users source message self =
     (case replier_received (bt_repliers self WitnessReply) message of
        (Inl e, r) \<Rightarrow> (Inl e, [], set_replier WitnessReply r self)
      | (Inr _, r) \<Rightarrow>
          (case bot_received env users source message (set_replier WitnessReply r self) of
             (Inl e, out, self') \<Rightarrow> (Inl e, out, self')
           | (Inr _, out, self') \<Rightarrow>
               (case replier_received (bt_repliers self' ValidateReply) message of
                  (res, r') \<Rightarrow> (res, out, set_replier ValidateReply r' self'))))"

section \<open>Validated events\<close>

text \<open>
  An event of the stream; then one stream, as the items it gave before it ended, by an exception or well;
  then \<open>ForwardValidatedEvents\<close>, in which Polly starts a new stream whenever one has failed with
  \<open>Unavailable\<close>. \<open>Waits\<close>: there is no further stream yet. The users of the channel are those of one moment here,
  where in \<open>irc_step\<close> they may differ from event to event.
\<close>

datatype irc_failure = Throws irc_exception | Waits

definition validated_event :: "'n bot_env \<Rightarrow> channel_user list \<Rightarrow> bytes \<Rightarrow> 'n bot \<Rightarrow> 'n bot" where
  "validated_event env users hash self =
     set_replier ValidateReply (send_reply (be_sha256 env) users (bt_repliers self ValidateReply) hash) self"

definition read_items :: "'n bot_env \<Rightarrow> channel_user list \<Rightarrow> validated_events_response list \<Rightarrow> 'n bot \<Rightarrow> 'n bot" where
  "read_items env users items self = fold (validated_event env users) (concat (map vr_events items)) self"

type_synonym event_stream = "validated_events_response list \<times> irc_exception option"

definition forward_once ::
    "'n bot_env \<Rightarrow> channel_user list \<Rightarrow> 'n bot \<times> event_stream list \<Rightarrow> (irc_failure + unit) \<times> ('n bot \<times> event_stream list)" where
  "forward_once env users s =
     (case s of
        (self, []) \<Rightarrow> (Inl Waits, (self, []))
      | (self, (items, ended) # later) \<Rightarrow>
          ((case ended of Some e \<Rightarrow> Inl (Throws e) | None \<Rightarrow> Inr ()), (read_items env users items self, later)))"

type_synonym 's retry_policy =
  "(irc_exception \<Rightarrow> bool) \<Rightarrow> ('s \<Rightarrow> (irc_failure + unit) \<times> 's) \<Rightarrow> 's \<Rightarrow> (irc_failure + unit) \<times> 's"

definition retry_forever_law :: "'s retry_policy \<Rightarrow> bool" where
  "retry_forever_law retry \<longleftrightarrow>
     (\<forall>handles f s. retry handles f s =
        (case f s of
           (Inl (Throws e), s') \<Rightarrow> if handles e then retry handles f s' else (Inl (Throws e), s')
         | (r, s') \<Rightarrow> (r, s')))"

definition forward_validated_events ::
    "('n bot \<times> event_stream list) retry_policy \<Rightarrow> 'n bot_env \<Rightarrow> channel_user list \<Rightarrow> 'n bot \<times> event_stream list
      \<Rightarrow> (irc_failure + unit) \<times> ('n bot \<times> event_stream list)" where
  "forward_validated_events retry env users s = retry (\<lambda>e. e = RpcUnavailable) (forward_once env users) s"

section \<open>The program\<close>

text \<open>
  IrcDotNet: connecting with a nickname and a user name, joining a channel, and the channels joined so far.
  Polly: up to five retries, while the result is one to retry on.
\<close>

record ('w, 'c, 'ch) irc_lib =
  irc_start_client :: "ustring \<Rightarrow> ustring \<Rightarrow> ustring \<Rightarrow> 'w \<Rightarrow> (irc_exception + 'c) \<times> 'w"
  irc_join :: "'c \<Rightarrow> ustring \<Rightarrow> 'w \<Rightarrow> 'w"
  irc_channels :: "'c \<Rightarrow> 'w \<Rightarrow> (ustring \<times> 'ch) list"

type_synonym ('w, 'r) retries =
  "nat \<Rightarrow> (irc_exception + 'r \<Rightarrow> bool) \<Rightarrow> ('w \<Rightarrow> (irc_exception + 'r) \<times> 'w) \<Rightarrow> 'w \<Rightarrow> (irc_exception + 'r) \<times> 'w"

definition retries_law :: "('w, 'r) retries \<Rightarrow> bool" where
  "retries_law retry \<longleftrightarrow>
     (\<forall>n handles f w. retry n handles f w =
        (case f w of (r, w') \<Rightarrow> if handles r \<and> n \<noteq> 0 then retry (n - 1) handles f w' else (r, w')))"

definition start_irc_client ::
    "('w, 'c, 'ch) irc_lib \<Rightarrow> ustring \<Rightarrow> ustring \<Rightarrow> 'w \<Rightarrow> (irc_exception + 'c) \<times> 'w" where
  "start_irc_client lib irc_uri bot_nickname w =
     irc_start_client lib irc_uri bot_nickname (username_format bot_nickname) w"

definition join_irc_channel :: "('w, 'c, 'ch) irc_lib \<Rightarrow> 'c \<Rightarrow> ustring \<Rightarrow> 'w \<Rightarrow> 'ch option \<times> 'w" where
  "join_irc_channel lib irc_client channel_name w =
     (let w' = irc_join lib irc_client channel_name w
      in (map_option snd (find (\<lambda>x. fst x = channel_name) (irc_channels lib irc_client w')), w'))"

text \<open>
  \<open>Main\<close> up to where the bot runs: the channel and the nickname it runs with. Its constructor takes a channel
  that is \<open>null\<close>, and then \<open>Run\<close> fails when it adds the handlers.
\<close>

definition irc_main ::
    "('w, 'c, 'ch) irc_lib \<Rightarrow> ('w, 'c) retries \<Rightarrow> ('w, 'ch option) retries \<Rightarrow> ustring list \<Rightarrow> 'w
      \<Rightarrow> (irc_exception + 'ch \<times> ustring) \<times> 'w" where
  "irc_main lib retry_start retry_join arguments w =
     (if length arguments < 4 then (Inl IndexOutOfRangeException, w)
      else let irc_server = arguments ! 1; bot_channel = arguments ! 2; bot_nickname = arguments ! 3
           in (case retry_start 5 (\<lambda>r. r = Inl TimeoutException) (start_irc_client lib irc_server bot_nickname) w of
                 (Inl e, w1) \<Rightarrow> (Inl e, w1)
               | (Inr irc_client, w1) \<Rightarrow>
                   (case retry_join 5 (\<lambda>r. r = Inr None)
                        (\<lambda>w. case join_irc_channel lib irc_client bot_channel w of (c, w') \<Rightarrow> (Inr c, w')) w1 of
                      (Inl e, w2) \<Rightarrow> (Inl e, w2)
                    | (Inr None, w2) \<Rightarrow> (Inl NullReferenceException, w2)
                    | (Inr (Some irc_channel), w2) \<Rightarrow> (Inr (irc_channel, bot_nickname), w2))))"

section \<open>A channel with many clients\<close>

text \<open>
  The clients by number, what each has not yet received, all that was said, and, for the statements only,
  which client has sent which reply.
\<close>

type_synonym irc_message = "ustring \<times> ustring"

record 'n irc_state =
  ic_bots :: "nat \<Rightarrow> 'n bot"
  ic_inbox :: "nat \<Rightarrow> irc_message list"
  ic_log :: "irc_message list"
  ic_replies :: "(nat \<times> reply_kind \<times> bytes) list"

definition irc_start :: "(nat \<Rightarrow> 'n) \<Rightarrow> 'n irc_state" where
  "irc_start nodes = \<lparr>ic_bots = (\<lambda>i. new_bot (nodes i)), ic_inbox = (\<lambda>_. []), ic_log = [], ic_replies = []\<rparr>"

definition post :: "nat option \<Rightarrow> irc_message list \<Rightarrow> 'n irc_state \<Rightarrow> 'n irc_state" where
  "post sender msgs s =
     s\<lparr>ic_inbox := (\<lambda>j. if sender = Some j then ic_inbox s j else ic_inbox s j @ msgs), ic_log := ic_log s @ msgs\<rparr>"

definition set_bot :: "nat \<Rightarrow> 'n bot \<Rightarrow> 'n irc_state \<Rightarrow> 'n irc_state" where
  "set_bot i b s = s\<lparr>ic_bots := (ic_bots s)(i := b)\<rparr>"

inductive irc_step :: "(nat \<Rightarrow> 'n bot_env) \<Rightarrow> 'n irc_state \<Rightarrow> 'n irc_state \<Rightarrow> bool" for envs where
  says: "irc_step envs s (post None [(source, message)] s)"
| receives: "ic_inbox s i = (source, message) # rest \<Longrightarrow>
    channel_received (envs i) users source message (ic_bots s i) = (r, out, b) \<Longrightarrow>
    irc_step envs s (post (Some i) (map (Pair (be_nick (envs i))) out)
      (set_bot i b (s\<lparr>ic_inbox := (ic_inbox s)(i := rest)\<rparr>)))"
| validated: "irc_step envs s (set_bot i (validated_event (envs i) users hash (ic_bots s i)) s)"
| expires: "timer_expires (bt_repliers (ic_bots s i) kind) hash = Some r \<Longrightarrow>
    irc_step envs s (set_bot i (set_replier kind r (ic_bots s i)) s)"
| calls_back: "hash \<in> set (timer_queue (bt_repliers (ic_bots s i) kind)) \<Longrightarrow>
    timer_callback (bt_tracker (ic_bots s i)) (bt_repliers (ic_bots s i) kind) hash = (message, r) \<Longrightarrow>
    irc_step envs s (post (Some i) [(be_nick (envs i), message)]
      (set_bot i (set_replier kind (r\<lparr>timer_queue := remove1 hash (timer_queue r)\<rparr>) (ic_bots s i))
        (s\<lparr>ic_replies := (i, kind, hash) # ic_replies s\<rparr>)))"

section \<open>The invariant of a channel\<close>

text \<open>
  A reply for the event is on the channel: one a replier reads, or the one a client sends.
\<close>

definition reads_reply :: "reply_kind \<Rightarrow> ustring \<Rightarrow> bytes \<Rightarrow> bool" where
  "reads_reply kind message hash \<longleftrightarrow>
     (\<exists>groups. match_start (fst (reply_formats kind)) message = Some groups \<and>
        from_hex_string (case groups ''eventId'' of Some hash_hex \<Rightarrow> hash_hex | None \<Rightarrow> []) = Some hash)"

definition answered :: "reply_kind \<Rightarrow> bytes \<Rightarrow> irc_message list \<Rightarrow> bool" where
  "answered kind hash said \<longleftrightarrow>
     (\<exists>(source, message) \<in> set said.
        reads_reply kind message hash \<or> (\<exists>user. message = snd (reply_formats kind) (to_hex_string hash) user))"

lemma answered_append: "answered kind hash said \<Longrightarrow> answered kind hash (said @ later)"
  by (auto simp: answered_def)

text \<open>
  A replier, given the events it has sent replies for. The entry of an event: without one there was no
  timer; a timer that is not disposed of has its callback in the queue if and only if it has expired; and
  where the entry is \<open>null\<close> there was a reply, and after the client's own the callback is not in the queue.
\<close>

definition entry_ok :: "reply_kind \<Rightarrow> irc_message list \<Rightarrow> bytes \<Rightarrow> timer option option \<Rightarrow> bool \<Rightarrow> bool \<Rightarrow> bool" where
  "entry_ok kind said hash entry replied queued \<longleftrightarrow>
     (case entry of
        None \<Rightarrow> \<not> queued \<and> \<not> replied
      | Some None \<Rightarrow> \<not> (queued \<and> replied) \<and> answered kind hash said
      | Some (Some timer) \<Rightarrow> (queued \<longleftrightarrow> tm_expired timer) \<and> \<not> replied)"

definition replier_ok :: "reply_kind \<Rightarrow> (bytes \<Rightarrow> bool) \<Rightarrow> irc_message list \<Rightarrow> replier \<Rightarrow> bool" where
  "replier_ok kind replied said r \<longleftrightarrow>
     reply_regex r = fst (reply_formats kind) \<and> reply_format r = snd (reply_formats kind) \<and> distinct (timer_queue r) \<and>
     (\<forall>h. entry_ok kind said h (fmlookup (reply_timers r) h) (replied h) (h \<in> set (timer_queue r)))"

lemma replier_okD:
  assumes "replier_ok kind R said r"
  shows "reply_regex r = fst (reply_formats kind)" "reply_format r = snd (reply_formats kind)" "distinct (timer_queue r)"
    "entry_ok kind said h (fmlookup (reply_timers r) h) (R h) (h \<in> set (timer_queue r))"
  using assms unfolding replier_ok_def by blast+

lemma entry_ok_append: "entry_ok kind said h e p q \<Longrightarrow> entry_ok kind (said @ later) h e p q"
  by (auto simp: entry_ok_def answered_append split: option.splits)

text \<open>
  Every operation changes the entry of one event.
\<close>

lemma replier_ok_change:
  assumes "replier_ok kind R said r" and "reply_regex r' = reply_regex r" and "reply_format r' = reply_format r"
    and "distinct (timer_queue r')" and "entry_ok kind said' h (fmlookup (reply_timers r') h) (R' h) (h \<in> set (timer_queue r'))"
    and "said' = said @ later"
    and "\<And>h'. h' \<noteq> h \<Longrightarrow> fmlookup (reply_timers r') h' = fmlookup (reply_timers r) h' \<and> R' h' = R h' \<and>
      (h' \<in> set (timer_queue r') \<longleftrightarrow> h' \<in> set (timer_queue r))"
  shows "replier_ok kind R' said' r'"
  unfolding replier_ok_def
proof (intro conjI allI)
  show "entry_ok kind said' h' (fmlookup (reply_timers r') h') (R' h') (h' \<in> set (timer_queue r'))" for h'
  proof (cases "h' = h")
    case False
    have "entry_ok kind said' h' (fmlookup (reply_timers r) h') (R h') (h' \<in> set (timer_queue r))"
      using entry_ok_append [OF replier_okD(4) [OF assms(1)]] assms(6) by simp
    then show ?thesis using assms(7) [OF False] by simp
  qed (use assms(5) in simp)
qed (use assms(2,3,4) replier_okD(1,2) [OF assms(1)] in simp_all)

lemma replier_ok_new: "replier_ok kind (\<lambda>_. False) said (new_replier (reply_formats kind))"
  by (simp add: replier_ok_def new_replier_def entry_ok_def)

lemma replier_ok_append:
  assumes "replier_ok kind R said r"
  shows "replier_ok kind R (said @ later) r"
  using assms by (rule replier_ok_change) (simp_all add: replier_okD(3) [OF assms] entry_ok_append [OF replier_okD(4) [OF assms]])

lemma reads_reply_answered: "reads_reply kind message h \<Longrightarrow> (source, message) \<in> set said \<Longrightarrow> answered kind h said"
  by (auto simp: answered_def)

lemma replier_received_reads:
  assumes "reply_regex r = fst (reply_formats kind)" and "reads_reply kind message h"
  shows "snd (replier_received r message) = r\<lparr>reply_timers := fmupd h None (reply_timers r)\<rparr>"
proof -
  obtain groups where "match_start (reply_regex r) message = Some groups"
    "from_hex_string (case groups ''eventId'' of Some hash_hex \<Rightarrow> hash_hex | None \<Rightarrow> []) = Some h"
    using assms unfolding reads_reply_def by auto
  then show ?thesis by (simp add: replier_received_def add_or_update_def option.case_eq_if)
qed

lemma replier_received_other:
  assumes "reply_regex r = fst (reply_formats kind)" and none: "\<nexists>h. reads_reply kind message h"
  shows "snd (replier_received r message) = r"
proof (cases "match_start (reply_regex r) message")
  case (Some groups)
  then have "from_hex_string (case groups ''eventId'' of Some hash_hex \<Rightarrow> hash_hex | None \<Rightarrow> []) = None"
    using assms unfolding reads_reply_def by (metis not_None_eq)
  then show ?thesis using Some by (simp add: replier_received_def)
qed (simp add: replier_received_def)

lemma replier_ok_received:
  assumes ok: "replier_ok kind R said r" and said: "(source, message) \<in> set said"
  shows "replier_ok kind R said (snd (replier_received r message))"
proof (cases "\<exists>h. reads_reply kind message h")
  case True
  then obtain h where h: "reads_reply kind message h" by blast
  have "entry_ok kind said h (Some None) (R h) (h \<in> set (timer_queue r))"
    using replier_okD(4) [OF ok, of h] reads_reply_answered [OF h said]
    by (cases "fmlookup (reply_timers r) h") (auto simp: entry_ok_def split: option.splits)
  then show ?thesis
    unfolding replier_received_reads [OF replier_okD(1) [OF ok] h]
    by (intro replier_ok_change [OF ok, where h = h and later = "[]"]) (simp_all add: replier_okD(3) [OF ok])
next
  case False
  then show ?thesis using ok replier_received_other [OF replier_okD(1) [OF ok] False] by simp
qed

lemma replier_ok_send:
  assumes ok: "replier_ok kind R said r"
  shows "replier_ok kind R said (send_reply sha256 users r h)"
proof (rule replier_ok_change [OF ok, where h = h and later = "[]"])
  show "entry_ok kind said h (fmlookup (reply_timers (send_reply sha256 users r h)) h) (R h)
      (h \<in> set (timer_queue (send_reply sha256 users r h)))"
    using replier_okD(4) [OF ok, of h]
    by (cases "fmlookup (reply_timers r) h") (simp_all add: send_reply_def add_or_update_def entry_ok_def)
qed (simp_all add: send_reply_def add_or_update_def replier_okD(3) [OF ok])

lemma replier_ok_expires:
  assumes ok: "replier_ok kind R said r" and "timer_expires r h = Some r'"
  shows "replier_ok kind R said r'"
proof -
  obtain t where t: "fmlookup (reply_timers r) h = Some (Some t)" "\<not> tm_expired t"
    and r': "r' = r\<lparr>reply_timers := fmupd h (Some (t\<lparr>tm_expired := True\<rparr>)) (reply_timers r), timer_queue := timer_queue r @ [h]\<rparr>"
    using assms(2) by (auto simp: timer_expires_def split: option.splits if_splits)
  have h: "h \<notin> set (timer_queue r)" "\<not> R h" using replier_okD(4) [OF ok, of h] t by (simp_all add: entry_ok_def)
  show ?thesis
    using h unfolding r'
    by (intro replier_ok_change [OF ok, where h = h and later = "[]"]) (simp_all add: replier_okD(3) [OF ok] entry_ok_def)
qed

lemma replier_ok_callback:
  assumes ok: "replier_ok kind R said r" and "h \<in> set (timer_queue r)" and "timer_callback tracker r h = (message, r')"
  shows "replier_ok kind (\<lambda>h'. h' = h \<or> R h') (said @ [(nick, message)]) (r'\<lparr>timer_queue := remove1 h (timer_queue r')\<rparr>)"
proof -
  have r': "r' = r\<lparr>reply_timers := fmupd h None (reply_timers r)\<rparr>"
    and m: "\<exists>user. message = snd (reply_formats kind) (to_hex_string h) user"
    using assms(3) replier_okD(2) [OF ok] by (auto simp: timer_callback_def add_or_update_def Let_def split: option.splits)
  have "answered kind h (said @ [(nick, message)])" using m by (auto simp: answered_def)
  then show ?thesis
    unfolding r'
    by (intro replier_ok_change [OF ok, where h = h and later = "[(nick, message)]"])
      (simp_all add: replier_okD(3) [OF ok] entry_ok_def set_remove1_eq)
qed

text \<open>
  A client, given for each kind the events it has replied to.
\<close>

definition bot_ok :: "(reply_kind \<Rightarrow> bytes \<Rightarrow> bool) \<Rightarrow> irc_message list \<Rightarrow> 'n bot \<Rightarrow> bool" where
  "bot_ok replied said b \<longleftrightarrow> (\<forall>kind. replier_ok kind (replied kind) said (bt_repliers b kind))"

lemma bot_ok_set_replier:
  "bot_ok R said b \<Longrightarrow> replier_ok kind (R kind) said r \<Longrightarrow> bot_ok R said (set_replier kind r b)"
  by (simp add: bot_ok_def set_replier_def)

lemma bot_ok_update [simp]:
  "bot_ok R said (b\<lparr>bt_node := node\<rparr>) = bot_ok R said b" "bot_ok R said (b\<lparr>bt_tracker := tracker\<rparr>) = bot_ok R said b"
  by (simp_all add: bot_ok_def)

lemma bot_okD: "bot_ok R said b \<Longrightarrow> replier_ok kind (R kind) said (bt_repliers b kind)"
  by (simp add: bot_ok_def)

lemma bot_ok_validated: "bot_ok R said b \<Longrightarrow> bot_ok R said (validated_event env users hash b)"
  unfolding validated_event_def by (intro bot_ok_set_replier replier_ok_send bot_okD)

lemma bot_ok_witness_command:
  assumes ok: "bot_ok R said b"
  shows "bot_ok R said (snd (witness_command env users source message b))"
proof (cases "match_start WITNESS_COMMAND_REGEX message")
  case (Some groups)
  define h where "h = client_event_id (be_sha256 env) source (case groups ''data'' of Some d \<Rightarrow> d | None \<Rightarrow> [])"
  have send: "replier_ok WitnessReply (R WitnessReply) said (send_reply (be_sha256 env) users (bt_repliers b WitnessReply) h)"
    by (rule replier_ok_send) (rule bot_okD [OF ok])
  obtain res node where res: "be_witness_event env (bt_node b) h = (res, node)"
    by (cases "be_witness_event env (bt_node b) h")
  have "snd (witness_command env users source message b) = b\<lparr>bt_node := node\<rparr> \<or>
    snd (witness_command env users source message b) =
      set_replier WitnessReply (send_reply (be_sha256 env) users (bt_repliers b WitnessReply) h)
        (b\<lparr>bt_node := node, bt_tracker := set_origin_user (bt_tracker b) h source\<rparr>)"
    using Some res by (cases res) (simp_all add: witness_command_def Let_def h_def)
  moreover have "bot_ok R said (set_replier WitnessReply (send_reply (be_sha256 env) users (bt_repliers b WitnessReply) h)
      (b\<lparr>bt_node := node, bt_tracker := set_origin_user (bt_tracker b) h source\<rparr>))"
    by (rule bot_ok_set_replier [where kind = WitnessReply]) (use ok send in simp_all)
  ultimately show ?thesis using ok by auto
qed (use ok in \<open>simp add: witness_command_def\<close>)

lemma bot_ok_received:
  assumes ok: "bot_ok R said b" and said: "(source, message) \<in> set said"
    and "channel_received env users source message b = (res, out, b')"
  shows "bot_ok R said b'"
proof -
  obtain e1 r1 where r1: "replier_received (bt_repliers b WitnessReply) message = (e1, r1)"
    by (cases "replier_received (bt_repliers b WitnessReply) message")
  define b1 where "b1 = set_replier WitnessReply r1 b"
  have b1: "bot_ok R said b1"
    using ok replier_ok_received [OF _ said, of WitnessReply "R WitnessReply" "bt_repliers b WitnessReply"] r1
    unfolding b1_def by (intro bot_ok_set_replier) (auto simp: bot_ok_def)
  obtain e2 b2 where b2: "witness_command env users source message b1 = (e2, b2)"
    by (cases "witness_command env users source message b1")
  have ok2: "bot_ok R said b2" using bot_ok_witness_command [OF b1] b2 by (metis snd_conv)
  have "replier_ok ValidateReply (R ValidateReply) said (snd (replier_received (bt_repliers b2 ValidateReply) message))"
    using ok2 by (intro replier_ok_received [OF _ said]) (simp add: bot_ok_def)
  then have "bot_ok R said (set_replier ValidateReply (snd (replier_received (bt_repliers b2 ValidateReply) message)) b2)"
    using ok2 by (intro bot_ok_set_replier)
  then show ?thesis
    using assms(3) b1 ok2 r1 b2
    by (auto simp: channel_received_def bot_received_def b1_def [symmetric] split: sum.splits prod.splits)
qed

text \<open>
  The channel.
\<close>

definition irc_ok :: "'n irc_state \<Rightarrow> bool" where
  "irc_ok s \<longleftrightarrow>
     (\<forall>i. bot_ok (\<lambda>kind h. (i, kind, h) \<in> set (ic_replies s)) (ic_log s) (ic_bots s i)) \<and>
     (\<forall>i. set (ic_inbox s i) \<subseteq> set (ic_log s)) \<and> distinct (ic_replies s)"

lemma bot_ok_append: "bot_ok R said b \<Longrightarrow> bot_ok R (said @ later) b"
  by (simp add: bot_ok_def replier_ok_append)

lemma irc_ok_post: "irc_ok s \<Longrightarrow> irc_ok (post sender msgs s)"
  by (auto simp: irc_ok_def post_def bot_ok_append)

lemma irc_ok_set_bot:
  "irc_ok s \<Longrightarrow> bot_ok (\<lambda>kind h. (i, kind, h) \<in> set (ic_replies s)) (ic_log s) b \<Longrightarrow> irc_ok (set_bot i b s)"
  by (simp add: irc_ok_def set_bot_def)

lemma irc_ok_start: "irc_ok (irc_start nodes)"
  by (simp add: irc_ok_def irc_start_def new_bot_def bot_ok_def replier_ok_new)

lemma irc_ok_step:
  assumes "irc_step envs s s'" and "irc_ok s"
  shows "irc_ok s'"
  using assms
proof (cases rule: irc_step.cases)
  case (says source message)
  then show ?thesis using assms(2) irc_ok_post by blast
next
  case (receives i source message rest users r out b)
  have "set (ic_inbox s i) \<subseteq> set (ic_log s)" using assms(2) by (simp add: irc_ok_def)
  then have "(source, message) \<in> set (ic_log s)" unfolding receives(2) by simp
  then have "bot_ok (\<lambda>kind h. (i, kind, h) \<in> set (ic_replies s)) (ic_log s) b"
    using bot_ok_received [OF _ _ receives(3)] assms(2) by (simp add: irc_ok_def)
  moreover have "irc_ok (s\<lparr>ic_inbox := (ic_inbox s)(i := rest)\<rparr>)"
    using assms(2) receives(2) by (auto simp: irc_ok_def) (metis list.set_intros(2) subsetD)
  ultimately show ?thesis using receives(1) by (auto intro!: irc_ok_post irc_ok_set_bot)
next
  case (validated i users hash)
  then show ?thesis using assms(2) by (auto intro!: irc_ok_set_bot bot_ok_validated simp: irc_ok_def [of s])
next
  case (expires i kind hash r)
  let ?R = "\<lambda>kind h. (i, kind, h) \<in> set (ic_replies s)"
  have ok: "bot_ok ?R (ic_log s) (ic_bots s i)" using assms(2) by (simp add: irc_ok_def)
  have "replier_ok kind (?R kind) (ic_log s) r"
    by (rule replier_ok_expires [OF _ expires(2)]) (rule bot_okD [OF ok])
  then have "bot_ok ?R (ic_log s) (set_replier kind r (ic_bots s i))"
    by (rule bot_ok_set_replier [OF ok, where kind = kind])
  then show ?thesis using expires(1) irc_ok_set_bot [OF assms(2)] by simp
next
  case (calls_back hash i kind message r)
  let ?R = "\<lambda>j kind h. (j, kind, h) \<in> set (ic_replies s)"
  have oks: "bot_ok (?R j) (ic_log s) (ic_bots s j)" for j using assms(2) by (simp add: irc_ok_def)
  then have fresh: "(i, kind, hash) \<notin> set (ic_replies s)"
    using calls_back(2) replier_okD(4) [OF bot_okD [OF oks [of i], of kind], of hash]
    by (auto simp: entry_ok_def split: option.splits)
  let ?log = "ic_log s @ [(be_nick (envs i), message)]"
  let ?r = "r\<lparr>timer_queue := remove1 hash (timer_queue r)\<rparr>"
  have r: "replier_ok kind (\<lambda>h. h = hash \<or> ?R i kind h) ?log ?r"
    using replier_ok_callback [OF _ calls_back(2,3)] oks [of i] by (simp add: bot_ok_def)
  have "bot_ok (\<lambda>kind' h. (i, kind', h) = (i, kind, hash) \<or> ?R i kind' h) ?log (set_replier kind ?r (ic_bots s i))"
    using r bot_ok_append [OF oks [of i]] by (auto simp: bot_ok_def set_replier_def)
  then show ?thesis
    using assms(2) fresh bot_ok_append [OF oks] unfolding calls_back(1)
    by (auto simp: irc_ok_def post_def set_bot_def)
qed

lemma irc_ok_reachable: "(irc_step envs)\<^sup>*\<^sup>* (irc_start nodes) s \<Longrightarrow> irc_ok s"
  by (induction rule: rtranclp_induct) (simp_all add: irc_ok_start irc_ok_step)

end
