(* ===== verification/Irc_Properties.thy ===== *)
theory Irc_Properties
  imports Irc_Bot "HOL-Library.While_Combinator"
begin

text \<open>
  The properties of the IRC client: who replies, and how often; what becomes of a command; and what happens
  when the node is not available for a while.
\<close>

section \<open>Replies\<close>

text \<open>
  The entry of an event at a client, and that it is settled: the timer is gone and no callback is queued.
\<close>

definition timer_entry :: "'n irc_state \<Rightarrow> nat \<Rightarrow> reply_kind \<Rightarrow> bytes \<Rightarrow> timer option option" where
  "timer_entry s i kind hash = fmlookup (reply_timers (bt_repliers (ic_bots s i) kind)) hash"

definition replier_settled :: "replier \<Rightarrow> bytes \<Rightarrow> bool" where
  "replier_settled r hash \<longleftrightarrow> fmlookup (reply_timers r) hash = Some None \<and> hash \<notin> set (timer_queue r)"

definition settled :: "'n irc_state \<Rightarrow> nat \<Rightarrow> reply_kind \<Rightarrow> bytes \<Rightarrow> bool" where
  "settled s i kind hash \<longleftrightarrow> replier_settled (bt_repliers (ic_bots s i) kind) hash"

lemma settled_received: "replier_settled r h \<Longrightarrow> replier_settled (snd (replier_received r message)) h"
  by (auto simp: replier_settled_def replier_received_def add_or_update_def split: option.splits)

lemma settled_send: "replier_settled r h \<Longrightarrow> replier_settled (send_reply sha256 users r h') h"
  by (simp add: replier_settled_def send_reply_def add_or_update_def)

lemma settled_expires: "replier_settled r h \<Longrightarrow> timer_expires r h' = Some r' \<Longrightarrow> replier_settled r' h"
  by (auto simp: replier_settled_def timer_expires_def split: option.splits if_splits)

lemma settled_callback:
  assumes "replier_settled r h" and "timer_callback tracker r h' = (message, r')"
  shows "replier_settled (r'\<lparr>timer_queue := remove1 h' (timer_queue r')\<rparr>) h"
proof -
  have "r' = r\<lparr>reply_timers := fmupd h' None (reply_timers r)\<rparr>"
    using assms(2) by (auto simp: timer_callback_def add_or_update_def Let_def split: option.splits)
  then show ?thesis using assms(1) notin_set_remove1 [of h "timer_queue r" h'] by (auto simp: replier_settled_def)
qed

lemma settled_set_replier:
  "replier_settled (bt_repliers b kind) h \<Longrightarrow> (kind' = kind \<Longrightarrow> replier_settled r h) \<Longrightarrow>
    replier_settled (bt_repliers (set_replier kind' r b) kind) h"
  by (simp add: set_replier_def)

lemma settled_witness_command:
  assumes "replier_settled (bt_repliers b kind) h"
  shows "replier_settled (bt_repliers (snd (witness_command env users source message b)) kind) h"
  using assms settled_send [of "bt_repliers b kind" h]
  by (auto simp: witness_command_def Let_def set_replier_def split: option.splits prod.splits sum.splits)

lemma settled_channel_received:
  assumes "replier_settled (bt_repliers b kind) h" and "channel_received env users source message b = (res, out, b')"
  shows "replier_settled (bt_repliers b' kind) h"
proof -
  obtain e1 r1 where r1: "replier_received (bt_repliers b WitnessReply) message = (e1, r1)"
    by (cases "replier_received (bt_repliers b WitnessReply) message")
  define b1 where "b1 = set_replier WitnessReply r1 b"
  have b1: "replier_settled (bt_repliers b1 kind) h"
    unfolding b1_def using assms(1) settled_received [of "bt_repliers b kind" h message] r1
    by (intro settled_set_replier) auto
  obtain e2 b2 where b2: "witness_command env users source message b1 = (e2, b2)"
    by (cases "witness_command env users source message b1")
  have ok2: "replier_settled (bt_repliers b2 kind) h" using settled_witness_command [OF b1] b2 by (metis snd_conv)
  then have "replier_settled (bt_repliers (set_replier ValidateReply
      (snd (replier_received (bt_repliers b2 ValidateReply) message)) b2) kind) h"
    by (intro settled_set_replier settled_received) auto
  then show ?thesis
    using assms(2) b1 ok2 r1 b2
    by (auto simp: channel_received_def bot_received_def b1_def [symmetric] split: sum.splits prod.splits)
qed

lemma settled_step:
  assumes "irc_step envs s s'" and "settled s i kind h"
  shows "settled s' i kind h \<and> ((i, kind, h) \<in> set (ic_replies s') \<longleftrightarrow> (i, kind, h) \<in> set (ic_replies s))"
  using assms(1)
proof (cases rule: irc_step.cases)
  case (says source message)
  then show ?thesis using assms(2) by (simp add: post_def settled_def)
next
  case (receives j source message rest users r out b)
  have "replier_settled (bt_repliers b kind) h" if "j = i"
    using settled_channel_received [OF _ receives(3)] assms(2) that by (simp add: settled_def)
  then show ?thesis using receives(1) assms(2) by (simp add: post_def set_bot_def settled_def)
next
  case (validated j users hash)
  then show ?thesis
    using assms(2) settled_send by (auto simp: set_bot_def settled_def validated_event_def set_replier_def)
next
  case (expires j kind' hash r)
  then show ?thesis using assms(2) settled_expires by (auto simp: set_bot_def settled_def set_replier_def)
next
  case (calls_back hash j kind' message r)
  have "replier_settled (r\<lparr>timer_queue := remove1 hash (timer_queue r)\<rparr>) h" if "j = i" "kind' = kind"
    using settled_callback [OF _ calls_back(3)] assms(2) that by (simp add: settled_def)
  moreover have "(j, kind', hash) \<noteq> (i, kind, h)"
    using assms(2) calls_back(2) by (auto simp: settled_def replier_settled_def)
  ultimately show ?thesis
    using calls_back(1) assms(2) by (auto simp: post_def set_bot_def settled_def set_replier_def)
qed

lemma settled_steps:
  "(irc_step envs)\<^sup>*\<^sup>* s s' \<Longrightarrow> settled s i kind h \<Longrightarrow>
    settled s' i kind h \<and> ((i, kind, h) \<in> set (ic_replies s') \<longleftrightarrow> (i, kind, h) \<in> set (ic_replies s))"
  by (induction rule: rtranclp_induct) (auto dest: settled_step)


lemma irc_ok_entry:
  assumes "irc_ok s"
  shows "entry_ok kind (ic_log s) h (timer_entry s i kind h) ((i, kind, h) \<in> set (ic_replies s))
    (h \<in> set (timer_queue (bt_repliers (ic_bots s i) kind)))"
proof -
  have "bot_ok (\<lambda>kind h. (i, kind, h) \<in> set (ic_replies s)) (ic_log s) (ic_bots s i)"
    using assms by (simp add: irc_ok_def)
  from replier_okD(4) [OF bot_okD [OF this, of kind], of h] show ?thesis by (simp add: timer_entry_def)
qed

lemma callback_answers:
  assumes "irc_ok s" and "h \<in> set (timer_queue (bt_repliers (ic_bots s i) kind))"
  shows "\<exists>s'. irc_step envs s s' \<and> answered kind h (ic_log s') \<and> ic_replies s' = (i, kind, h) # ic_replies s"
proof -
  obtain message r where cb: "timer_callback (bt_tracker (ic_bots s i)) (bt_repliers (ic_bots s i) kind) h = (message, r)"
    by fastforce
  let ?s = "post (Some i) [(be_nick (envs i), message)]
    (set_bot i (set_replier kind (r\<lparr>timer_queue := remove1 h (timer_queue r)\<rparr>) (ic_bots s i))
      (s\<lparr>ic_replies := (i, kind, h) # ic_replies s\<rparr>))"
  have step: "irc_step envs s ?s" using assms(2) cb by (rule irc_step.calls_back)
  have "fmlookup (reply_timers r) h = Some None"
    using cb by (auto simp: timer_callback_def add_or_update_def Let_def split: option.splits)
  then have "timer_entry ?s i kind h = Some None"
    by (simp add: timer_entry_def post_def set_bot_def set_replier_def)
  then have "answered kind h (ic_log ?s)"
    using irc_ok_entry [OF irc_ok_step [OF step assms(1)], of kind h i] by (simp add: entry_ok_def)
  then show ?thesis using step by (intro exI [of _ ?s]) (simp add: post_def set_bot_def)
qed

text \<open>
  C22. Nobody is left without a reply. When a client has an entry for an event, because it was to reply or has
  seen a reply, then a reply for the event has been said in the channel, or the client has steps of its own
  after which one has.
\<close>

theorem irc_replies_answered:
  assumes "(irc_step envs)\<^sup>*\<^sup>* (irc_start nodes) s" and "timer_entry s i kind h \<noteq> None"
  shows "answered kind h (ic_log s) \<or>
    (\<exists>s'. (irc_step envs)\<^sup>*\<^sup>* s s' \<and> answered kind h (ic_log s') \<and> ic_replies s' = (i, kind, h) # ic_replies s)"
proof -
  have ok: "irc_ok s" using assms(1) by (rule irc_ok_reachable)
  consider "timer_entry s i kind h = Some None"
    | t where "timer_entry s i kind h = Some (Some t)" "tm_expired t"
    | t where "timer_entry s i kind h = Some (Some t)" "\<not> tm_expired t"
    using assms(2) by (metis option.exhaust)
  then show ?thesis
  proof cases
    case 1
    then show ?thesis using irc_ok_entry [OF ok, of kind h i] by (simp add: entry_ok_def)
  next
    case 2
    then have "h \<in> set (timer_queue (bt_repliers (ic_bots s i) kind))"
      using irc_ok_entry [OF ok, of kind h i] by (simp add: entry_ok_def)
    from callback_answers [OF ok this] show ?thesis by blast
  next
    case 3
    then obtain r where r: "timer_expires (bt_repliers (ic_bots s i) kind) h = Some r" "h \<in> set (timer_queue r)"
      by (simp add: timer_expires_def timer_entry_def)
    let ?s = "set_bot i (set_replier kind r (ic_bots s i)) s"
    have step: "irc_step envs s ?s" using r(1) by (rule irc_step.expires)
    have "h \<in> set (timer_queue (bt_repliers (ic_bots ?s i) kind))"
      using r(2) by (simp add: set_bot_def set_replier_def)
    from callback_answers [OF irc_ok_step [OF step ok] this, of envs] obtain s' where "irc_step envs ?s s'"
      "answered kind h (ic_log s')" "ic_replies s' = (i, kind, h) # ic_replies ?s" by blast
    then show ?thesis using step by (auto simp: set_bot_def intro!: exI [of _ s'] intro: rtranclp.rtrancl_into_rtrancl)
  qed
qed

section \<open>Slots\<close>

text \<open>
  C23. The clients of a channel wait for different times. All of them see the same users, each in its own
  order and itself as the local one, and no two hashes collide: then the slots of the clients for an event
  are the numbers from 0 on, each taken by exactly one client, so that one of them replies at once.
\<close>

theorem irc_slots:
  assumes "distinct (map nick_name users)"
    and "inj_on (client_key sha256 hash) {u \<in> set users. is_client u}"
    and "\<And>nick. mset (view nick) = mset (map (seen_by nick) users)"
  shows "bij_betw (\<lambda>nick. own_number sha256 (view nick) hash) (nick_name ` {u \<in> set users. is_client u})
    {..<length (filter is_client users)}"
proof -
  define nicks where "nicks = map nick_name (sort_key (client_key sha256 hash) (filter is_client users))"
  have "distinct (map nick_name (filter is_client users))" using assms(1) by (simp add: distinct_map_filter)
  then have "distinct nicks" by (auto simp: nicks_def distinct_map)
  moreover have "set nicks = nick_name ` {u \<in> set users. is_client u}" by (auto simp: nicks_def)
  moreover have "length nicks = length (filter is_client users)" by (simp add: nicks_def)
  ultimately show ?thesis
    using index_bij [of nicks] own_number_index [OF assms(2,3)] by (simp add: nicks_def)
qed

section \<open>Commands\<close>

lemma witness_command_read:
  assumes "data \<noteq> []" and "list_all any_char data" and "cmd = lit ''!w '' \<or> cmd = lit ''!witness ''"
  shows "match_start WITNESS_COMMAND_REGEX (cmd @ data) = Some [''data'' \<mapsto> data]"
proof -
  have "greedy any_char data
      (\<lambda>u rest. if u = [] then None else if rest = [] \<or> rest = [10] then Some [''data'' \<mapsto> u] else None) =
    Some [''data'' \<mapsto> data]"
    by (rule greedy_first [of any_char data "[]", unfolded append_Nil2]) (use assms(1,2) in simp_all)
  then show ?thesis
    using assms(3) by (auto simp: match_start_def WITNESS_COMMAND_REGEX_def)
qed

text \<open>
  A command is no reply.
\<close>

lemma command_no_reply:
  assumes "cmd = lit ''!w '' \<or> cmd = lit ''!witness ''"
  shows "match_start (fst (reply_formats kind)) (cmd @ data) = None"
  using assms by (cases kind) (auto simp: match_start_def WITNESS_REPLY_REGEX_def VALIDATE_REPLY_REGEX_def nick_char_def)

text \<open>
  The clients agree on the event: user and data are read off its preimage.
\<close>

lemma client_event_preimage:
  assumes "list_all is_scalar (user @ data)" "list_all is_scalar (user' @ data')"
    and "0 \<notin> set user" "0 \<notin> set user'"
    and "utf8_bytes (user @ [0] @ data) = utf8_bytes (user' @ [0] @ data')"
  shows "user = user' \<and> data = data'"
proof -
  have "user @ 0 # data = user' @ 0 # data'"
    using utf8_bytes_inject [of "user @ 0 # data" "user' @ 0 # data'"] assms by (simp add: is_scalar_def)
  then have "takeWhile (\<lambda>c. c \<noteq> 0) (user @ 0 # data) = takeWhile (\<lambda>c. c \<noteq> 0) (user' @ 0 # data')"
    and eq: "user @ 0 # data = user' @ 0 # data'" by simp_all
  moreover have "takeWhile (\<lambda>c. c \<noteq> 0) (u @ 0 # d) = u" if "0 \<notin> set u" for u d :: "nat list"
    using that by (induction u) auto
  ultimately have "user = user'" using assms(3,4) by metis
  then show ?thesis using eq by simp
qed

lemma command_no_help:
  assumes "cmd = lit ''!w '' \<or> cmd = lit ''!witness ''"
  shows "match_start HELP_COMMAND_REGEX (cmd @ data) = None"
  using assms by (auto simp: match_start_def HELP_COMMAND_REGEX_def nick_char_def)

text \<open>
  What becomes of a command. When a user says \<open>!w data\<close> or \<open>!witness data\<close>, and the node witnesses the event
  whose id is the hash of the user and the data, then the handlers of the client end well, the client
  knows who asked, and has an entry from which it replies. The node never refuses such an id as malformed.
\<close>

theorem irc_command_witnessed:
  assumes "data \<noteq> []" and "list_all any_char data" and cmd: "cmd = lit ''!w '' \<or> cmd = lit ''!witness ''"
    and "\<forall>m. length (be_sha256 env m) = 32"
    and "\<forall>node id. be_witness_event env node id = map_prod (map_sum rpc (\<lambda>u. u)) (\<lambda>n. n) (grpc_witness_event witness node id)"
    and "\<forall>kind. reply_regex (bt_repliers b kind) = fst (reply_formats kind)"
    and "as_bytes e = client_event_id (be_sha256 env) source data"
    and "witness (bt_node b) e = (Inr (), node')"
  shows "\<exists>b'. channel_received env users source (cmd @ data) b = (Inr (), [], b') \<and> bt_node b' = node' \<and>
    get_origin_user (bt_tracker b') (as_bytes e) = Some source \<and>
    fmlookup (reply_timers (bt_repliers b' WitnessReply)) (as_bytes e) \<noteq> None"
proof -
  have silent: "replier_received (bt_repliers b kind) (cmd @ data) = (Inr (), bt_repliers b kind)" for kind
    using assms(6) command_no_reply [OF cmd, of kind data] by (simp add: replier_received_def)
  have "be_witness_event env (bt_node b) (as_bytes e) = (Inr (), node')"
    using assms(5,8) by (simp add: grpc_witness_event_def)
  then have "witness_command env users source (cmd @ data) b =
      (Inr (), set_replier WitnessReply (send_reply (be_sha256 env) users (bt_repliers b WitnessReply) (as_bytes e))
        (b\<lparr>bt_node := node', bt_tracker := set_origin_user (bt_tracker b) (as_bytes e) source\<rparr>))"
    using witness_command_read [OF assms(1,2) cmd] assms(7) by (simp add: witness_command_def Let_def)
  moreover have "set_replier kind (bt_repliers b kind) b = b" for kind by (simp add: set_replier_def)
  ultimately show ?thesis
    using silent command_no_help [OF cmd, of data]
    by (simp add: channel_received_def bot_received_def help_command_def set_replier_def send_reply_def
        add_or_update_def get_origin_user_def set_origin_user_def)
qed

text \<open>
  A reply is read by the other clients, so that it cancels their timers, if the user's name is one of IRC.
\<close>

lemma irc_reply_read:
  assumes "hash \<noteq> []" and "is_nick user \<or> kind = ValidateReply \<and> user = lit ''<unknown user>''"
  shows "reads_reply kind (snd (reply_formats kind) (to_hex_string hash) user) hash"
  using assms witness_reply_read [of user hash] validate_reply_read [of user hash] validate_reply_unknown_read [of hash]
  by (cases kind) (auto simp: reads_reply_def)

text \<open>
  But what looks like a reply and has no hexadecimal number in it is an exception, and the handlers after
  that of the replier do not get the message.
\<close>

lemma irc_malformed_reply:
  assumes "is_nick user" and "ident \<noteq> []" and "list_all is_alnum_upper ident" and "from_hex_string ident = None"
    and "reply_regex (bt_repliers b WitnessReply) = WITNESS_REPLY_REGEX"
  shows "channel_received env users source (witness_reply_format ident user) b = (Inl FormatException, [], b)"
proof -
  have "rmatch (Cat (Lit (lit '': witnessing '')) (Cat (Group ''eventId'' (Plus is_alnum_upper)) (Cat (Lit (lit ''...'')) EndAnchor)))
      (lit '': witnessing '' @ ident @ lit ''...'') cs (\<lambda>v rest cs. Some cs) = Some (cs(''eventId'' \<mapsto> ident))" for cs
    unfolding lit_then by (rule group_plus_then) (use assms(2,3) in \<open>simp_all add: is_alnum_upper_def\<close>)
  then have "match_start WITNESS_REPLY_REGEX (witness_reply_format ident user) = Some [''nickname'' \<mapsto> user, ''eventId'' \<mapsto> ident]"
    unfolding match_start_def WITNESS_REPLY_REGEX_def witness_reply_format_def
    using assms(1) reply_starts by (intro group_plus_then) (simp_all only: is_nick_def simp_thms)
  then show ?thesis
    using assms(4,5) by (simp add: channel_received_def replier_received_def set_replier_def)
qed

section \<open>Streams\<close>

lemma read_items_other:
  assumes "h \<notin> set (concat (map vr_events items))"
  shows "fmlookup (reply_timers (bt_repliers (read_items env users items b) ValidateReply)) h =
    fmlookup (reply_timers (bt_repliers b ValidateReply)) h"
proof -
  have "fmlookup (reply_timers (bt_repliers (fold (validated_event env users) hs b) ValidateReply)) h =
      fmlookup (reply_timers (bt_repliers b ValidateReply)) h" if "h \<notin> set hs" for hs
    using that
  proof (induction hs arbitrary: b)
    case (Cons h' hs)
    then show ?case by (auto simp: validated_event_def set_replier_def send_reply_def add_or_update_def)
  qed simp
  then show ?thesis using assms by (simp add: read_items_def)
qed

lemma stream_take_blocks:
  assumes "Inr item \<in> set (stream_take fin n b)" and "unat b + n < 2 ^ 32"
  shows "\<exists>k events. fin k = Some (Inr events) \<and> vr_events item = map as_bytes events \<and> unat b \<le> unat k \<and> unat k < unat b + n"
  using assms
proof (induction n arbitrary: b)
  case (Suc n)
  have b1: "unat (b + 1) = unat b + 1"
    using Suc.prems(2) by (simp add: unat_word_ariths)
  consider events where "fin b = Some (Inr events)" "vr_events item = map as_bytes events"
    | "Inr item \<in> set (stream_take fin n (b + 1))"
    using Suc.prems(1) by (auto simp: stream_step_def Let_def split: option.splits sum.splits)
  then show ?case
  proof cases
    case 1
    then show ?thesis by (intro exI [of _ b] exI [of _ events]) simp
  next
    case 2
    from Suc.IH [OF this] show ?thesis using Suc.prems(2) b1 by fastforce
  qed
qed simp


section \<open>The start\<close>

text \<open>
  The user name the program registers with is one by which the clients find each other.
\<close>

lemma bot_is_client: "user_name u = Some (username_format nick) \<Longrightarrow> is_client u"
proof -
  have "greedy any_char s (\<lambda>u rest. Some cs) \<noteq> None" for s :: ustring and cs :: captures
    by (induction s) auto
  then have "match_start USERNAME_REGEX (username_format nick) \<noteq> None"
    by (simp add: match_start_def USERNAME_REGEX_def username_format_def)
  then show "user_name u = Some (username_format nick) \<Longrightarrow> is_client u"
    by (auto simp: is_client_def username_format_def split: option.splits)
qed

text \<open>
  A channel that is not joined in six attempts is the \<open>null\<close> on which the bot fails.
\<close>

lemma retries_exhausted:
  assumes "retries_law retry" and "\<And>w. fst (f w) = r" and "handles r"
  shows "fst (retry n handles f w) = r"
proof (induction n arbitrary: w)
  case 0
  show ?case
    using assms(2) [of w] by (subst assms(1) [unfolded retries_law_def, rule_format]) (auto split: prod.splits)
next
  case (Suc n)
  show ?case
    using assms(2) [of w] assms(3) Suc
    by (subst assms(1) [unfolded retries_law_def, rule_format]) (auto split: prod.splits)
qed

lemma irc_main_not_joined:
  assumes "retries_law retry_join" and "4 \<le> length arguments"
    and "retry_start 5 (\<lambda>r. r = Inl TimeoutException) (start_irc_client lib (arguments ! 1) (arguments ! 3)) w = (Inr irc_client, w1)"
    and "\<And>w. fst (join_irc_channel lib irc_client (arguments ! 2) w) = None"
  shows "fst (irc_main lib retry_start retry_join arguments w) = Inl NullReferenceException"
proof -
  let ?f = "\<lambda>w. case join_irc_channel lib irc_client (arguments ! 2) w of (c, w') \<Rightarrow> (Inr c, w')"
  have "fst (?f w) = Inr None" for w using assms(4) [of w] by (auto split: prod.splits)
  then have "fst (retry_join 5 (\<lambda>r. r = Inr None) ?f w1) = Inr None"
    by (intro retries_exhausted [OF assms(1)]) simp_all
  then show ?thesis
    using assms(2,3) by (cases "retry_join 5 (\<lambda>r. r = Inr None) ?f w1") (simp add: irc_main_def Let_def)
qed

section \<open>Examples\<close>

text \<open>
  A hash function of 32 bytes, clients on nodes that count the events they witness, and a retry policy.
\<close>

definition ref_sha :: "bytes \<Rightarrow> bytes" where
  "ref_sha m = take 32 (m @ replicate 32 0)"

definition counting_witness :: "nat \<Rightarrow> h256 \<Rightarrow> unit vs_result \<times> nat" where
  "counting_witness n e = (Inr (), n + 1)"

definition ref_bot_env :: "string \<Rightarrow> nat bot_env" where
  "ref_bot_env nick =
     \<lparr>be_sha256 = ref_sha, be_nick = lit nick,
      be_witness_event = (\<lambda>node id. map_prod (map_sum (\<lambda>_. RpcOther) (\<lambda>u. u)) (\<lambda>n. n) (grpc_witness_event counting_witness node id))\<rparr>"

definition ref_retry :: "'s \<Rightarrow> 's retry_policy" where
  "ref_retry d handles f s =
     (case while_option (\<lambda>(r, _). case r of Inl (Throws e) \<Rightarrow> handles e | _ \<Rightarrow> False) (\<lambda>(_, s). f s) (f s) of
        Some x \<Rightarrow> x | None \<Rightarrow> (Inl Waits, d))"

lemma ref_retry_law: "retry_forever_law (ref_retry d)"
  unfolding retry_forever_law_def
proof (intro allI)
  fix handles and f :: "'a \<Rightarrow> (irc_failure + unit) \<times> 'a" and s
  obtain r s' where f: "f s = (r, s')" by (cases "f s")
  show "ref_retry d handles f s =
    (case f s of
       (Inl (Throws e), s') \<Rightarrow> if handles e then ref_retry d handles f s' else (Inl (Throws e), s')
     | (r, s') \<Rightarrow> (r, s'))"
    unfolding ref_retry_def
    by (subst while_option_unfold) (auto simp: f split: sum.splits irc_failure.splits)
qed

lemma length_ref_sha: "length (ref_sha m) = 32"
  by (simp add: ref_sha_def)

definition ref_envs :: "nat \<Rightarrow> nat bot_env" where
  "ref_envs i = ref_bot_env (if i = 0 then ''bob'' else ''eve'')"

text \<open>
  One client gets a validated event.
\<close>

definition ref_validated :: "nat irc_state" where
  "ref_validated = (let s = irc_start (\<lambda>_. 0) in set_bot 0 (validated_event (ref_envs 0) [] [7] (ic_bots s 0)) s)"

lemma ref_validated_step: "(irc_step ref_envs)\<^sup>*\<^sup>* (irc_start (\<lambda>_. 0)) ref_validated"
  unfolding ref_validated_def Let_def by (rule r_into_rtranclp) (rule irc_step.validated)

lemma ref_validated_entry:
  "timer_entry ref_validated 0 ValidateReply [7] = Some (Some \<lparr>tm_slot = own_number ref_sha [] [7], tm_expired = False\<rparr>)"
  by (simp add: timer_entry_def ref_validated_def set_bot_def irc_start_def new_bot_def validated_event_def set_replier_def
      send_reply_def add_or_update_def new_replier_def ref_envs_def ref_bot_env_def)

lemma ref_validated_log: "ic_log ref_validated = []" "ic_replies ref_validated = []"
  by (simp_all add: ref_validated_def set_bot_def irc_start_def)

theorem irc_replies_answered_witness:
  "\<exists>s'. (irc_step ref_envs)\<^sup>*\<^sup>* ref_validated s' \<and> answered ValidateReply [7] (ic_log s') \<and>
    ic_replies s' = [(0, ValidateReply, [7])]"
  using irc_replies_answered [OF ref_validated_step, of 0 ValidateReply "[7]"]
  by (simp add: ref_validated_entry ref_validated_log answered_def [of _ _ "[]"])

lemma replied_settled:
  assumes "irc_ok s" and "(i, kind, h) \<in> set (ic_replies s)"
  shows "settled s i kind h"
  using irc_ok_entry [OF assms(1), of kind h i] assms(2)
  by (auto simp: entry_ok_def settled_def replier_settled_def timer_entry_def split: option.splits)

lemma ref_replied: "\<exists>s. (irc_step ref_envs)\<^sup>*\<^sup>* (irc_start (\<lambda>_. 0)) s \<and> ic_replies s = [(0, ValidateReply, [7])]"
proof -
  obtain r where r: "timer_expires (bt_repliers (ic_bots ref_validated 0) ValidateReply) [7] = Some r" "[7] \<in> set (timer_queue r)"
    using ref_validated_entry by (simp add: timer_expires_def timer_entry_def)
  let ?s = "set_bot 0 (set_replier ValidateReply r (ic_bots ref_validated 0)) ref_validated"
  have step: "irc_step ref_envs ref_validated ?s" using r(1) by (rule irc_step.expires)
  have q: "[7] \<in> set (timer_queue (bt_repliers (ic_bots ?s 0) ValidateReply))"
    using r(2) by (simp add: set_bot_def set_replier_def)
  from callback_answers [OF irc_ok_step [OF step irc_ok_reachable [OF ref_validated_step]] q, of ref_envs]
  obtain s' where "irc_step ref_envs ?s s'" "ic_replies s' = [(0, ValidateReply, [7])]"
    by (auto simp: set_bot_def ref_validated_log)
  then show ?thesis using ref_validated_step step by (meson rtranclp.rtrancl_into_rtrancl)
qed


definition two_clients :: "channel_user list" where
  "two_clients =
     [\<lparr>user_name = Some (lit ''vs-bob''), nick_name = lit ''bob'', is_local = False\<rparr>,
      \<lparr>user_name = Some (lit ''vs-eve''), nick_name = lit ''eve'', is_local = False\<rparr>,
      \<lparr>user_name = None, nick_name = lit ''user'', is_local = False\<rparr>]"

lemma two_clients_filter: "filter is_client two_clients = take 2 two_clients"
  by (simp add: two_clients_def is_client_def USERNAME_REGEX_def match_start_def any_char_def)

theorem irc_slots_witness:
  "bij_betw (\<lambda>nick. own_number ref_sha (rev (map (seen_by nick) two_clients)) [7]) {lit ''bob'', lit ''eve''} {..<2}"
proof -
  have clients: "{u \<in> set two_clients. is_client u} = set (take 2 two_clients)"
    unfolding two_clients_filter [symmetric] by auto
  have "inj_on (client_key ref_sha [7]) {u \<in> set two_clients. is_client u}"
    unfolding clients
    by (simp add: two_clients_def client_key_def utf8_bytes_def utf8_char_def ref_sha_def inj_on_def)
  moreover have "distinct (map nick_name two_clients)" by (simp add: two_clients_def)
  moreover have "mset (rev (map (seen_by nick) two_clients)) = mset (map (seen_by nick) two_clients)" for nick by simp
  ultimately have "bij_betw (\<lambda>nick. own_number ref_sha (rev (map (seen_by nick) two_clients)) [7])
      (nick_name ` {u \<in> set two_clients. is_client u}) {..<length (filter is_client two_clients)}"
    by (intro irc_slots) simp_all
  then show ?thesis unfolding clients two_clients_filter by (simp add: two_clients_def numeral_2_eq_2)
qed

theorem irc_command_witnessed_witness:
  "\<exists>b'. channel_received (ref_bot_env ''bob'') two_clients (lit ''user'') (lit ''!w hello'') (new_bot 0) = (Inr (), [], b') \<and>
    bt_node b' = 1 \<and>
    get_origin_user (bt_tracker b') (client_event_id ref_sha (lit ''user'') (lit ''hello'')) = Some (lit ''user'')"
proof -
  define e where "e = h256_of_bytes (client_event_id ref_sha (lit ''user'') (lit ''hello''))"
  have e: "as_bytes e = client_event_id (be_sha256 (ref_bot_env ''bob'')) (lit ''user'') (lit ''hello'')"
    by (simp add: e_def h256_of_bytes_inverse client_event_id_def length_ref_sha ref_bot_env_def)
  have "\<exists>b'. channel_received (ref_bot_env ''bob'') two_clients (lit ''user'') (lit ''!w '' @ lit ''hello'') (new_bot 0) = (Inr (), [], b') \<and>
      bt_node b' = 1 \<and> get_origin_user (bt_tracker b') (as_bytes e) = Some (lit ''user'') \<and>
      fmlookup (reply_timers (bt_repliers b' WitnessReply)) (as_bytes e) \<noteq> None"
    by (rule irc_command_witnessed [where rpc = "\<lambda>_. RpcOther" and witness = counting_witness, OF _ _ _ _ _ _ e])
      (simp_all add: any_char_def ref_bot_env_def length_ref_sha new_bot_def new_replier_def counting_witness_def)
  then show ?thesis unfolding e by (auto simp: ref_bot_env_def)
qed

definition ref_finalized :: "u32 \<Rightarrow> h256 list vs_result option" where
  "ref_finalized k = Some (Inr (if k = 5 then [repeat_byte 9] else []))"


end
