(* ===== verification/Repo_Tests.thy ===== *)
theory Repo_Tests
  imports Instances
begin

text \<open>
  The tests of the consensus crate, run in the model: \<open>src/consensus/src/proofs/tests.rs\<close> on the three stores,
  \<open>events/tests.rs\<close> and \<open>gossip/tests.rs\<close>. A test of the first two is a function of what it is run on, and passes
  when it is true; the stores are those of the tests: new, and empty. That of the gossip is about the runs
  of its two services.
\<close>

section \<open>Stores\<close>

definition validator_list :: "crypto_pair list" where
  "validator_list = [ref_from_id (key_of 1)]"

definition new_validator_list :: "crypto_pair list" where
  "new_validator_list = [ref_from_id (key_of 2)]"

definition create_witnessed_event :: "h256 \<Rightarrow> witnessed_event" where
  "create_witnessed_event event_id =
     \<lparr>we_signature = [], we_pub_key = ref_from_id (key_of 1), we_event_id = event_id\<rparr>"

definition test_add_event_proof :: "'s event_proofs_ops \<Rightarrow> 's \<Rightarrow> bool" where
  "test_add_event_proof ops s =
     (let w = create_witnessed_event (repeat_byte 1)
      in (case ep_add ops s w of (r, s1) \<Rightarrow> \<not> isl r \<and> \<not> isl (fst (ep_add ops s1 w))))"

definition test_get_proof_count :: "'s event_proofs_ops \<Rightarrow> 's \<Rightarrow> bool" where
  "test_get_proof_count ops s =
     (let event_id = repeat_byte 1; s1 = snd (ep_add ops s (create_witnessed_event event_id))
      in ep_count ops s event_id validator_list = Inr 0 \<and>
         ep_count ops s1 event_id validator_list = Inr 1 \<and>
         ep_count ops s1 event_id new_validator_list = Inr 0)"

definition test_get_proof_proofs :: "'s event_proofs_ops \<Rightarrow> 's \<Rightarrow> bool" where
  "test_get_proof_proofs ops s =
     (let event_id = repeat_byte 1; w = create_witnessed_event event_id; s1 = snd (ep_add ops s w)
      in ep_get ops s event_id validator_list = Inr fmempty \<and>
         (case ep_get ops s1 event_id validator_list of
            Inl e \<Rightarrow> False
          | Inr proofmap \<Rightarrow> hm_len proofmap = 1 \<and> fmlookup proofmap (hd validator_list) = Some (we_signature w)) \<and>
         ep_get ops s1 event_id new_validator_list = Inr fmempty)"

definition test_remove_stale_events :: "'s event_proofs_ops \<Rightarrow> 's \<Rightarrow> bool" where
  "test_remove_stale_events ops s =
     (let event_id = repeat_byte 1; s1 = snd (ep_add ops s (create_witnessed_event event_id))
      in (case ep_purge ops s1 event_id validator_list of (r2, s2) \<Rightarrow>
           \<not> isl r2 \<and> ep_count ops s2 event_id validator_list = Inr 1 \<and>
           (case ep_purge ops s2 event_id new_validator_list of (r3, s3) \<Rightarrow>
             \<not> isl r3 \<and> ep_count ops s3 event_id validator_list = Inr 0)))"

definition store_tests :: "'s event_proofs_ops \<Rightarrow> 's \<Rightarrow> bool" where
  "store_tests ops s \<longleftrightarrow>
     test_add_event_proof ops s \<and> test_get_proof_count ops s \<and> test_get_proof_proofs ops s \<and> test_remove_stale_events ops s"

section \<open>Stores that work\<close>

text \<open>
  What the tests rely on besides the contract of a store: that its operations succeed.
\<close>

locale working_store = event_proofs_trait +
  assumes add_ok: "invar s \<Longrightarrow> fst (add_event_proof s w) = Inr ()"
    and get_ok: "invar s \<Longrightarrow> \<not> isl (get_event_proofs s e vs)"
    and count_ok: "invar s \<Longrightarrow> \<not> isl (get_event_proof_count s e vs)"
    and purge_ok: "invar s \<Longrightarrow> fst (purge_event_stale_signatures s e vs) = Inr ()"
begin

lemma count_one:
  assumes "invar s"
  shows "get_event_proof_count s e [k] = Inr (if proof_of s e k = None then 0 else 1)"
proof -
  obtain m n where m: "get_event_proofs s e [k] = Inr m" and n: "get_event_proof_count s e [k] = Inr n"
    using get_ok [OF assms, of e "[k]"] count_ok [OF assms, of e "[k]"]
    by (cases "get_event_proofs s e [k]"; cases "get_event_proof_count s e [k]") auto
  have "{k' \<in> set [k]. proof_of s e k' \<noteq> None} = (if proof_of s e k = None then {} else {k})" by auto
  then have "unat n = (if proof_of s e k = None then 0 else 1)"
    using count_eq [OF assms m n] get_len [OF assms m] by simp
  then have "n = (if proof_of s e k = None then 0 else 1)" by (simp add: word_unat_eq_iff split: if_splits)
  then show ?thesis using n by simp
qed

lemma get_one:
  assumes "invar s"
  shows "get_event_proofs s e [k] = Inr (case proof_of s e k of None \<Rightarrow> fmempty | Some g \<Rightarrow> fmupd k g fmempty)"
proof -
  obtain m where m: "get_event_proofs s e [k] = Inr m"
    using get_ok [OF assms, of e "[k]"] by (cases "get_event_proofs s e [k]") auto
  have "fmlookup m = fmlookup (case proof_of s e k of None \<Rightarrow> fmempty | Some g \<Rightarrow> fmupd k g fmempty)"
    using get_spec [OF assms m] by (auto simp: fun_eq_iff split: option.splits)
  then show ?thesis using m by (simp add: fmlookup_inject)
qed

text \<open>
  All tests pass on an empty store.
\<close>

lemma tests_pass:
  assumes s: "invar s" and empty: "\<And>e k. proof_of s e k = None"
    and ops: "ops = store_ops add_event_proof get_event_proofs get_event_proof_count purge_event_stale_signatures"
  shows "test_add_event_proof ops s" and "test_get_proof_count ops s" and "test_get_proof_proofs ops s"
    and "test_remove_stale_events ops s"
proof -
  define w where "w = create_witnessed_event (repeat_byte 1)"
  define k1 k2 where "k1 = ref_from_id (key_of 1)" and "k2 = ref_from_id (key_of 2)"
  have w: "we_event_id w = repeat_byte 1" "we_pub_key w = k1" "we_signature w = []" and k: "k1 \<noteq> k2"
    by (simp_all add: w_def k1_def k2_def create_witnessed_event_def)
  obtain s1 where s1: "add_event_proof s w = (Inr (), s1)" using add_ok [OF s, of w] by (metis prod.collapse)
  have inv1: "invar s1" by (rule add_invar [OF s s1])
  have p1: "proof_of s1 (repeat_byte 1) k1 = Some []" "proof_of s1 (repeat_byte 1) k2 = None"
    using add_stores [OF s s1] add_sound [OF s s1, of "repeat_byte 1" k1] add_sound [OF s s1, of "repeat_byte 1" k2] empty w k
    by auto
  obtain s2 where s2: "purge_event_stale_signatures s1 (repeat_byte 1) [k1] = (Inr (), s2)"
    using purge_ok [OF inv1, of "repeat_byte 1" "[k1]"] by (metis prod.collapse)
  have inv2: "invar s2" by (rule purge_invar [OF inv1 s2])
  have p2: "proof_of s2 (repeat_byte 1) k1 \<noteq> None"
    using purge_sound [OF inv1 s2, of "repeat_byte 1" k1] p1(1) by auto
  obtain s3 where s3: "purge_event_stale_signatures s2 (repeat_byte 1) [k2] = (Inr (), s3)"
    using purge_ok [OF inv2, of "repeat_byte 1" "[k2]"] by (metis prod.collapse)
  have inv3: "invar s3" by (rule purge_invar [OF inv2 s3])
  have p3: "proof_of s3 (repeat_byte 1) k1 = None" using purge_drops [OF inv2 s3, of k1] k by simp
  note keys = validator_list_def new_validator_list_def w_def [symmetric] k1_def [symmetric] k2_def [symmetric]
  show "test_add_event_proof ops s"
    using add_ok [OF inv1, of w] by (simp add: test_add_event_proof_def ops keys s1)
  show "test_get_proof_count ops s"
    using count_one [OF s] count_one [OF inv1] empty p1 by (simp add: test_get_proof_count_def ops keys s1 Let_def)
  show "test_get_proof_proofs ops s"
    using get_one [OF s] get_one [OF inv1] empty p1 w
    by (simp add: test_get_proof_proofs_def ops keys s1 hm_len_card Let_def)
  show "test_remove_stale_events ops s"
    using count_one [OF inv2] count_one [OF inv3] p2 p3
    by (simp add: test_remove_stale_events_def ops keys s1 s2 s3 Let_def)
qed

end

text \<open>
  The in-memory store whose lock is not poisoned, the offchain store, and the database store on a database
  that does not fail.
\<close>

interpretation imw: working_store in_memory_add in_memory_get in_memory_count in_memory_purge
  in_memory_proof "\<lambda>s. \<not> im_poisoned s"
proof (unfold_locales, goal_cases)
  case (2 s w r s' e k)
  then show ?case using im.add_sound by blast
next
  case (3 s w s')
  then show ?case using im.add_stores by blast
next
  case (4 s e vs m k)
  then show ?case using im.get_spec by blast
next
  case (5 s e vs n)
  then show ?case using im.count_le by blast
next
  case (6 s e vs m n)
  then show ?case using im.count_eq by blast
next
  case (8 s e vs r s' e' k)
  then show ?case using im.purge_sound by blast
next
  case (9 s e vs s' k)
  then show ?case using im.purge_drops by blast
qed (auto simp: in_memory_defs in_memory_count_get split: if_splits option.splits)

interpretation ocw: working_store "offchain_add os bc []" "offchain_get os bc" "offchain_count os bc"
  "offchain_purge os bc []" "offchain_proof os bc" "offchain_invar os bc" for os bc
proof (unfold_locales, goal_cases)
  case (1 s w)
  then show ?case by (rule offchain_add_alone [of os bc s w]) simp
next
  case (2 s e vs)
  then have "bincode_laws bc" by (simp add: offchain_invar_def)
  then show ?case by (rule offchain_get_eq [of bc os s e vs]) simp
next
  case (3 s e vs)
  then show ?case by (simp add: offchain_invar_def offchain_count_eq)
next
  case (4 s e vs)
  then show ?case by (rule offchain_purge_alone [of os bc s e vs]) simp
qed

definition rocksdb_healthy :: "'db rocksdb \<Rightarrow> bool" where
  "rocksdb_healthy ops \<longleftrightarrow>
     (\<forall>db k v. fst (db_put ops db k v) = Inr ()) \<and> (\<forall>db k. fst (db_delete ops db k) = Inr ()) \<and>
     (\<forall>db ks e. Inl e \<notin> set (db_multi_get ops db ks)) \<and> (\<forall>db p e. Inl e \<notin> set (db_prefix_iterator ops db p))"

lemma collect_proofs_ok: "(\<And>e. Inl e \<notin> snd ` set rs) \<Longrightarrow> \<not> isl (collect_proofs rs)"
proof (induction rs rule: collect_proofs.induct)
  case (2 k g rs)
  then have "\<not> isl (collect_proofs rs)" by force
  then show ?case by (cases "collect_proofs rs") auto
qed force+

lemma rocksdb_purge_loop_healthy:
  assumes "bincode_laws bc" and healthy: "rocksdb_healthy ops" and "proof_entries bc rs" and "\<And>e. Inl e \<notin> set rs"
  shows "fst (rocksdb_purge_loop ops bc vs db rs) = Inr ()"
  using assms(3,4)
proof (induction rs arbitrary: db)
  case (Cons x rs)
  have rs: "proof_entries bc rs" "\<And>e. Inl e \<notin> set rs" using Cons.prems by auto
  obtain key v where x: "x = Inr (key, v)" using Cons.prems(2) by (cases x) auto
  then obtain e k where key: "proof_key bc e k = Inr key" using Cons.prems(1) by (metis list.set_intros(1))
  obtain b where b: "key = as_bytes e @ b" "de_pair bc b = Inr k"
    using key proof_keyE [OF assms(1), of e k] by (metis Inr_inject)
  have "fst (db_delete ops db key) = Inr ()" using healthy by (simp add: rocksdb_healthy_def)
  then show ?case using Cons.IH [OF rs] x b by (auto split: prod.splits)
qed simp

interpretation rdw: working_store "rocksdb_add ops bc" "rocksdb_get ops bc" "rocksdb_count ops bc"
  "rocksdb_purge ops bc" "rocksdb_proof ops bc" "\<lambda>db. rocksdb_invar ops bc db \<and> rocksdb_healthy ops" for ops bc
proof (unfold_locales, goal_cases)
  case (1 s w r s')
  then show ?case using rd.add_invar [of ops bc s w r s'] by simp
next
  case (2 s w r s' e k)
  then show ?case using rd.add_sound [OF conjunct1 [OF 2(1)] 2(2)] by simp
next
  case (3 s w s')
  then show ?case using rd.add_stores [OF conjunct1 [OF 3(1)] 3(2)] by simp
next
  case (4 s e vs m k)
  then show ?case using rd.get_spec [OF conjunct1 [OF 4(1)] 4(2)] by simp
next
  case (5 s e vs n)
  then show ?case using rd.count_le [OF conjunct1 [OF 5(1)] 5(2,3)] by simp
next
  case (6 s e vs m n)
  then show ?case using rd.count_eq [OF conjunct1 [OF 6(1)] 6(2-5)] by simp
next
  case (7 s e vs r s')
  then show ?case using rd.purge_invar [of ops bc s e vs r s'] by simp
next
  case (8 s e vs r s' e' k)
  then show ?case using rd.purge_sound [OF conjunct1 [OF 8(1)] 8(2)] by simp
next
  case (9 s e vs s' k)
  then show ?case using rd.purge_drops [OF conjunct1 [OF 9(1)] 9(2,3)] by simp
next
  case (10 s w)
  then have bc: "bincode_laws bc" by (simp add: rocksdb_invar_def)
  obtain b where "proof_key bc (we_event_id w) (we_pub_key w) = Inr (as_bytes (we_event_id w) @ b)"
    by (rule proof_keyE [OF bc])
  then show ?case using 10 by (simp add: rocksdb_add_def rocksdb_healthy_def question_def case_prod_unfold)
next
  case (11 s e vs)
  then have laws: "rocksdb_laws ops" "bincode_laws bc" by (simp_all add: rocksdb_invar_def)
  obtain keys where keys: "rocksdb_keys bc e vs = Inr keys" by (rule rocksdb_answers [OF laws])
  have "Inl err \<notin> snd ` set (zip vs (db_multi_get ops s keys))" for err
    using 11 by (auto simp: rocksdb_healthy_def) (metis set_zip_rightD)
  then have "\<not> isl (collect_proofs (zip vs (db_multi_get ops s keys)))" by (rule collect_proofs_ok)
  then show ?case
    using keys by (cases "collect_proofs (zip vs (db_multi_get ops s keys))") (simp_all add: rocksdb_get_def)
next
  case (12 s e vs)
  then have laws: "rocksdb_laws ops" "bincode_laws bc" by (simp_all add: rocksdb_invar_def)
  obtain keys where keys: "rocksdb_keys bc e vs = Inr keys" by (rule rocksdb_answers [OF laws])
  then show ?case by (simp add: rocksdb_count_def)
next
  case (13 s e vs)
  then have laws: "rocksdb_laws ops" "bincode_laws bc" by (simp_all add: rocksdb_invar_def)
  have "proof_entries bc (db_prefix_iterator ops s (as_bytes e))"
    using 13 rocksdb_iterator_law(1) [OF laws(1)] by (meson rocksdb_invar_def)
  then show ?case
    unfolding rocksdb_purge_def using 13 laws(2)
    by (intro rocksdb_purge_loop_healthy) (auto simp: rocksdb_healthy_def)
qed

section \<open>Signatures and the threshold\<close>

definition test_verify_events :: "sr25519 \<Rightarrow> bytes \<Rightarrow> bytes \<Rightarrow> bool" where
  "test_verify_events sr key signature =
     (let w = \<lparr>we_signature = signature, we_pub_key = ref_from_id key, we_event_id = repeat_byte 0\<rparr>;
          block_state = \<lparr>authorities = [ref_from_id key]\<rparr>
      in verify_witnessed_event_origin sr block_state w = Inr w \<and>
         isl (verify_witnessed_event_origin sr block_state (w\<lparr>we_signature := []\<rparr>)) \<and>
         isl (verify_witnessed_event_origin sr block_state (w\<lparr>we_signature := signature @ [8]\<rparr>)) \<and>
         8 < length signature \<and> signature ! 8 \<noteq> - 1 \<and>
         isl (verify_witnessed_event_origin sr block_state (w\<lparr>we_signature := signature[8 := signature ! 8 + 1]\<rparr>)) \<and>
         isl (verify_witnessed_event_origin sr block_state (w\<lparr>we_pub_key := ref_from_id (key_of 0)\<rparr>)) \<and>
         isl (verify_witnessed_event_origin sr \<lparr>authorities = []\<rparr> w))"

definition test_calculate_target :: "u8 \<Rightarrow> u16 \<Rightarrow> bool" where
  "test_calculate_target validator_count tgt =
     (target \<lparr>authorities = map (\<lambda>x. ref_from_id (key_of (of_nat x))) [0..<unat validator_count]\<rparr> = tgt)"

text \<open>
  The signature the test changes is a correct one, and the scheme accepts neither texts of another length
  nor the signature with one byte changed. The test adds one to the ninth byte of the signature, and the
  addition is checked in a test build: the test passes unless that byte is 255.
\<close>

lemma verify_events_test:
  assumes "signed_by sr (ref_from_id key) (repeat_byte 0) signature" and "key \<noteq> key_of 0"
    and "signature_from_slice sr [] = None" and "signature_from_slice sr (signature @ [8]) = None"
    and "\<not> signed_by sr (ref_from_id key) (repeat_byte 0) (signature[8 := signature ! 8 + 1])" and "8 < length signature"
  shows "test_verify_events sr key signature \<longleftrightarrow> signature ! 8 \<noteq> - 1"
proof -
  have "isl (verify_witnessed_event_origin sr al w)"
    if "we_pub_key w \<notin> set (authorities al) \<or> \<not> signed_by sr (we_pub_key w) (we_event_id w) (we_signature w)" for al w
    using verify_origin_total [of sr al w] that verify_origin_Inr [of sr al w w] by (metis isl_def)
  moreover have "\<not> signed_by sr k e []" "\<not> signed_by sr k e (signature @ [8])" for k e
    using assms(3,4) by (auto simp: signed_by_def split: option.splits)
  ultimately show ?thesis
    using assms by (simp add: test_verify_events_def verify_origin_Inr Let_def)
qed

lemma calculate_target_tests:
  "test_calculate_target 3 3" "test_calculate_target 4 3" "test_calculate_target 5 4" "test_calculate_target 6 5"
  "test_calculate_target 10 7"
  by (simp_all add: test_calculate_target_def target_def as_u16_def Let_def)

section \<open>Gossip\<close>

text \<open>
  The test of the gossip (\<open>src/consensus/src/gossip/tests.rs\<close>) with its handler, which keeps the events it gets. The
  first service is asked to listen, to dial itself and then the other one, and to publish; gossipsub does
  not hand it its own message, and hands the other one the message once. Both handlers then have the event once.
\<close>

definition mock_topics :: "string list" where
  "mock_topics = [''WitnessedEvent'']"

definition mock_gossip_handle :: "bincode \<Rightarrow> ('v, witnessed_event list) message_handler" where
  "mock_gossip_handle bc v events message =
     (Inr (), case de_event bc message of Inr witnessed_event \<Rightarrow> events @ [witnessed_event] | Inl e \<Rightarrow> events)"

definition self_orders :: "multiaddr \<Rightarrow> multiaddr \<Rightarrow> bytes \<Rightarrow> gossip_order list" where
  "self_orders self_addr peer_mock_addr message =
     ch_orders (publish (connect_to (connect_to (listen gossip_create self_addr) [self_addr]) [peer_mock_addr])
       ''WitnessedEvent'' message)"

interpretation mkh: gossip_handler_trait "mock_gossip_handle bc" "\<lambda>_. True" "\<lambda>_. True"
  for bc
  by unfold_locales (auto simp: mock_gossip_handle_def)

fun sent_messages :: "gossip_order list \<Rightarrow> bytes list" where
  "sent_messages [] = []"
| "sent_messages (SendMessage topic m # os) = m # sent_messages os"
| "sent_messages (_ # os) = sent_messages os"

fun received_messages :: "('v, 'peer) gossip_label list \<Rightarrow> bytes list" where
  "received_messages [] = []"
| "received_messages (TookEvent v (GossipsubMessage m) # ls) = m # received_messages ls"
| "received_messages (_ # ls) = received_messages ls"

lemma own_messages: "received_messages ls = [] \<Longrightarrow> map snd (messages ls) = sent_messages (taken ls)"
  by (induction ls rule: messages.induct) auto

lemma foreign_messages: "sent_messages (taken ls) = [] \<Longrightarrow> map snd (messages ls) = received_messages ls"
  by (induction ls rule: messages.induct) auto

lemma mock_run:
  fixes ls :: "('v, 'peer) gossip_label list"
  assumes "gossip_run ops (mock_gossip_handle bc) (run_service ops swarm gossip_create mock_topics []) ls s"
    and "ch_orders (gs_channel s) = []"
  shows "taken ls = sent ls" and "deliver_all (mock_gossip_handle bc) [] (messages ls) = (Inr (), gs_handler s)"
proof -
  have "label_seen (\<lambda>_. True) l" for l :: "('v, 'peer) gossip_label" by (cases l) simp_all
  then have seen: "list_all (label_seen (\<lambda>_. True)) ls" by (simp add: list_all_iff)
  have "live (\<lambda>_. True) (run_service ops swarm gossip_create mock_topics [])"
    by (simp add: live_def run_service_def gossip_create_def)
  note run = mkh.run_live [OF assms(1) this seen]
  show "taken ls = sent ls" and "deliver_all (mock_gossip_handle bc) [] (messages ls) = (Inr (), gs_handler s)"
    using run assms(2) by (simp_all add: run_service_def gossip_create_def)
qed

lemma self_message_test:
  assumes "bincode_laws bc" and "ser_event bc w = Inr m"
    and "gossip_run ops (mock_gossip_handle bc) (run_service ops swarm gossip_create mock_topics []) ls s"
    and "sent ls = self_orders self_addr peer_addr m" and "ch_orders (gs_channel s) = []" and "received_messages ls = []"
    and "gossip_run ops (mock_gossip_handle bc) (run_service ops swarm gossip_create mock_topics []) ls' s'"
    and "sent ls' = [Listen peer_addr]" and "ch_orders (gs_channel s') = []" and "received_messages ls' = [m]"
  shows "gs_handler s = [w]" and "gs_handler s' = [w]"
proof -
  have de: "de_event bc m = Inr w" by (rule bincode_eventE [OF assms(1), of w]) (use assms(2) in simp)
  have one: "h = [w]" if "map snd ms = [m]" "deliver_all (mock_gossip_handle bc) [] ms = (Inr (), h)" for ms and h
    using that de by (cases ms) (auto simp: mock_gossip_handle_def)
  note own = mock_run [OF assms(3,5)] and other = mock_run [OF assms(7,9)]
  have "map snd (messages ls) = [m]"
    using own_messages [OF assms(6)] own(1) assms(4)
    by (simp add: self_orders_def publish_def connect_to_def listen_def send_order_def gossip_create_def)
  then show "gs_handler s = [w]" using own(2) by (rule one)
  have "map snd (messages ls') = [m]" using foreign_messages [of ls'] other(1) assms(8,10) by simp
  then show "gs_handler s' = [w]" using other(2) by (rule one)
qed

section \<open>Properties\<close>

text \<open>
  C29. The tests of the stores pass in the model, on all three: the in-memory store, the offchain store on any
  storage that meets its laws, and the database store on any database that meets its laws and does not
  fail, each of them empty.
\<close>

theorem store_tests_pass:
  assumes "\<not> im_poisoned m" and "\<And>e k. in_memory_proof m e k = None"
    and "offchain_invar os bc st" and "\<And>e k. offchain_proof os bc st e k = None"
    and "rocksdb_invar ops bc db" and "rocksdb_healthy ops" and "\<And>e k. rocksdb_proof ops bc db e k = None"
  shows "store_tests (store_ops in_memory_add in_memory_get in_memory_count in_memory_purge) m \<and>
    store_tests (offchain_ops os bc) st \<and>
    store_tests (store_ops (rocksdb_add ops bc) (rocksdb_get ops bc) (rocksdb_count ops bc) (rocksdb_purge ops bc)) db"
  using imw.tests_pass [OF assms(1,2) refl] ocw.tests_pass [OF assms(3,4) offchain_ops_def]
    rdw.tests_pass [OF conjI [OF assms(5,6)] assms(7) refl]
  by (simp add: store_tests_def)

lemma ref_rocksdb_healthy: "rocksdb_healthy (ref_rocksdb False)"
  by (auto simp: rocksdb_healthy_def ref_rocksdb_def)

theorem store_tests_pass_witness:
  "store_tests (store_ops in_memory_add in_memory_get in_memory_count in_memory_purge) in_memory_new \<and>
   store_tests (offchain_ops ref_storage ref_bincode) (\<lambda>_. None) \<and>
   store_tests (store_ops (rocksdb_add (ref_rocksdb False) ref_bincode) (rocksdb_get (ref_rocksdb False) ref_bincode)
     (rocksdb_count (ref_rocksdb False) ref_bincode) (rocksdb_purge (ref_rocksdb False) ref_bincode)) fmempty"
proof (rule store_tests_pass)
  show "offchain_invar ref_storage ref_bincode (\<lambda>_. None)" by (rule ref_storage_empty)
  show "rocksdb_invar (ref_rocksdb False) ref_bincode fmempty" by (rule ref_rocksdb_invar) simp
  show "rocksdb_healthy (ref_rocksdb False)" by (rule ref_rocksdb_healthy)
qed (simp_all add: in_memory_new_def in_memory_proof_def offchain_proof_def rocksdb_proof_def ref_storage_def
    ref_rocksdb_def split: sum.split)

end
