(* ===== verification/Pallet_Tests.thy ===== *)
theory Pallet_Tests
  imports Pallet_Properties "HOL-Library.Monad_Syntax"
begin

text \<open>
  The tests of the pallet (\<open>src/pallet/src/tests.rs\<close>) on the mock runtime, as functions into \<open>bool\<close>, and that
  they pass. A failed assertion and a panic are both \<open>None\<close> of the option monad. The parts of FRAME the
  tests use are parameters with \<open>test_system_laws\<close>. One of the tests corrupts a signature by adding one
  to its first byte; that the addition does not overflow and that the signature is then wrong is due to
  the encoding of the group: the first byte of a correct signature is even (\<open>even_signatures\<close>).
\<close>

section \<open>Test externalities\<close>

record 'sys test_system =
  ts_genesis :: 'sys
  ts_set_block_number :: "'sys \<Rightarrow> u32 \<Rightarrow> 'sys"
  ts_last_event :: "'sys \<Rightarrow> pallet_event option"

definition test_system_laws :: "'sys frame_system \<Rightarrow> 'sys test_system \<Rightarrow> bool" where
  "test_system_laws fs ts \<longleftrightarrow>
     (\<forall>s n. fs_block_number fs (ts_set_block_number ts s n) = n) \<and>
     (\<forall>s event. fs_block_number fs s \<noteq> 0 \<longrightarrow> ts_last_event ts (fs_deposit_event fs s event) = Some event)"

definition even_signatures :: "sr25519 \<Rightarrow> bool" where
  "even_signatures sr \<longleftrightarrow>
     (\<forall>k m g. sr_verify sr k m g \<longrightarrow> (\<exists>b bs. signature_bytes g = b # bs \<and> even b))"

definition new_offchain_ext :: "'sys test_system \<Rightarrow> 'sys offchain_pallet" where
  "new_offchain_ext ts = \<lparr>streams = fmempty, off_system = ts_genesis ts\<rparr>"

record ('sys, 'ks) test_env =
  te_frame :: "'sys frame_system"
  te_system :: "'sys test_system"
  te_sr25519 :: sr25519
  te_keystore :: "'ks test_keystore"
  te_try_into :: "btree_proofs \<Rightarrow> btree_proofs option"

text \<open>
  The storage of a test, with the parameter \<open>AuthoritiesCount\<close>, and the static variables of the mock runtime.
\<close>

record ('sys, 'ks) test_ext =
  tx_pallet :: "'sys onchain_pallet"
  tx_authorities_count :: u16
  tx_mock :: "'ks mock"

definition new_test_ext :: "('sys, 'ks) test_env \<Rightarrow> 'ks mock \<Rightarrow> ('sys, 'ks) test_ext" where
  "new_test_ext te m =
     \<lparr>tx_pallet = \<lparr>on_streams = fmempty, on_system = ts_genesis (te_system te)\<rparr>,
      tx_authorities_count = AUTHORITIES_COUNT, tx_mock = m\<rparr>"

definition set_block_number :: "('sys, 'ks) test_env \<Rightarrow> u32 \<Rightarrow> ('sys, 'ks) test_ext \<Rightarrow> ('sys, 'ks) test_ext" where
  "set_block_number te n ext =
     ext\<lparr>tx_pallet := (tx_pallet ext)
           \<lparr>on_system := ts_set_block_number (te_system te) (on_system (tx_pallet ext)) n\<rparr>\<rparr>"

definition call_validate_event ::
    "('sys, 'ks) test_env \<Rightarrow> ('sys, 'ks) test_ext \<Rightarrow> h256 \<Rightarrow> btree_proofs option
      \<Rightarrow> dispatch_result \<times> ('sys, 'ks) test_ext" where
  "call_validate_event te ext event_id proofs =
     (case mock_authorities (te_keystore te) (tx_mock ext) (tx_authorities_count ext) of
        (Inl f, m) \<Rightarrow> (Inl DispatchPanic, ext\<lparr>tx_mock := m\<rparr>)
      | (Inr ids, m) \<Rightarrow>
          (case validate_event_onchain (te_frame te) (te_sr25519 te) id ids (tx_pallet ext) event_id proofs of
             (r, pallet) \<Rightarrow> (r, ext\<lparr>tx_pallet := pallet, tx_mock := m\<rparr>)))"

definition call_proofs_n ::
    "('sys, 'ks) test_env \<Rightarrow> ('sys, 'ks) test_ext \<Rightarrow> h256 \<Rightarrow> u16 \<Rightarrow> (btree_proofs \<times> ('sys, 'ks) test_ext) option" where
  "call_proofs_n te ext event_id count =
     (case proofs_n (te_sr25519 te) (te_keystore te) (te_try_into te) (tx_mock ext) event_id count of
        (Inl f, m) \<Rightarrow> None
      | (Inr proofs, m) \<Rightarrow> Some (proofs, ext\<lparr>tx_mock := m\<rparr>))"

definition call_proofs ::
    "('sys, 'ks) test_env \<Rightarrow> ('sys, 'ks) test_ext \<Rightarrow> h256 \<Rightarrow> (btree_proofs \<times> ('sys, 'ks) test_ext) option" where
  "call_proofs te ext event_id =
     (case mock_proofs (te_sr25519 te) (te_keystore te) (te_try_into te) (tx_mock ext) (tx_authorities_count ext) event_id of
        (Inl f, m) \<Rightarrow> None
      | (Inr proofs, m) \<Rightarrow> Some (proofs, ext\<lparr>tx_mock := m\<rparr>))"

section \<open>Assertions\<close>

definition assert_that :: "bool \<Rightarrow> unit option" where
  "assert_that b = (if b then Some () else None)"

definition assert_result ::
    "('sys, 'ks) test_env \<Rightarrow> ('sys, 'ks) test_ext \<Rightarrow> h256 \<Rightarrow> btree_proofs option \<Rightarrow> dispatch_result
      \<Rightarrow> ('sys, 'ks) test_ext option" where
  "assert_result te ext event_id proofs expected =
     (case call_validate_event te ext event_id proofs of
        (r, ext') \<Rightarrow> if r = expected then Some ext' else None)"

text \<open>
  The first proof of the map, in the order of its keys, with one added to the first byte of its signature,
  where overflow is checked; the map without its first proof; and the map with a proof by a new key.
\<close>

definition corrupt_first :: "btree_proofs \<Rightarrow> btree_proofs option" where
  "corrupt_first proofs =
     (case sorted_list_of_fmap proofs of
        [] \<Rightarrow> None
      | (key, signature) # _ \<Rightarrow>
          (case signature_bytes signature of
             [] \<Rightarrow> None
           | b # bs \<Rightarrow> if b = - 1 then None else Some (fmupd key (Signature ((b + 1) # bs)) proofs)))"

definition remove_first :: "btree_proofs \<Rightarrow> btree_proofs option" where
  "remove_first proofs =
     (case sorted_list_of_fmap proofs of [] \<Rightarrow> None | (key, _) # _ \<Rightarrow> Some (fmdrop key proofs))"

definition insert_unrecognized ::
    "('sys, 'ks) test_env \<Rightarrow> ('sys, 'ks) test_ext \<Rightarrow> h256 \<Rightarrow> btree_proofs
      \<Rightarrow> (btree_proofs \<times> ('sys, 'ks) test_ext) option" where
  "insert_unrecognized te ext event_id proofs =
     (case sr25519_generate_new (te_keystore te) (mk_keystore (tx_mock ext)) of
        (Inl e, ks) \<Rightarrow> None
      | (Inr key, ks) \<Rightarrow>
          (case tk_sign_with (te_keystore te) ks key (as_bytes event_id) of
             Inr (Some b) \<Rightarrow>
               Option.bind (signature_from_slice (te_sr25519 te) b) (\<lambda>signature.
                 if hm_len proofs < unat MOCK_MAX_AUTHORITIES \<or> fmlookup proofs key \<noteq> None
                 then Some (fmupd key signature proofs, ext\<lparr>tx_mock := (tx_mock ext)\<lparr>mk_keystore := ks\<rparr>\<rparr>)
                 else None)
           | _ \<Rightarrow> None))"

section \<open>The tests\<close>

definition test_validate_unsigned_offchain :: "'sys frame_system \<Rightarrow> 'sys test_system \<Rightarrow> bool" where
  "test_validate_unsigned_offchain fs ts =
     (let self = (new_offchain_ext ts)\<lparr>off_system := ts_set_block_number ts (ts_genesis ts) 1\<rparr>;
          event_id = repeat_byte 0;
          call = validate_event_call event_id None
      in validate_unsigned is_event_valid_offchain self External call = Inl InvalidCall \<and>
         \<not> isl (validate_unsigned is_event_valid_offchain self Local call) \<and>
         \<not> isl (validate_unsigned is_event_valid_offchain self InBlock call) \<and>
         (case validate_event_offchain fs self event_id None of
            (Inl f, _) \<Rightarrow> False
          | (Inr _, self') \<Rightarrow> validate_unsigned is_event_valid_offchain self' Local call = Inl InvalidStale))"

definition test_validate_unsigned_onchain :: "('sys, 'ks) test_env \<Rightarrow> 'ks mock \<Rightarrow> bool" where
  "test_validate_unsigned_onchain te m =
     (let event_id = repeat_byte 0;
          call = validate_event_call event_id None
      in do {
           let ext = set_block_number te 1 (new_test_ext te m);
           let self = tx_pallet ext;
           _ \<leftarrow> assert_that (validate_unsigned is_event_valid_onchain self External call = Inl InvalidCall);
           _ \<leftarrow> assert_that (\<not> isl (validate_unsigned is_event_valid_onchain self Local call));
           _ \<leftarrow> assert_that (\<not> isl (validate_unsigned is_event_valid_onchain self InBlock call));
           (proofs_map, ext) \<leftarrow> call_proofs te ext event_id;
           ext \<leftarrow> assert_result te ext event_id (Some proofs_map) (Inr ());
           assert_that (validate_unsigned is_event_valid_onchain (tx_pallet ext) Local call = Inl InvalidStale)
         } \<noteq> None)"

definition it_adds_event ::
    "'sys frame_system \<Rightarrow> 'sys test_system \<Rightarrow> ((h256, u32) fmap \<Rightarrow> (h256 \<times> u32) list) \<Rightarrow> bool" where
  "it_adds_event fs ts iter =
     (let self = (new_offchain_ext ts)\<lparr>off_system := ts_set_block_number ts (ts_genesis ts) 1\<rparr>;
          event_id = repeat_byte 0
      in \<not> is_event_valid_offchain self event_id \<and>
         (case validate_event_offchain fs self event_id None of
            (Inl f, _) \<Rightarrow> False
          | (Inr _, self') \<Rightarrow>
              get_all_events_offchain iter self' = [event_id] \<and>
              is_event_valid_offchain self' event_id \<and>
              ts_last_event ts (off_system self') = Some (ValidatedEvent event_id) \<and>
              get_block_events iter self' 1 = [event_id] \<and>
              fst (validate_event_offchain fs self' event_id None) = Inl (DispatchErr AlreadyValidated)))"

definition it_validates_event ::
    "('sys, 'ks) test_env \<Rightarrow> ((h256, btree_proofs) fmap \<Rightarrow> (h256 \<times> btree_proofs) list) \<Rightarrow> 'ks mock \<Rightarrow> bool" where
  "it_validates_event te iter m =
     (do {
        let ext = set_block_number te 1 (new_test_ext te m);
        let event_id = repeat_byte 0;
        (proofs_map, ext) \<leftarrow> call_proofs te ext event_id;
        _ \<leftarrow> assert_that (\<not> is_event_valid_onchain (tx_pallet ext) event_id);
        ext \<leftarrow> assert_result te ext event_id (Some proofs_map) (Inr ());
        _ \<leftarrow> assert_that (get_all_events_onchain iter (tx_pallet ext) = [event_id]);
        _ \<leftarrow> assert_that (is_event_valid_onchain (tx_pallet ext) event_id);
        _ \<leftarrow> assert_that (ts_last_event (te_system te) (on_system (tx_pallet ext)) = Some (ValidatedEvent event_id));
        ext \<leftarrow> assert_result te ext event_id (Some proofs_map) (Inl (DispatchErr AlreadyValidated));
        let event_id = repeat_byte 1;
        (proofs_map, ext) \<leftarrow> call_proofs te ext event_id;
        proofs_map \<leftarrow> corrupt_first proofs_map;
        ext \<leftarrow> assert_result te ext event_id (Some proofs_map) (Inl (DispatchErr InvalidProof));
        (proofs_map, ext) \<leftarrow> insert_unrecognized te ext event_id proofs_map;
        ext \<leftarrow> assert_result te ext event_id (Some proofs_map) (Inl (DispatchErr UnrecognizedAuthority));
        (proofs_map, ext) \<leftarrow> call_proofs te ext event_id;
        proofs_map \<leftarrow> remove_first proofs_map;
        proofs_map \<leftarrow> remove_first proofs_map;
        ext \<leftarrow> assert_result te ext event_id (Some proofs_map) (Inl (DispatchErr NotEnoughProofs));
        assert_result te ext event_id None (Inl (DispatchErr NoProofs))
      } \<noteq> None)"

definition it_computes_target_correctly :: "('sys, 'ks) test_env \<Rightarrow> 'ks mock \<Rightarrow> u16 \<Rightarrow> u16 \<Rightarrow> bool" where
  "it_computes_target_correctly te m total_count tgt =
     (do {
        let ext = set_block_number te 1 ((new_test_ext te m)\<lparr>tx_authorities_count := total_count\<rparr>);
        let event_id = repeat_byte 0;
        _ \<leftarrow> assert_that (tgt \<noteq> 0);
        (proofs_few, ext) \<leftarrow> call_proofs_n te ext event_id (tgt - 1);
        ext \<leftarrow> assert_result te ext event_id (Some proofs_few) (Inl (DispatchErr NotEnoughProofs));
        (proofs_exact, ext) \<leftarrow> call_proofs_n te ext event_id tgt;
        assert_result te ext event_id (Some proofs_exact) (Inr ())
      } \<noteq> None)"

section \<open>The mock runtime in a test\<close>

text \<open>
  What the calls do when the pairs they need exist: the static variables stay as they are.
\<close>

definition ext_ready :: "('sys, 'ks) test_env \<Rightarrow> nat \<Rightarrow> ('sys, 'ks) test_ext \<Rightarrow> bool" where
  "ext_ready te i ext \<longleftrightarrow> mock_ok (te_keystore te) i (tx_mock ext) \<and> unat (tx_authorities_count ext) \<le> 32 \<and>
     unat (tx_authorities_count ext) \<le> length (mk_pairs (tx_mock ext))"

definition ext_keys :: "('sys, 'ks) test_ext \<Rightarrow> public list" where
  "ext_keys ext = take (unat (tx_authorities_count ext)) (mk_pairs (tx_mock ext))"

lemma ext_ready_simps [simp]:
  "ext_ready te i (ext\<lparr>tx_pallet := p\<rparr>) = ext_ready te i ext" "ext_keys (ext\<lparr>tx_pallet := p\<rparr>) = ext_keys ext"
  by (simp_all add: ext_ready_def ext_keys_def)

lemma ready_keys:
  assumes "ext_ready te i ext"
  shows "length (ext_keys ext) = unat (tx_authorities_count ext)" and "distinct (ext_keys ext)"
    and "set (ext_keys ext) \<subseteq> tk_keys (te_keystore te) (mk_keystore (tx_mock ext))" and "length (ext_keys ext) \<le> 32"
    and "\<forall>k \<in> set (ext_keys ext). length (public_bytes k) = 32"
  using assms by (auto simp: ext_ready_def ext_keys_def mock_ok_def dest: in_set_takeD)

lemma ready_validate:
  assumes "ext_ready te i ext"
  obtains ids where "raw_authorities id ids = Some (ext_keys ext)"
    and "call_validate_event te ext e ps =
      (case validate_event_onchain (te_frame te) (te_sr25519 te) id ids (tx_pallet ext) e ps of
         (r, pallet) \<Rightarrow> (r, ext\<lparr>tx_pallet := pallet\<rparr>))"
proof (rule that [of "map public_bytes (ext_keys ext)"])
  show "raw_authorities id (map public_bytes (ext_keys ext)) = Some (ext_keys ext)"
    using ready_keys(5) [OF assms] raw_authorities_map [of "map public_bytes (ext_keys ext)" id] by (simp add: o_def)
  have "mock_authorities (te_keystore te) (tx_mock ext) (tx_authorities_count ext) =
      (Inr (map public_bytes (ext_keys ext)), tx_mock ext)"
    using assms ready_keys(4,5) [OF assms]
    by (simp add: mock_authorities_def get_pairs_def ext_ready_def list_all_iff MOCK_MAX_AUTHORITIES_def
        flip: ext_keys_def)
  then show "call_validate_event te ext e ps =
      (case validate_event_onchain (te_frame te) (te_sr25519 te) id (map public_bytes (ext_keys ext)) (tx_pallet ext) e ps of
         (r, pallet) \<Rightarrow> (r, ext\<lparr>tx_pallet := pallet\<rparr>))"
    by (simp add: call_validate_event_def split: prod.split)
qed

definition test_env_laws :: "('sys, 'ks) test_env \<Rightarrow> bool" where
  "test_env_laws te \<longleftrightarrow> test_keystore_laws (te_sr25519 te) (te_keystore te) \<and>
     bounded_laws MOCK_MAX_AUTHORITIES (te_try_into te) \<and> test_system_laws (te_frame te) (te_system te)"

text \<open>
  The proofs by all authorities of a test, before and after their pairs have been made.
\<close>

definition full_proofs :: "('sys, 'ks) test_env \<Rightarrow> ('sys, 'ks) test_ext \<Rightarrow> h256 \<Rightarrow> btree_proofs \<Rightarrow> bool" where
  "full_proofs te ext e ps \<longleftrightarrow> fset (fmdom ps) = set (ext_keys ext) \<and> hm_len ps = unat (tx_authorities_count ext) \<and>
     (\<forall>k g. fmlookup ps k = Some g \<longrightarrow> sr_verify (te_sr25519 te) k (as_bytes e) g)"

lemma first_proofs:
  assumes "test_env_laws te" and "mock_ok (te_keystore te) (32 + i) (tx_mock ext)"
    and "unat (tx_authorities_count ext) \<le> 32"
  obtains ps m' where "call_proofs te ext e = Some (ps, ext\<lparr>tx_mock := m'\<rparr>)"
    and "ext_ready te i (ext\<lparr>tx_mock := m'\<rparr>)" and "full_proofs te (ext\<lparr>tx_mock := m'\<rparr>) e ps"
proof -
  obtain ps m' new where "proofs_n (te_sr25519 te) (te_keystore te) (te_try_into te) (tx_mock ext) e (tx_authorities_count ext) =
      (Inr ps, m')" "mock_ok (te_keystore te) i m'" "unat (tx_authorities_count ext) \<le> length (mk_pairs m')"
    "fset (fmdom ps) = set (take (unat (tx_authorities_count ext)) (mk_pairs m'))"
    "hm_len ps = unat (tx_authorities_count ext)"
    "\<And>k g. fmlookup ps k = Some g \<Longrightarrow> sr_verify (te_sr25519 te) k (as_bytes e) g"
    by (rule proofs_n_ok [OF _ _ assms(2,3), of "te_sr25519 te" "te_try_into te" e])
      (use assms(1) in \<open>auto simp: test_env_laws_def\<close>)
  then show ?thesis
    using assms(3)
    by (intro that [of ps m']) (simp_all add: call_proofs_def mock_proofs_def ext_ready_def full_proofs_def ext_keys_def)
qed

lemma more_proofs:
  assumes "test_env_laws te" and "ext_ready te i ext"
  obtains ps where "call_proofs te ext e = Some (ps, ext)" and "full_proofs te ext e ps"
proof -
  have pairs: "get_pairs (te_keystore te) (tx_mock ext) (tx_authorities_count ext) = (Inr (ext_keys ext), tx_mock ext)"
    using assms(2) by (simp add: get_pairs_def ext_ready_def ext_keys_def)
  obtain ps where "proofs_n (te_sr25519 te) (te_keystore te) (te_try_into te) (tx_mock ext) e (tx_authorities_count ext) =
      (Inr ps, tx_mock ext)"
    "fset (fmdom ps) = set (ext_keys ext)" "hm_len ps = unat (tx_authorities_count ext)"
    "\<And>k g. fmlookup ps k = Some g \<Longrightarrow> sr_verify (te_sr25519 te) k (as_bytes e) g"
    by (rule proofs_of_pairs [OF _ _ pairs [unfolded ext_keys_def], of "te_sr25519 te" "te_try_into te" i e])
      (use assms in \<open>auto simp: test_env_laws_def ext_ready_def ext_keys_def\<close>)
  then show ?thesis
    by (intro that [of ps]) (simp_all add: call_proofs_def mock_proofs_def full_proofs_def)
qed

section \<open>The results of the calls\<close>

text \<open>
  \<open>assert_result\<close> in each of the cases of \<open>validate_event\<close> that the tests produce.
\<close>

lemma assert_counted:
  assumes "ext_ready te i ext" and "fmlookup (on_streams (tx_pallet ext)) e = None"
    and "fset (fmdom ps) \<subseteq> set (ext_keys ext)"
    and "\<And>k g. fmlookup ps k = Some g \<Longrightarrow> sr_verify (te_sr25519 te) k (as_bytes e) g"
  shows "assert_result te ext e (Some ps) r =
    (if hm_len ps < unat (tx_authorities_count ext) * 2 div 3 + 1
     then if r = Inl (DispatchErr NotEnoughProofs) then Some ext else None
     else if r = Inr () then Some (ext\<lparr>tx_pallet := (tx_pallet ext)\<lparr>on_streams := fmupd e ps (on_streams (tx_pallet ext)),
       on_system := fs_deposit_event (te_frame te) (on_system (tx_pallet ext)) (ValidatedEvent e)\<rparr>\<rparr>) else None)"
proof -
  obtain ids where ids: "raw_authorities id ids = Some (ext_keys ext)" "call_validate_event te ext e (Some ps) =
      (case validate_event_onchain (te_frame te) (te_sr25519 te) id ids (tx_pallet ext) e (Some ps) of
         (r, pallet) \<Rightarrow> (r, ext\<lparr>tx_pallet := pallet\<rparr>))"
    by (rule ready_validate [OF assms(1)])
  show ?thesis
    using validate_event_onchain_counted [where fs = "te_frame te", OF ids(1) _ assms(2-4)] ready_keys(1,4) [OF assms(1)] ids(2)
    by (simp add: assert_result_def)
qed

lemma assert_few:
  assumes "ext_ready te i ext" and "fmlookup (on_streams (tx_pallet ext)) e = None" and "full_proofs te ext e all"
    and "\<And>k g. fmlookup ps k = Some g \<Longrightarrow> fmlookup all k = Some g"
    and "hm_len ps < unat (tx_authorities_count ext) * 2 div 3 + 1"
  shows "assert_result te ext e (Some ps) (Inl (DispatchErr NotEnoughProofs)) = Some ext"
proof (subst assert_counted [OF assms(1,2)])
  have "fset (fmdom ps) \<subseteq> fset (fmdom all)" using assms(4) by (auto simp: fset_fmdom)
  then show "fset (fmdom ps) \<subseteq> set (ext_keys ext)" using assms(3) by (simp add: full_proofs_def)
qed (use assms(3-5) in \<open>auto simp: full_proofs_def\<close>)

lemma assert_failed:
  assumes "ext_ready te i ext"
    and "\<And>ids. raw_authorities id ids = Some (ext_keys ext) \<Longrightarrow>
      validate_event_onchain (te_frame te) (te_sr25519 te) id ids (tx_pallet ext) e ps = (Inl f, tx_pallet ext)"
  shows "assert_result te ext e ps (Inl f) = Some ext"
proof -
  obtain ids where ids: "raw_authorities id ids = Some (ext_keys ext)" "call_validate_event te ext e ps =
      (case validate_event_onchain (te_frame te) (te_sr25519 te) id ids (tx_pallet ext) e ps of
         (r, pallet) \<Rightarrow> (r, ext\<lparr>tx_pallet := pallet\<rparr>))"
    by (rule ready_validate [OF assms(1)])
  then show ?thesis using assms(2) [OF ids(1)] by (simp add: assert_result_def)
qed

lemma assert_known:
  assumes "ext_ready te i ext" and "fmlookup (on_streams (tx_pallet ext)) e \<noteq> None"
  shows "assert_result te ext e (Some ps) (Inl (DispatchErr AlreadyValidated)) = Some ext"
  by (rule assert_failed [OF assms(1)]) (use assms(2) in \<open>simp add: validate_event_onchain_def\<close>)

lemma assert_none:
  assumes "ext_ready te i ext"
  shows "assert_result te ext e None (Inl (DispatchErr NoProofs)) = Some ext"
  by (rule assert_failed [OF assms]) (simp add: validate_event_onchain_def)

lemma assert_unrecognized:
  assumes "ext_ready te i ext" and "fmlookup (on_streams (tx_pallet ext)) e = None"
    and "\<not> fset (fmdom ps) \<subseteq> set (ext_keys ext)"
  shows "assert_result te ext e (Some ps) (Inl (DispatchErr UnrecognizedAuthority)) = Some ext"
proof (rule assert_failed [OF assms(1)])
  have "\<not> check_keys (ext_keys ext) (map fst (sorted_list_of_fmap ps))"
    using assms(3) by (simp add: check_keys_iff keys_sorted_list_of_fmap del: set_map)
  then show "validate_event_onchain (te_frame te) (te_sr25519 te) id ids (tx_pallet ext) e (Some ps) =
      (Inl (DispatchErr UnrecognizedAuthority), tx_pallet ext)" if "raw_authorities id ids = Some (ext_keys ext)" for ids
    using assms(2) that by (simp add: validate_event_onchain_def)
qed

lemma assert_invalid:
  assumes "ext_ready te i ext" and "fmlookup (on_streams (tx_pallet ext)) e = None"
    and "fset (fmdom ps) \<subseteq> set (ext_keys ext)"
    and "fmlookup ps k = Some g" and "\<not> sr_verify (te_sr25519 te) k (as_bytes e) g"
  shows "assert_result te ext e (Some ps) (Inl (DispatchErr InvalidProof)) = Some ext"
proof (rule assert_failed [OF assms(1)])
  have keys: "check_keys (ext_keys ext) (map fst (sorted_list_of_fmap ps))"
    using assms(3) by (simp add: check_keys_iff keys_sorted_list_of_fmap del: set_map)
  have "count_proofs (te_sr25519 te) e 0 (sorted_list_of_fmap ps) = None"
    using assms(4,5) by (cases "count_proofs (te_sr25519 te) e 0 (sorted_list_of_fmap ps)")
      (auto simp: count_proofs_iff set_sorted_list_of_fmap)
  then show "validate_event_onchain (te_frame te) (te_sr25519 te) id ids (tx_pallet ext) e (Some ps) =
      (Inl (DispatchErr InvalidProof), tx_pallet ext)" if "raw_authorities id ids = Some (ext_keys ext)" for ids
    using assms(2) keys that by (simp add: validate_event_onchain_def Let_def)
qed

section \<open>Changed proofs\<close>

lemma corrupt_first_ok:
  assumes "full_proofs te ext e ps" and "even_signatures (te_sr25519 te)" and "0 < hm_len ps"
  obtains k g where "corrupt_first ps = Some (fmupd k g ps)" and "k \<in> set (ext_keys ext)"
    and "\<not> sr_verify (te_sr25519 te) k (as_bytes e) g"
proof -
  obtain k g rest where first: "sorted_list_of_fmap ps = (k, g) # rest"
    using assms(3) by (cases "sorted_list_of_fmap ps") (auto simp flip: length_sorted_list_of_fmap)
  then have lk: "fmlookup ps k = Some g" by (simp flip: set_sorted_list_of_fmap)
  then have "sr_verify (te_sr25519 te) k (as_bytes e) g" using assms(1) by (simp add: full_proofs_def)
  then obtain b bs where b: "signature_bytes g = b # bs" "even b"
    using assms(2) unfolding even_signatures_def by blast
  have "b \<noteq> - 1" using b(2) by auto
  then have "corrupt_first ps = Some (fmupd k (Signature ((b + 1) # bs)) ps)" by (simp add: corrupt_first_def first b(1))
  moreover have "k \<in> set (ext_keys ext)" using assms(1) lk by (auto simp: full_proofs_def fset_fmdom)
  moreover have "\<not> sr_verify (te_sr25519 te) k (as_bytes e) (Signature ((b + 1) # bs))"
    using assms(2) b(2) by (fastforce simp: even_signatures_def)
  ultimately show ?thesis by (rule that)
qed

lemma remove_first_ok:
  assumes "0 < hm_len ps"
  obtains k where "remove_first ps = Some (fmdrop k ps)" and "Suc (hm_len (fmdrop k ps)) = hm_len ps"
proof -
  obtain k g rest where first: "sorted_list_of_fmap ps = (k, g) # rest"
    using assms by (cases "sorted_list_of_fmap ps") (auto simp flip: length_sorted_list_of_fmap)
  then have "fmlookup ps k = Some g" by (simp flip: set_sorted_list_of_fmap)
  then have "k \<in> fset (fmdom ps)" by (auto simp: fset_fmdom)
  then have "Suc (hm_len (fmdrop k ps)) = hm_len ps" using assms by (simp add: hm_len_card)
  then show ?thesis by (intro that [of k]) (simp_all add: remove_first_def first)
qed

lemma insert_unrecognized_ok:
  assumes "test_env_laws te" and "ext_ready te (Suc i) ext" and "hm_len ps < 32"
  obtains k g ks where "insert_unrecognized te ext e ps =
      Some (fmupd k g ps, ext\<lparr>tx_mock := (tx_mock ext)\<lparr>mk_keystore := ks\<rparr>\<rparr>)"
    and "ext_ready te i (ext\<lparr>tx_mock := (tx_mock ext)\<lparr>mk_keystore := ks\<rparr>\<rparr>)" and "k \<notin> set (ext_keys ext)"
proof -
  have laws: "test_keystore_laws (te_sr25519 te) (te_keystore te)" using assms(1) by (simp add: test_env_laws_def)
  let ?keys = "tk_keys (te_keystore te) (mk_keystore (tx_mock ext))"
  have room: "finite ?keys" "card ?keys < 65536" using assms(2) by (auto simp: ext_ready_def mock_ok_def)
  obtain r ks where gen: "sr25519_generate_new (te_keystore te) (mk_keystore (tx_mock ext)) = (r, ks)" by force
  then obtain k where k: "r = Inr k" "k \<notin> ?keys" "tk_keys (te_keystore te) ks = insert k ?keys"
    using laws room unfolding test_keystore_laws_def by blast
  then obtain b g where "tk_sign_with (te_keystore te) ks k (as_bytes e) = Inr (Some b)"
    "signature_from_slice (te_sr25519 te) b = Some g"
    using laws unfolding test_keystore_laws_def by blast
  then have "insert_unrecognized te ext e ps = Some (fmupd k g ps, ext\<lparr>tx_mock := (tx_mock ext)\<lparr>mk_keystore := ks\<rparr>\<rparr>)"
    using gen k(1) assms(3) by (simp add: insert_unrecognized_def MOCK_MAX_AUTHORITIES_def)
  moreover have "ext_ready te i (ext\<lparr>tx_mock := (tx_mock ext)\<lparr>mk_keystore := ks\<rparr>\<rparr>)"
    using assms(2) k(2,3) room(1) by (auto simp: ext_ready_def mock_ok_def)
  moreover have "k \<notin> set (ext_keys ext)" using ready_keys(3) [OF assms(2)] k(2) by auto
  ultimately show ?thesis by (rule that)
qed

section \<open>The tests pass\<close>

lemma iter_single:
  assumes "storage_iter_laws iter"
  shows "iter (fmupd k v fmempty) = [(k, v)]"
proof -
  have d: "distinct (map fst (iter (fmupd k v fmempty)))" and m: "map_of (iter (fmupd k v fmempty)) = [k \<mapsto> v]"
    using assms by (auto simp: storage_iter_laws_def)
  have "p \<in> set (iter (fmupd k v fmempty)) \<longleftrightarrow> p = (k, v)" for p
    using map_of_eq_Some_iff [OF d, of "fst p" "snd p"] by (cases p) (auto simp: m split: if_split_asm)
  then have "set (iter (fmupd k v fmempty)) = {(k, v)}" by blast
  then show ?thesis using d by (cases "iter (fmupd k v fmempty)") (auto simp: subset_singleton_iff)
qed

lemma offchain_tests:
  assumes "test_system_laws fs ts" and "storage_iter_laws iter"
  shows "test_validate_unsigned_offchain fs ts" and "it_adds_event fs ts iter"
proof -
  note one = iter_single [OF assms(2)]
  show "test_validate_unsigned_offchain fs ts"
    by (simp add: test_validate_unsigned_offchain_def validate_unsigned_def validate_event_offchain_def
        is_event_valid_offchain_def new_offchain_ext_def Let_def)
  show "it_adds_event fs ts iter"
    using assms(1) one
    by (simp add: it_adds_event_def validate_event_offchain_def is_event_valid_offchain_def new_offchain_ext_def
        get_all_events_offchain_def get_block_events_def test_system_laws_def Let_def)
qed

text \<open>
  The first call of a test with on-chain proofs, by all authorities, succeeds.
\<close>

lemma first_event_validated:
  assumes "test_env_laws te" and "mock_ok (te_keystore te) (32 + i) m"
  obtains ps ext ext' where "call_proofs te (set_block_number te 1 (new_test_ext te m)) e = Some (ps, ext)"
    and "tx_pallet ext = tx_pallet (set_block_number te 1 (new_test_ext te m))"
    and "assert_result te ext e (Some ps) (Inr ()) = Some ext'"
    and "ext_ready te i ext'" and "on_streams (tx_pallet ext') = fmupd e ps fmempty" and "tx_authorities_count ext' = 4"
    and "ts_last_event (te_system te) (on_system (tx_pallet ext')) = Some (ValidatedEvent e)"
proof -
  let ?ext = "set_block_number te 1 (new_test_ext te m)"
  have start: "tx_mock ?ext = m" "tx_authorities_count ?ext = 4" "on_streams (tx_pallet ?ext) = fmempty"
    by (simp_all add: set_block_number_def new_test_ext_def AUTHORITIES_COUNT_def)
  obtain ps m' where ps: "call_proofs te ?ext e = Some (ps, ?ext\<lparr>tx_mock := m'\<rparr>)" "ext_ready te i (?ext\<lparr>tx_mock := m'\<rparr>)"
    "full_proofs te (?ext\<lparr>tx_mock := m'\<rparr>) e ps"
    by (rule first_proofs [OF assms(1), of i ?ext e]) (use assms(2) start in auto)
  let ?p = "(tx_pallet ?ext)\<lparr>on_streams := fmupd e ps fmempty,
    on_system := fs_deposit_event (te_frame te) (on_system (tx_pallet ?ext)) (ValidatedEvent e)\<rparr>"
  have "assert_result te (?ext\<lparr>tx_mock := m'\<rparr>) e (Some ps) (Inr ()) = Some (?ext\<lparr>tx_mock := m', tx_pallet := ?p\<rparr>)"
    using assert_counted [OF ps(2), of e ps "Inr ()"] ps(3) start by (simp add: full_proofs_def)
  moreover have "fs_block_number (te_frame te) (on_system (tx_pallet ?ext)) \<noteq> 0"
    using assms(1) by (simp add: test_env_laws_def test_system_laws_def set_block_number_def)
  then have "ts_last_event (te_system te) (on_system ?p) = Some (ValidatedEvent e)"
    using assms(1) by (simp add: test_env_laws_def test_system_laws_def)
  ultimately show ?thesis
    using ps(1,2) start(2) by (intro that [of ps "?ext\<lparr>tx_mock := m'\<rparr>" "?ext\<lparr>tx_mock := m', tx_pallet := ?p\<rparr>"]) simp_all
qed

lemma validate_unsigned_test:
  assumes "test_env_laws te" and "mock_ok (te_keystore te) 32 m"
  shows "test_validate_unsigned_onchain te m"
proof -
  let ?ext = "set_block_number te 1 (new_test_ext te m)"
  obtain ps ext ext' where first: "call_proofs te ?ext (repeat_byte 0) = Some (ps, ext)"
    "assert_result te ext (repeat_byte 0) (Some ps) (Inr ()) = Some ext'"
    "on_streams (tx_pallet ext') = fmupd (repeat_byte 0) ps fmempty"
    by (rule first_event_validated [OF assms(1), of 0 m "repeat_byte 0"]) (use assms(2) in auto)
  have "on_streams (tx_pallet ?ext) = fmempty" by (simp add: set_block_number_def new_test_ext_def)
  then show ?thesis
    using first
    by (simp add: test_validate_unsigned_onchain_def validate_unsigned_def is_event_valid_onchain_def assert_that_def Let_def)
qed

lemma corrupted_refused:
  assumes "test_env_laws te" and "even_signatures (te_sr25519 te)" and "ext_ready te i ext"
    and "tx_authorities_count ext = 4" and "fmlookup (on_streams (tx_pallet ext)) e = None"
  obtains ps bad where "call_proofs te ext e = Some (ps, ext)" and "corrupt_first ps = Some bad" and "hm_len bad < 32"
    and "assert_result te ext e (Some bad) (Inl (DispatchErr InvalidProof)) = Some ext"
proof -
  obtain ps where ps: "call_proofs te ext e = Some (ps, ext)" "full_proofs te ext e ps"
    by (rule more_proofs [OF assms(1,3)])
  obtain k g where bad: "corrupt_first ps = Some (fmupd k g ps)" "k \<in> set (ext_keys ext)"
    "\<not> sr_verify (te_sr25519 te) k (as_bytes e) g"
    by (rule corrupt_first_ok [OF ps(2) assms(2)]) (use ps(2) assms(4) in \<open>simp_all add: full_proofs_def\<close>)
  have dom: "fset (fmdom (fmupd k g ps)) = set (ext_keys ext)" using ps(2) bad(2) by (auto simp: full_proofs_def)
  have "hm_len (fmupd k g ps) < 32"
    using dom ready_keys(1,2) [OF assms(3)] assms(4) by (simp add: hm_len_card distinct_card del: fmdom_fmupd)
  moreover have "assert_result te ext e (Some (fmupd k g ps)) (Inl (DispatchErr InvalidProof)) = Some ext"
    by (rule assert_invalid [OF assms(3,5), of _ k g]) (use dom bad(3) in auto)
  ultimately show ?thesis by (rule that [OF ps(1) bad(1)])
qed

lemma removed_refused:
  assumes "test_env_laws te" and "ext_ready te i ext"
    and "tx_authorities_count ext = 4" and "fmlookup (on_streams (tx_pallet ext)) e = None"
  obtains all three two where "call_proofs te ext e = Some (all, ext)" and "remove_first all = Some three"
    and "remove_first three = Some two" and "assert_result te ext e (Some two) (Inl (DispatchErr NotEnoughProofs)) = Some ext"
proof -
  obtain all where all: "call_proofs te ext e = Some (all, ext)" "full_proofs te ext e all"
    by (rule more_proofs [OF assms(1,2)])
  have "hm_len all = 4" using all(2) assms(3) by (simp add: full_proofs_def)
  then obtain k1 where k1: "remove_first all = Some (fmdrop k1 all)" "hm_len (fmdrop k1 all) = 3"
    using remove_first_ok [of all] by auto
  then obtain k2 where k2: "remove_first (fmdrop k1 all) = Some (fmdrop k2 (fmdrop k1 all))" "hm_len (fmdrop k2 (fmdrop k1 all)) = 2"
    using remove_first_ok [of "fmdrop k1 all"] by auto
  have "assert_result te ext e (Some (fmdrop k2 (fmdrop k1 all))) (Inl (DispatchErr NotEnoughProofs)) = Some ext"
    by (rule assert_few [OF assms(2,4) all(2)]) (use k2(2) assms(3) in \<open>auto split: if_splits\<close>)
  then show ?thesis by (rule that [OF all(1) k1(1) k2(1)])
qed

lemma validates_event_test:
  assumes laws: "test_env_laws te" "even_signatures (te_sr25519 te)" "storage_iter_laws iter"
    and m: "mock_ok (te_keystore te) 33 m"
  shows "it_validates_event te iter m"
proof -
  let ?old = "repeat_byte 0" and ?e = "repeat_byte 1"
  obtain ps0 ext0 ext where first: "call_proofs te (set_block_number te 1 (new_test_ext te m)) ?old = Some (ps0, ext0)"
    "tx_pallet ext0 = tx_pallet (set_block_number te 1 (new_test_ext te m))"
    "assert_result te ext0 ?old (Some ps0) (Inr ()) = Some ext"
    and ready: "ext_ready te 1 ext" and streams: "on_streams (tx_pallet ext) = fmupd ?old ps0 fmempty"
    and count: "tx_authorities_count ext = 4"
    and last: "ts_last_event (te_system te) (on_system (tx_pallet ext)) = Some (ValidatedEvent ?old)"
    by (rule first_event_validated [OF laws(1), of 1 m ?old]) (use m in auto)
  have fresh0: "\<not> is_event_valid_onchain (tx_pallet ext0) ?old"
    by (simp add: first(2) set_block_number_def new_test_ext_def is_event_valid_onchain_def)
  have known: "assert_result te ext ?old (Some ps0) (Inl (DispatchErr AlreadyValidated)) = Some ext"
    by (rule assert_known [OF ready]) (simp add: streams)
  have fresh: "fmlookup (on_streams (tx_pallet ext)) ?e = None" using streams by simp
  obtain ps bad where bad: "call_proofs te ext ?e = Some (ps, ext)" "corrupt_first ps = Some bad" "hm_len bad < 32"
    "assert_result te ext ?e (Some bad) (Inl (DispatchErr InvalidProof)) = Some ext"
    by (rule corrupted_refused [OF laws(1,2) ready count fresh])
  obtain k g ks where stranger: "insert_unrecognized te ext ?e bad =
      Some (fmupd k g bad, ext\<lparr>tx_mock := (tx_mock ext)\<lparr>mk_keystore := ks\<rparr>\<rparr>)"
    "ext_ready te 0 (ext\<lparr>tx_mock := (tx_mock ext)\<lparr>mk_keystore := ks\<rparr>\<rparr>)" "k \<notin> set (ext_keys ext)"
    by (rule insert_unrecognized_ok [OF laws(1) _ bad(3), of 0]) (use ready in auto)
  let ?ext = "ext\<lparr>tx_mock := (tx_mock ext)\<lparr>mk_keystore := ks\<rparr>\<rparr>"
  have unrecognized: "assert_result te ?ext ?e (Some (fmupd k g bad)) (Inl (DispatchErr UnrecognizedAuthority)) = Some ?ext"
    by (rule assert_unrecognized [OF stranger(2)]) (use fresh stranger(3) in \<open>simp_all add: ext_keys_def\<close>)
  obtain all three two where few: "call_proofs te ?ext ?e = Some (all, ?ext)" "remove_first all = Some three"
    "remove_first three = Some two" "assert_result te ?ext ?e (Some two) (Inl (DispatchErr NotEnoughProofs)) = Some ?ext"
    by (rule removed_refused [OF laws(1) stranger(2), of ?e]) (use count fresh in auto)
  show ?thesis
    using first(1,3) fresh0 streams last known bad(1,2,4) stranger(1) unrecognized few assert_none [OF stranger(2), of ?e]
    by (simp add: it_validates_event_def assert_that_def get_all_events_onchain_def iter_single [OF laws(3)]
        is_event_valid_onchain_def)
qed

lemma computes_target_test:
  assumes laws: "test_env_laws te" and m: "mock_ok (te_keystore te) 96 m"
    and tgt: "0 < unat count" "unat count \<le> 32" "unat tgt = unat count * 2 div 3 + 1"
  shows "it_computes_target_correctly te m count tgt"
proof -
  let ?sr = "te_sr25519 te" and ?ops = "te_keystore te" and ?into = "te_try_into te" and ?e = "repeat_byte 0"
  let ?ext = "set_block_number te 1 ((new_test_ext te m)\<lparr>tx_authorities_count := count\<rparr>)"
  have law: "test_keystore_laws ?sr ?ops" "bounded_laws MOCK_MAX_AUTHORITIES ?into" using laws by (auto simp: test_env_laws_def)
  have start: "tx_mock ?ext = m" "tx_authorities_count ?ext = count" "fmlookup (on_streams (tx_pallet ?ext)) ?e = None"
    by (simp_all add: set_block_number_def new_test_ext_def)
  obtain few m1 ids m2 enough m3 where mock: "proofs_n ?sr ?ops ?into m ?e (tgt - 1) = (Inr few, m1)"
    "mock_authorities ?ops m1 count = (Inr ids, m2)" "proofs_n ?sr ?ops ?into m2 ?e tgt = (Inr enough, m3)"
    "mock_authorities ?ops m3 count = (Inr ids, m3)"
    and call: "\<forall>pallet. fmlookup (on_streams pallet) ?e = None \<longrightarrow>
      validate_event_onchain (te_frame te) ?sr id ids pallet ?e (Some few) = (Inl (DispatchErr NotEnoughProofs), pallet) \<and>
      fst (validate_event_onchain (te_frame te) ?sr id ids pallet ?e (Some enough)) = Inr ()"
    by (rule mock_boundary [OF law m tgt, of ?e "te_frame te"])
  obtain pallet where ok: "validate_event_onchain (te_frame te) ?sr id ids (tx_pallet ?ext) ?e (Some enough) = (Inr (), pallet)"
    using call [rule_format, OF start(3)] by (metis prod.collapse)
  have "tgt \<noteq> 0" using tgt(3) by auto
  then show ?thesis
    using mock call [rule_format, OF start(3)] ok start
    by (simp add: it_computes_target_correctly_def assert_that_def call_proofs_n_def assert_result_def call_validate_event_def
        Let_def)
qed

section \<open>Properties\<close>

text \<open>
  C25. The tests of the pallet pass in the model, those of the build with off-chain proofs and those of the
  build with on-chain proofs, the latter with the mock runtime in whatever state earlier tests have left
  its keys: unsigned extrinsics are taken from the right sources and refused as stale once the event is
  valid, an event is validated and reported once, a corrupted signature, an unrecognized authority, too
  few proofs and missing proofs each give the error of that name, and the threshold is right for the five
  numbers of authorities.
\<close>

theorem pallet_tests_pass:
  assumes "test_keystore_laws (te_sr25519 te) (te_keystore te)" and "bounded_laws MOCK_MAX_AUTHORITIES (te_try_into te)"
    and "test_system_laws (te_frame te) (te_system te)" and "even_signatures (te_sr25519 te)"
    and "storage_iter_laws iter" and "storage_iter_laws iter'" and "mock_ok (te_keystore te) 96 m"
  shows "test_validate_unsigned_offchain (te_frame te) (te_system te) \<and> it_adds_event (te_frame te) (te_system te) iter \<and>
    test_validate_unsigned_onchain te m \<and> it_validates_event te iter' m \<and>
    it_computes_target_correctly te m 3 3 \<and> it_computes_target_correctly te m 4 3 \<and>
    it_computes_target_correctly te m 5 4 \<and> it_computes_target_correctly te m 6 5 \<and>
    it_computes_target_correctly te m 10 7"
proof -
  have laws: "test_env_laws te" using assms(1-3) by (simp add: test_env_laws_def)
  have m: "mock_ok (te_keystore te) 32 m" "mock_ok (te_keystore te) 33 m" using mock_ok_less [OF assms(7)] by simp_all
  show ?thesis
    using offchain_tests [OF assms(3,5)] validate_unsigned_test [OF laws m(1)]
      validates_event_test [OF laws assms(4,6) m(2)] computes_target_test [OF laws assms(7)]
    by simp
qed

text \<open>
  The example: the numbered keys, whose signatures begin with a zero.
\<close>

definition ref_test_env :: "(u32 \<times> pallet_event option, nat) test_env" where
  "ref_test_env =
     \<lparr>te_frame = \<lparr>fs_block_number = fst, fs_deposit_event = (\<lambda>(n, _) event. (n, if n = 0 then None else Some event))\<rparr>,
      te_system = \<lparr>ts_genesis = (0, None), ts_set_block_number = (\<lambda>(_, event) n. (n, event)), ts_last_event = snd\<rparr>,
      te_sr25519 = ref_sr25519 (\<lambda>k m. hd k = 0 \<and> k \<noteq> []), te_keystore = numbered_keystore, te_try_into = ref_try_into\<rparr>"

theorem pallet_tests_pass_witness:
  "it_adds_event (te_frame ref_test_env) (te_system ref_test_env) sorted_list_of_fmap \<and>
   it_validates_event ref_test_env sorted_list_of_fmap \<lparr>mk_keystore = 0, mk_pairs = []\<rparr> \<and>
   it_computes_target_correctly ref_test_env \<lparr>mk_keystore = 0, mk_pairs = []\<rparr> 10 7"
proof -
  let ?m = "\<lparr>mk_keystore = 0, mk_pairs = []\<rparr>"
  have keys: "test_keystore_laws (te_sr25519 ref_test_env) (te_keystore ref_test_env)"
    unfolding ref_test_env_def by (simp add: numbered_keystore_laws numbered_key_def)
  have bound: "bounded_laws MOCK_MAX_AUTHORITIES (te_try_into ref_test_env)"
    using ref_try_into_laws by (simp add: ref_test_env_def MOCK_MAX_AUTHORITIES_def VS_MAX_AUTHORITIES_def)
  have system: "test_system_laws (te_frame ref_test_env) (te_system ref_test_env)"
    by (simp add: ref_test_env_def test_system_laws_def split: prod.split)
  have even: "even_signatures (te_sr25519 ref_test_env)"
    by (auto simp: ref_test_env_def even_signatures_def ref_sr25519_def neq_Nil_conv)
  have ok: "mock_ok (te_keystore ref_test_env) 96 ?m" by (simp add: ref_test_env_def mock_ok_def numbered_keystore_def)
  show ?thesis
    using pallet_tests_pass [OF keys bound system even sorted_iter_laws sorted_iter_laws ok] by blast
qed

end
