(* ===== verification/Spec2Isabelle.thy ===== *)
theory Spec2Isabelle
  imports Store_Properties Consensus_Properties Pallet_Properties Runtime_Properties Onchain_Pipeline Network_Properties
    Service Command Rpc Gossip_Swarm Chain_Spec Node_Benchmarking Pallet_Benchmarking Tps_Controller Irc_Properties Repo_Tests Pallet_Tests
begin

text \<open>
  Validated Streams: a verification library for the node.

  The program. Validators witness events of the outside world. A trusted client hands an event id to the
  gRPC server of its node (\<open>src/consensus/src/server.rs\<close>); the witnesser (\<open>events/witness.rs\<close>) signs it with an
  authority key and publishes it through the gossip actor (\<open>gossip/mod.rs\<close>). The gossip handler of every
  node (\<open>events/gossip.rs\<close>) checks each signature against the authorities of the last finalized block
  (\<open>events/mod.rs\<close>), keeps it in a store of proofs (\<open>proofs/\<close>: in memory, offchain storage, RocksDB), and when
  the proofs of an event reach the target submits an extrinsic for it. Before a block is imported
  (\<open>block_import.rs\<close>) every event in it must have enough proofs. The pallet (\<open>src/pallet\<close>) records the event;
  built without the feature \<open>off-chain-proofs\<close> it is the pallet that checks the proofs, which then travel
  in the extrinsic the runtime makes (\<open>src/runtime\<close>). The events of finalized blocks are streamed back to
  clients (\<open>events/validate.rs\<close>, \<open>server.rs\<close>). \<open>src/node\<close> puts the parts together. \<open>src/samples\<close> has two clients:
  \<open>tps-benchmark\<close> measures the network, and \<open>irc\<close> is a bot that witnesses what users say in an IRC channel.

  The theories. \<open>VS_Prelude\<close> has the machine integers, byte strings, \<open>H256\<close> and finite maps; \<open>VS_Errors\<close> the
  errors (\<open>errors.rs\<close>) and the results of fallible code: a call returns a value, an error, a panic, or does
  not return. State is passed explicitly: an operation on a state returns its result and the new state.
  \<^item> \<open>Port_Config\<close> (\<open>config.rs\<close>): \<open>PortOrOffset\<close>, its text, and the adjustment of ports and multiaddresses.
  \<^item> \<open>Event_Proofs\<close> (\<open>proofs/mod.rs\<close>): the trait as the locale \<open>event_proofs_trait\<close>, and \<open>robust_proofs_trait\<close> for
    stores that never panic; interpreted as \<open>im\<close> in \<open>In_Memory_Proofs\<close>, \<open>oc\<close> in \<open>Offchain_Proofs\<close> and \<open>rd\<close> in
    \<open>RocksDb_Proofs\<close>. \<open>Offchain_Concurrent\<close>: the compare-and-set loops against other threads.
  \<^item> \<open>Authorities\<close> (\<open>events/mod.rs\<close>): \<open>verify_witnessed_event_origin\<close>, \<open>target\<close>, the cache, \<open>verify_events_validity\<close>;
    the locale \<open>quorum_system\<close>, interpreted as \<open>aq\<close> here and as \<open>pq\<close> in \<open>Pallet\<close>.
  \<^item> \<open>Gossip\<close> (\<open>gossip/mod.rs\<close>): the channel, the orders, and the \<open>select!\<close> loop as the step relation \<open>gossip_step\<close>;
    the locale \<open>gossip_handler_trait\<close>, interpreted as \<open>gh\<close> in \<open>Node\<close> and, with one list of authorities for all
    nodes, as \<open>sh\<close> in \<open>Network\<close>. \<open>Gossip_Swarm\<close>: how the service makes its swarm.
  \<^item> \<open>Gossip_Handler\<close>, \<open>Witness\<close>, \<open>Validate\<close>, \<open>Block_Import\<close>, \<open>Server\<close>: the files of the same names.
  \<^item> \<open>Node\<close> (\<open>node.rs\<close>): \<open>start\<close> with its two tasks, and the running node as the step relation \<open>node_step\<close>: it witnesses, takes orders
    and messages, and imports blocks, in any interleaving. \<open>Network\<close>: many nodes and the messages under way between
    them, as the step relation \<open>network_step\<close>; what gossipsub delivers is any message published, or, from outside,
    any other one.
  \<^item> \<open>Pallet\<close> and \<open>Runtime\<close>: both builds of the pallet, with the contract \<open>validated_streams_pallet\<close> that both meet,
    and the runtime API of Validated Streams. \<open>Onchain_Pipeline\<close>: from the handler to the pallet, with on-chain
    proofs. \<open>Runtime_Apis\<close>: how the runtime executes blocks; the locales \<open>runtime_pallet\<close>, interpreted as \<open>rt_on\<close>
    on the pallet with on-chain proofs, and \<open>trusting_pallet\<close>, which extends it, as \<open>rt_off\<close> on the other one.
    \<open>Runtime_Config\<close>: the parameters of the pallets, and the other APIs of the runtime, which call FRAME.
    \<open>Pallet_Mock\<close>, \<open>Pallet_Tests\<close> and \<open>Pallet_Benchmarking\<close>: \<open>mock.rs\<close>, \<open>tests.rs\<close> and \<open>benchmarking.rs\<close> of the pallet.
  \<^item> \<open>Service\<close>, \<open>Command\<close>, \<open>Rpc\<close>, \<open>Chain_Spec\<close>, \<open>Node_Benchmarking\<close>: \<open>service.rs\<close>, \<open>command.rs\<close> with \<open>cli.rs\<close>, \<open>rpc.rs\<close>,
    \<open>chain_spec.rs\<close>, \<open>benchmarking.rs\<close> with the pallet's \<open>weights.rs\<close>.
  \<^item> \<open>Tps_Benchmark\<close>, \<open>Tps_Controller\<close>: the benchmark client; its loop, and its control loop, reports, requests under
    way (the step relation \<open>sender_step\<close>) and \<open>main\<close>. \<open>F32\<close>: the \<open>f32\<close> it computes with, as rational numbers rounded
    to the nearest representable one, and reading an \<open>f32\<close> from text.
  \<^item> \<open>Irc_Text\<close>, \<open>Irc_Replier\<close>, \<open>Irc_Bot\<close>: the IRC client; what it uses of .NET for text, with the backtracking match
    of regular expressions; the repliers; the bot, and a channel of many clients as the step relation \<open>irc_step\<close>.
  \<^item> \<open>Repo_Tests\<close>: the tests of the consensus crate; the locale \<open>working_store\<close>, which extends \<open>event_proofs_trait\<close> by
    operations that succeed, interpreted as \<open>imw\<close>, \<open>ocw\<close> and \<open>rdw\<close> on the three stores; the handler of the gossip
    test, on which \<open>gossip_handler_trait\<close> is interpreted as \<open>mkh\<close>.
  \<^item> \<open>Instances\<close>: one instance of every parameter, with the proof that it meets the laws; the examples
    after the theorems run on them.

  What is shown. \<open>Store_Properties\<close>: the offchain store implements a map from events and keys to signatures,
  loses no concurrent addition, purges atomically, ends its loops, and agrees with the in-memory store.
  \<open>Consensus_Properties\<close>: the target is
  the least safe threshold; the cache is transparent; the handler submits an event if and only if a quorum
  signed it, and no message stops it; the gossip service loses and reorders nothing; the import accepts
  exactly the blocks whose events are witnessed; the streams deliver the events of the finalized blocks in
  order. \<open>Pallet_Properties\<close>: what \<open>validate_event\<close> accepts, and that an event on the chain is backed by a
  quorum, validated once and refused afterwards; the exact threshold, as the pallet's test has it.
  \<open>Runtime_Properties\<close>: which events executing a block validates, that the bounds of the runtime fit, and two
  ways around the checks, by \<open>pallet_sudo\<close> and by signed extrinsics. \<open>Irc_Properties\<close>: of the clients in a channel
  none replies twice and somebody replies, their slots are all different, commands are witnessed, and what
  a client misses when it reconnects. \<open>Network_Properties\<close>: events in imported blocks come from the clients of
  honest nodes, an event that enough nodes witness can always still reach the pool of every node, and nodes
  that have handled the same messages agree. \<open>Command\<close>: the commands that import blocks panic. \<open>Tps_Controller\<close>: how
  the control loop gets stuck, and that the requests finish. \<open>Repo_Tests\<close> and \<open>Pallet_Tests\<close>: the tests of the
  repository pass, and when one does not. The theorems below span components: two nodes never
  import conflicting events while at most a third of the authorities is faulty, the invariant of a running
  node, that a witnessed event is stored, that the extrinsic a node submits is one the pallet accepts, that events
  on the chain are witnessed, and that clients are streamed exactly the events that are valid on the chain.

  Parameters. Code outside the repository is an argument of the definitions: records of functions
  (\<open>bincode\<close>, \<open>sr25519\<close>, \<open>offchain_storage\<close>, \<open>rocksdb\<close>, \<open>lru_ops\<close>, \<open>client\<close>, \<open>tx_pool_ops\<close>, \<open>keystore\<close>, \<open>swarm_ops\<close>,
  \<open>libp2p_ops\<close>, \<open>block_import_ops\<close>, \<open>frame_system\<close>, \<open>frame_runtime\<close>, \<open>service_ops\<close>, \<open>command_ops\<close>, \<open>rpc_ops\<close>,
  \<open>frame_apis\<close>, \<open>frame_limits\<close>, \<open>key_derivation\<close>, \<open>test_keystore\<close>, \<open>test_system\<close>, \<open>bench_crypto\<close>, \<open>irc_lib\<close>, the retry policies), with the laws the
  theorems need as named predicates (\<open>bincode_laws\<close> and so on). Nothing is assumed of signatures beyond what
  a theorem states: that an honest key has not signed two conflicting events is a hypothesis about \<open>sr_verify\<close>.

  Bounds. Lengths are natural numbers, and \<open>as u16\<close> takes them modulo 65536: theorems on the target assume at
  most 98302 authorities, up to which it does not wrap, and those that compare a count with it fewer than
  65536; the pallet's bound is 32. The channel of the gossip has a buffer of 64 orders: the task that starts
  the service fills it before anybody takes orders, which is shown to end with up to 63 addresses; later
  a sender that waits for room is not distinguished from one whose order is not yet taken. Block numbers and counters have the width of the code. The
  compare-and-set loops are partial functions: \<open>None\<close> is a loop that does not end, and under a finite
  interference of other threads they are shown to end. The wait for finality is a recursion over the finality
  notifications of the future; the stream of validated events is taken to any finite length.

  Not modelled. The inside of libp2p and of the gRPC servers; logging, and of what the benchmark prints the
  words around the figures; items of the runtime's and the mock runtime's configuration that only name
  types; the insertion at the end of the on-chain benchmark, whose proofs have another type than the storage
  of the pallet; the rounding of the IRC client's waiting times; the test of the runtime's storage keys,
  which are hashes of names; the build scripts, the code that protobuf and Substrate macros generate, and
  the shell scripts.
\<close>

section \<open>Nodes\<close>


text \<open>
  The example: authority 4 signs both events and 1 to 3 only \<open>event_a\<close>.
\<close>

definition sign_a_mostly :: "bytes \<Rightarrow> bytes \<Rightarrow> bool" where
  "sign_a_mostly k m \<longleftrightarrow> m = as_bytes event_a \<or> k = key_of 4"


text \<open>
  C5. An imported block has only witnessed events. When a node that started well imports a block while
  it is not catching up, every event in the block has correct signatures of more than two thirds of the
  authorities of the parent block.
\<close>

theorem imported_block_witnessed:
  assumes "offchain_handler_ok os chain (ne_handler ne) \<lparr>gh_event_proofs = st, gh_tx_pool = pool, gh_block_state = bs\<rparr>"
    and "(node_step ne (view_of chain))\<^sup>*\<^sup>* (node_start ne vs net sw st pool bs parent sync) nd"
    and "view_of chain client" and "node_imports ne client nd block"
    and "e \<in> set (block_event_ids client block)"
    and "al = chain_authorities (he_from_id (ne_handler ne)) chain (bip_parent_hash block)"
    and "distinct (authorities al)" and "length (authorities al) \<le> 98302"
  shows "\<exists>S \<subseteq> set (authorities al). 2 * length (authorities al) < 3 * card S \<and>
    (\<forall>k \<in> S. \<exists>g. signed_by (he_sr25519 (ne_handler ne)) k e g)"
proof -
  have "node_ok os chain ne nd" by (rule node_steps_ok [OF assms(2) node_start_ok [OF assms(1)]])
  from node_imports_witnessed [OF this assms(3-8)]
  show ?thesis using assms(8) target_le_iff [of al] by (auto simp: authority_quorum_def mult.commute)
qed

definition started_node where
  "started_node e ks = node_start (ref_node_env (\<lambda>_ _. True) (key_of 1)) default_vs quiet_network ()
     (ref_store e ks) [] ref_block_state ([] :: h256 list) False"

lemma started_node_imports:
  "node_imports (ref_node_env (\<lambda>_ _. True) (key_of 1)) four_client
     (started_node event_a [key_of 1, key_of 2, key_of 4]) (ref_block (repeat_byte 1) [event_a])"
  by (rule three_proofs_imported)
    (simp_all add: started_node_def node_start_def block_import_new_def provide_sync_service_def run_service_def
      ref_handler_def Let_def)

lemma started_handler_ok:
  assumes "\<forall>k \<in> set ks. length k = 32"
  shows "offchain_handler_ok ref_storage four_chain (ne_handler (ref_node_env (\<lambda>_ _. True) (key_of 1)))
    \<lparr>gh_event_proofs = ref_store e ks, gh_tx_pool = [], gh_block_state = ref_block_state\<rparr>"
  using assms ref_handler_ok [of ks "\<lambda>_ _. True" e four_chain True] by (simp add: ref_node_env_def ref_handler_def)

theorem imported_block_witnessed_witness:
  "\<exists>S k g. 2 * length (authorities four_authorities) < 3 * card S \<and> k \<in> S \<and>
    signed_by (ref_sr25519 (\<lambda>_ _. True)) k event_a g"
proof -
  from imported_block_witnessed [OF started_handler_ok [of "[key_of 1, key_of 2, key_of 4]" event_a] rtranclp.rtrancl_refl, of four_client _ _ _ "[]" False
      "ref_block (repeat_byte 1) [event_a]" event_a four_authorities] started_node_imports
  have "\<exists>S \<subseteq> set (authorities four_authorities). 2 * length (authorities four_authorities) < 3 * card S \<and>
      (\<forall>k \<in> S. \<exists>g. signed_by (ref_sr25519 (\<lambda>_ _. True)) k event_a g)"
    by (simp add: started_node_def four_client_def ref_client_view four_authorities_facts ref_node_env_def)
  then obtain S where S: "2 * length (authorities four_authorities) < 3 * card S"
    "\<forall>k \<in> S. \<exists>g. signed_by (ref_sr25519 (\<lambda>_ _. True)) k event_a g"
    by blast
  then have "S \<noteq> {}" by auto
  with S show ?thesis by blast
qed

text \<open>
  C6. Events on the chain are witnessed. When a node that started well imports a block, while it is not
  catching up, and the runtime executes the block, every event that thereby becomes valid on the chain
  has correct signatures of more than two thirds of the authorities of the parent block, provided the
  block has no extrinsic of \<open>pallet_sudo\<close>.
\<close>

theorem executed_events_witnessed:
  assumes "offchain_handler_ok os chain (ne_handler ne) \<lparr>gh_event_proofs = st, gh_tx_pool = pool, gh_block_state = bs\<rparr>"
    and "(node_step ne (view_of chain))\<^sup>*\<^sup>* (node_start ne vs net sw st pool bs parent sync) nd"
    and "view_of chain client" and "node_imports ne client nd block"
    and "bip_body block = Some xs"
    and "cl_get_extrinsic_ids client (bip_parent_hash block) xs = Inr (get_extrinsic_ids xs)"
    and "executive_laws fr (validate_event_offchain fs) is_event_valid_offchain"
    and "list_all (\<lambda>x. \<not> is_sudo (ux_function x)) xs"
    and "execute_block fr header xs rt = Some rt'"
    and "\<not> is_event_valid_offchain (fr_pallet fr rt) e" and "is_event_valid_offchain (fr_pallet fr rt') e"
    and "al = chain_authorities (he_from_id (ne_handler ne)) chain (bip_parent_hash block)"
    and "distinct (authorities al)" and "length (authorities al) \<le> 98302"
  shows "\<exists>S \<subseteq> set (authorities al). 2 * length (authorities al) < 3 * card S \<and>
    (\<forall>k \<in> S. \<exists>g. signed_by (he_sr25519 (ne_handler ne)) k e g)"
proof -
  have "e \<in> set (get_extrinsic_ids xs)"
    using rt_off.execute_block_events [OF assms(7,9,8), of e] assms(10,11) by (simp add: stored_events_def)
  then have e: "e \<in> set (block_event_ids client block)" using assms(5,6) by (simp add: block_event_ids_def)
  have "node_ok os chain ne nd" by (rule node_steps_ok [OF assms(2) node_start_ok [OF assms(1)]])
  from node_imports_witnessed [OF this assms(3,4) e assms(12-14)]
  show ?thesis using assms(14) target_le_iff [of al] by (auto simp: authority_quorum_def mult.commute)
qed

lemma event_a_executed:
  "\<exists>rt'. execute_block ref_frame () [create_unsigned_extrinsic ref_try_into event_a None] ref_empty = Some rt' \<and>
    is_event_valid_offchain rt' event_a"
  by (simp add: execute_block_def ref_frame_def ref_apply_def ref_dispatch_def validate_unsigned_def
      validate_event_offchain_def is_event_valid_offchain_def ref_empty_def create_unsigned_extrinsic_def Let_def)

theorem executed_events_witnessed_witness:
  "\<exists>S k g. 2 * length (authorities four_authorities) < 3 * card S \<and> k \<in> S \<and>
    signed_by (ref_sr25519 (\<lambda>_ _. True)) k event_a g"
proof -
  let ?xs = "[create_unsigned_extrinsic ref_try_into event_a None] :: ref_extrinsic list"
  obtain rt' where rt': "execute_block ref_frame () ?xs ref_empty = Some rt'" "is_event_valid_offchain (fr_pallet ref_frame rt') event_a"
    using event_a_executed by (auto simp: ref_frame_def)
  have fresh: "\<not> is_event_valid_offchain (fr_pallet ref_frame ref_empty) event_a"
    by (simp add: ref_frame_def ref_empty_def is_event_valid_offchain_def)
  have plain: "list_all (\<lambda>x. \<not> is_sudo (ux_function x)) ?xs" by (simp add: create_unsigned_extrinsic_def Let_def)
  have body: "bip_body (ref_block (repeat_byte 1) [event_a]) = Some ?xs" by (simp add: ref_block_def)
  from executed_events_witnessed [OF started_handler_ok [of "[key_of 1, key_of 2, key_of 4]" event_a] rtranclp.rtrancl_refl _ _ body
      four_client_ids ref_frame_laws plain rt'(1) fresh rt'(2), of _ _ _ "[]" False four_authorities] started_node_imports
  have "\<exists>S \<subseteq> set (authorities four_authorities). 2 * length (authorities four_authorities) < 3 * card S \<and>
      (\<forall>k \<in> S. \<exists>g. signed_by (ref_sr25519 (\<lambda>_ _. True)) k event_a g)"
    by (simp add: started_node_def four_client_def ref_client_view four_authorities_facts ref_node_env_def)
  then obtain S where S: "2 * length (authorities four_authorities) < 3 * card S"
    "\<forall>k \<in> S. \<exists>g. signed_by (ref_sr25519 (\<lambda>_ _. True)) k event_a g"
    by blast
  then have "S \<noteq> {}" by auto
  with S show ?thesis by blast
qed

text \<open>
  C7. A running node stays sound. Whatever the node witnesses, receives, sends and imports, in every
  state it can reach from its start the gossip task is still running, the offchain storage is
  well-formed, every stored proof is a correct signature of its event, and every cached authority list
  is the one the chain has for that block.
\<close>

theorem node_invariant:
  assumes "offchain_handler_ok os chain (ne_handler ne) \<lparr>gh_event_proofs = st, gh_tx_pool = pool, gh_block_state = bs\<rparr>"
    and "(node_step ne (view_of chain))\<^sup>*\<^sup>* (node_start ne vs net sw st pool bs parent sync) nd"
  shows "ch_receiver (gs_channel (nd_service nd)) \<and>
    offchain_invar os (he_bincode (ne_handler ne)) (gh_event_proofs (gs_handler (nd_service nd))) \<and>
    all_signed (he_sr25519 (ne_handler ne)) (offchain_proof os (he_bincode (ne_handler ne)))
      (gh_event_proofs (gs_handler (nd_service nd))) \<and>
    cache_of (he_lru (ne_handler ne)) (he_from_id (ne_handler ne)) chain
      (gh_block_state (gs_handler (nd_service nd)))"
  using node_steps_ok [OF assms(2) node_start_ok [OF assms(1)]]
  by (simp add: node_ok_def live_def offchain_handler_ok_def handler_ok_def)

text \<open>
  The example: a node started with three proofs gets a malformed message.
\<close>

theorem node_invariant_witness:
  "\<exists>nd. (node_step (ref_node_env (\<lambda>_ _. True) (key_of 1)) (view_of four_chain))\<^sup>*\<^sup>*
      (started_node event_a [key_of 1, key_of 2, key_of 4]) nd \<and>
    all_signed (ref_sr25519 (\<lambda>_ _. True)) (offchain_proof ref_storage ref_bincode)
      (gh_event_proofs (gs_handler (nd_service nd)))"
proof -
  let ?ne = "ref_node_env (\<lambda>_ _. True) (key_of 1)" and ?nd = "started_node event_a [key_of 1, key_of 2, key_of 4]"
  have rc: "ch_receiver (gs_channel (nd_service ?nd))"
    by (simp add: started_node_def node_start_def Let_def run_service_def start_channel_orders)
  obtain nd where "node_step ?ne (view_of four_chain) ?nd nd"
    using node_step.Gossip [where ne = ?ne and seen = "view_of four_chain", OF _ gossip_step.Event [OF rc,
        where v = four_client and event = "GossipsubMessage [1, 2, 3]"]]
    by (simp add: four_client_def ref_client_view)
  then have reach: "(node_step ?ne (view_of four_chain))\<^sup>*\<^sup>* ?nd nd" by (rule r_into_rtranclp)
  have keys: "\<forall>k \<in> set [key_of 1, key_of 2, key_of 4]. length k = 32" by simp
  have "all_signed (he_sr25519 (ne_handler ?ne)) (offchain_proof ref_storage (he_bincode (ne_handler ?ne)))
      (gh_event_proofs (gs_handler (nd_service nd)))"
    using node_invariant [OF started_handler_ok [OF keys] reach [unfolded started_node_def]] by blast
  then have "all_signed (ref_sr25519 (\<lambda>_ _. True)) (offchain_proof ref_storage ref_bincode)
      (gh_event_proofs (gs_handler (nd_service nd)))"
    by (simp add: ref_node_env_def)
  with reach show ?thesis by blast
qed

text \<open>
  What a client gets for \<open>witness_event\<close>. When the gRPC call succeeds on a node whose channel is
  empty, then after the gossip service has taken its next order the node's own proof of the event, by
  one of the authorities of the last finalized block, is in its storage.
\<close>

theorem witnessed_event_stored:
  assumes "node_ok os chain ne nd" and "view_of chain client"
    and "keystore_laws (he_sr25519 (ne_handler ne)) (ne_keystore ne)"
    and "node_witness ne client nd (as_bytes e) = (Inr (), nd')"
    and "ch_orders (gs_channel (nd_service nd)) = []"
    and "gossip_step (ne_swarm ne) (gossip_handle (ne_handler ne)) (nd_service nd') (TookOrder client order) svc"
  shows "\<exists>k \<in> set (authorities (chain_authorities (he_from_id (ne_handler ne)) chain (finalized_hash (cl_info client)))).
    offchain_proof os (he_bincode (ne_handler ne)) (gh_event_proofs (gs_handler svc)) e k \<noteq> None"
  by (rule node_witness_stored [OF assms])

definition witnessing_node where
  "witnessing_node = node_witness (ref_node_env (\<lambda>_ _. True) (key_of 1)) four_client (ref_node event_b []) (as_bytes event_a)"

lemma witnessing_node_Ok:
  obtains m rest where "fst witnessing_node = Inr ()"
    and "ch_orders (gs_channel (nd_service (snd witnessing_node))) = [m]"
    and "ch_receiver (gs_channel (nd_service (snd witnessing_node)))"
proof (rule four_latest)
  fix bs
  assume "get_latest_authorities_list ref_lru ref_from_id ref_block_state four_client = (Inr four_authorities, bs)"
  moreover have "ks_supported_keys (ref_keystore (\<lambda>_ _. True) (key_of 1)) (authorities four_authorities) =
      Inr [ref_from_id (key_of 1)]"
    by (simp add: ref_keystore_def four_authorities_def)
  moreover have "ks_sign_with (ref_keystore (\<lambda>_ _. True) (key_of 1)) (ref_from_id (key_of 1)) (as_bytes event_a) =
      Inr (Some (key_of 1 @ as_bytes event_a))"
    by (simp add: ref_keystore_def)
  ultimately show ?thesis
    using that
    by (simp add: witnessing_node_def node_witness_def grpc_witness_event_def witness_event_def sign_event_def
        ref_node_env_def ref_node_def gossip_create_def publish_def send_order_def set_block_state_def Let_def
        ref_bincode_def and_then_def question_def)
qed

theorem witnessed_event_stored_witness:
  "\<exists>order svc. gossip_step ref_swarm (gossip_handle (ref_handler_env (\<lambda>_ _. True) True))
      (nd_service (snd witnessing_node)) (TookOrder four_client order) svc \<and>
    (\<exists>k \<in> set (authorities four_authorities).
      offchain_proof ref_storage ref_bincode (gh_event_proofs (gs_handler svc)) event_a k \<noteq> None)"
proof (rule witnessing_node_Ok)
  fix m
  let ?ne = "ref_node_env (\<lambda>_ _. True) (key_of 1)"
  assume m: "fst witnessing_node = Inr ()" "ch_orders (gs_channel (nd_service (snd witnessing_node))) = [m]"
    "ch_receiver (gs_channel (nd_service (snd witnessing_node)))"
  have run: "node_witness ?ne four_client (ref_node event_b []) (as_bytes event_a) = (Inr (), snd witnessing_node)"
    using m(1) by (simp add: witnessing_node_def prod_eq_iff)
  have ok: "node_ok ref_storage four_chain ?ne (ref_node event_b [])" by (rule ref_node_ok) simp
  have view: "view_of four_chain four_client" by (simp add: four_client_def ref_client_view)
  have ks: "keystore_laws (he_sr25519 (ne_handler ?ne)) (ne_keystore ?ne)"
    by (simp add: ref_node_env_def ref_keystore_laws)
  have idle: "ch_orders (gs_channel (nd_service (ref_node event_b []))) = []"
    by (simp add: ref_node_def gossip_create_def)
  note step = gossip_step.Order [OF m(3,2), of ref_swarm "gossip_handle (ref_handler_env (\<lambda>_ _. True) True)" four_client]
  then have "gossip_step (ne_swarm ?ne) (gossip_handle (ne_handler ?ne)) (nd_service (snd witnessing_node))
      (TookOrder four_client m) (after_handling (nd_service (snd witnessing_node))
        ((gs_channel (nd_service (snd witnessing_node)))\<lparr>ch_orders := []\<rparr>)
        (handle_incoming_order ref_swarm (gossip_handle (ref_handler_env (\<lambda>_ _. True) True)) four_client
          (gs_swarm (nd_service (snd witnessing_node))) (gs_handler (nd_service (snd witnessing_node))) m))"
    by (simp add: ref_node_env_def)
  from witnessed_event_stored [OF ok view ks run idle this] step
  show ?thesis by (fastforce simp: ref_node_env_def four_authorities_facts)
qed

section \<open>From the gossip handler to the pallet\<close>

text \<open>
  C12. In the build with on-chain proofs, what the nodes submit the chain accepts. When the handler gets
  the proof that completes a quorum, it hands to the pool the runtime's extrinsic for the event with a
  map of proofs, none of which the runtime's bound has dropped, and the pallet, with the same
  authorities, validates the event with it and stores exactly these proofs, unless the event has been
  validated already.
\<close>

theorem onchain_pipeline:
  assumes ops: "he_proofs he = offchain_ops os bc" and on: "\<not> he_off_chain_proofs he"
    and iter: "hash_iter_laws (he_iter he)"
    and h: "handler_ok (he_sr25519 he) (offchain_proof os bc) (offchain_invar os bc) self"
    and al: "get_latest_authorities_list (he_lru he) (he_from_id he) (gh_block_state self) client = (Inr al, bs)"
    and w: "verify_witnessed_event_origin (he_sr25519 he) al w = Inr w"
    and same: "same_authorities (he_sr25519 he) from_id to_raw ids al"
    and t: "unat (target al) \<le> card {k \<in> set (authorities al).
      k = we_pub_key w \<or> offchain_proof os bc (gh_event_proofs self) (we_event_id w) k \<noteq> None}"
    and bound: "bounded_laws VS_MAX_AUTHORITIES try_into"
    and ext: "\<And>h e ps. cl_create_unsigned_extrinsic client h e ps = Inr (create_unsigned_extrinsic try_into e ps)"
  shows "\<exists>ps ext. gh_tx_pool (snd (handle_witnessed_event he client self w)) =
      snd (submit_local (he_pool he) (gh_tx_pool self) (best_hash (cl_info client)) ext) \<and>
    ux_function ext = ValidatedStreams (validate_event_call (we_event_id w) (Some ps)) \<and>
    (\<forall>pallet. fmlookup (on_streams pallet) (we_event_id w) = None \<longrightarrow>
      (\<exists>pallet'. validate_event_onchain fs (he_sr25519 he) to_raw ids pallet (we_event_id w) (Some ps) = (Inr (), pallet') \<and>
        fmlookup (on_streams pallet') (we_event_id w) = Some ps))"
proof -
  obtain ps where ps: "backed (he_sr25519 he) (map (\<lambda>i. Public (to_raw i)) ids) (we_event_id w) ps" "hm_len ps \<le> 32"
    and pool: "gh_tx_pool (snd (handle_witnessed_event he client self w)) = snd (submit_local (he_pool he)
      (gh_tx_pool self) (best_hash (cl_info client)) (create_unsigned_extrinsic try_into (we_event_id w) (Some ps)))"
    by (rule onchain_handle_submits [OF ops on iter h al w same t ext])
  note facts = same_authorities_facts [OF same]
  have "try_into ps = Some ps" using bound ps(2) by (simp add: bounded_laws_def VS_MAX_AUTHORITIES_def)
  then have "ux_function (create_unsigned_extrinsic try_into (we_event_id w) (Some ps)) =
      ValidatedStreams (validate_event_call (we_event_id w) (Some ps))"
    by (simp add: create_unsigned_extrinsic_def Let_def)
  then show ?thesis
    using pool ps(1) validate_event_onchain_Ok [of ids fs "he_sr25519 he" to_raw _ "we_event_id w" "Some ps"] facts(3,4)
    by (intro exI [of _ ps] exI [of _ "create_unsigned_extrinsic try_into (we_event_id w) (Some ps)"]) fastforce
qed

lemma four_same_authorities:
  "same_authorities (ref_sr25519 (\<lambda>_ _. True)) ref_from_id id (map key_of [1, 2, 3, 4]) four_authorities"
  by (simp add: same_authorities_def four_authorities_def ref_sr25519_def)

theorem onchain_pipeline_witness:
  "\<exists>ps pallet'. validate_event_onchain ref_system (ref_sr25519 (\<lambda>_ _. True)) id (map key_of [1, 2, 3, 4])
      empty_onchain event_a (Some ps) = (Inr (), pallet') \<and>
    gh_tx_pool (snd (handle_witnessed_event (ref_handler_env (\<lambda>_ _. True) False) four_client
      (ref_handler event_a [key_of 1, key_of 2]) (ref_witnessed event_a (key_of 3)))) \<noteq> []"
proof (rule third_witness_setting)
  let ?he = "ref_handler_env (\<lambda>_ _. True) False" and ?h = "ref_handler event_a [key_of 1, key_of 2]"
  let ?w = "ref_witnessed event_a (key_of 3)"
  fix bs
  assume al: "get_latest_authorities_list ref_lru ref_from_id ref_block_state four_client = (Inr four_authorities, bs)"
    and w: "verify_witnessed_event_origin (ref_sr25519 (\<lambda>_ _. True)) four_authorities ?w = Inr ?w"
  have iter: "hash_iter_laws (he_iter ?he)" by (simp add: ref_handler_env_def ref_iter_laws)
  have h: "handler_ok (he_sr25519 ?he) (offchain_proof ref_storage ref_bincode) (offchain_invar ref_storage ref_bincode) ?h"
    using ref_handler_ok [of "[key_of 1, key_of 2]" "\<lambda>_ _. True" event_a] by (simp add: offchain_handler_ok_def)
  have t: "unat (target four_authorities) \<le> card {k \<in> set (authorities four_authorities). k = we_pub_key ?w \<or>
      offchain_proof ref_storage ref_bincode (gh_event_proofs ?h) (we_event_id ?w) k \<noteq> None}"
    using third_witness_card by (simp add: four_authorities_facts)
  have ext: "cl_create_unsigned_extrinsic four_client h e ps = Inr (create_unsigned_extrinsic ref_try_into e ps)" for h e ps
    by (simp add: four_client_def ref_client_def)
  have on: "\<not> he_off_chain_proofs ?he" by simp
  obtain ps ext where pool: "gh_tx_pool (snd (handle_witnessed_event ?he four_client ?h ?w)) =
      snd (submit_local ref_pool [] (best_hash (cl_info four_client)) ext)"
    and acc: "\<And>pallet. fmlookup (on_streams pallet) event_a = None \<Longrightarrow> \<exists>pallet'. validate_event_onchain ref_system
      (ref_sr25519 (\<lambda>_ _. True)) id (map key_of [1, 2, 3, 4]) pallet event_a (Some ps) = (Inr (), pallet')"
    using onchain_pipeline [OF ref_handler_env_simps(1) on iter h _ _ _ t ref_try_into_laws ext,
      of bs ref_from_id id "map key_of [1, 2, 3, 4]" ref_system] al w four_same_authorities
    unfolding ref_handler_env_simps ref_handler_simps ref_witnessed_simps by metis
  have "fmlookup (on_streams empty_onchain) event_a = None" by (simp add: empty_onchain_def)
  from acc [OF this] obtain pallet' where "validate_event_onchain ref_system (ref_sr25519 (\<lambda>_ _. True)) id
      (map key_of [1, 2, 3, 4]) empty_onchain event_a (Some ps) = (Inr (), pallet')" ..
  with pool show ?thesis by (intro exI conjI) (simp_all add: ref_pool_def)
qed

section \<open>From the chain to the clients\<close>

text \<open>
  C9. What clients are streamed is what is valid on the chain. The runtime executes the blocks of a chain
  from a genesis without valid events, and a node in whose view these blocks, numbered from 1, are all
  finalized streams them from block 1 on. Then an event is in an item of the stream if and only if it is
  valid in the state of the last block, provided the blocks have no extrinsics of \<open>pallet_sudo\<close>.
\<close>

theorem streamed_events_complete:
  assumes "executive_laws fr (validate_event_offchain fs) is_event_valid_offchain"
    and "execute_chain fr blocks rt = Some rt'" and "\<forall>e. \<not> is_event_valid_offchain (fr_pallet fr rt) e"
    and "list_all (\<lambda>(header, xs). list_all (\<lambda>x. \<not> is_sudo (ux_function x)) xs) blocks"
    and "\<And>i. i < length blocks \<Longrightarrow>
      finalized_block_at client (finalized_hash (cl_info client)) (1 + of_nat i) = Some (hashes i) \<and>
      cl_block_body client (hashes i) = Inr (Some (snd (blocks ! i)))"
    and "\<And>h xs. cl_get_extrinsic_ids client h xs = Inr (get_extrinsic_ids xs)"
  shows "(\<exists>item. Inr item \<in> set (validated_events (get_finalized_block_events client ns) (get_latest_finalized_block client)
        \<lparr>from_block = 1, from_latest = l\<rparr> (length blocks)) \<and> as_bytes e \<in> set (vr_events item)) \<longleftrightarrow>
    is_event_valid_offchain (fr_pallet fr rt') e"
proof -
  have "get_finalized_block_events client ns (1 + of_nat i) = Some (Inr (get_extrinsic_ids (snd (blocks ! i))))"
    if "i < length blocks" for i
    using assms(5) [OF that] assms(6)
    by (auto simp: get_finalized_block_events_def wait_finalized.simps [of client] block_events_def Let_def)
  then have "validated_events (get_finalized_block_events client ns) (get_latest_finalized_block client)
      \<lparr>from_block = 1, from_latest = l\<rparr> (length blocks) =
    map (\<lambda>i. Inr \<lparr>next_block = 1 + of_nat i + 1, vr_events = map as_bytes (get_extrinsic_ids (snd (blocks ! i)))\<rparr>) [0..<length blocks]"
    by (simp add: validated_events_def stream_start_def stream_take_answers)
  then have "(\<exists>item. Inr item \<in> set (validated_events (get_finalized_block_events client ns) (get_latest_finalized_block client)
        \<lparr>from_block = 1, from_latest = l\<rparr> (length blocks)) \<and> as_bytes e \<in> set (vr_events item)) \<longleftrightarrow>
      (\<exists>i < length blocks. e \<in> set (get_extrinsic_ids (snd (blocks ! i))))"
    by (force simp: as_bytes_inject image_iff)
  also have "\<dots> \<longleftrightarrow> (\<exists>b \<in> set blocks. e \<in> set (get_extrinsic_ids (snd b)))"
    by (metis in_set_conv_nth)
  also have "\<dots> \<longleftrightarrow> is_event_valid_offchain (fr_pallet fr rt') e"
    using rt_off.execute_chain_valid [OF assms(1,2,4), of e] assms(3) by (simp add: stored_events_def)
  finally show ?thesis .
qed

definition two_blocks :: "(unit \<times> ref_extrinsic list) list" where
  "two_blocks = [((), [event_extrinsic None event_a]), ((), [event_extrinsic (Some (key_of 5)) event_b])]"

definition two_block_client :: "(bytes, ref_extrinsic) client" where
  "two_block_client = ref_client four_chain (\<lambda>h. if h = repeat_byte 1 then snd (two_blocks ! 0) else snd (two_blocks ! 1)) 2 2"

theorem streamed_events_complete_witness:
  "\<exists>rt' item. execute_chain ref_frame two_blocks ref_empty = Some rt' \<and> is_event_valid_offchain rt' event_b \<and>
    Inr item \<in> set (validated_events (get_finalized_block_events two_block_client []) (get_latest_finalized_block two_block_client)
      \<lparr>from_block = 1, from_latest = False\<rparr> 2) \<and> as_bytes event_b \<in> set (vr_events item)"
proof -
  obtain rt' where run: "execute_chain ref_frame two_blocks ref_empty = Some rt'" and b: "is_event_valid_offchain rt' event_b"
    by (simp add: two_blocks_def execute_block_def ref_frame_def ref_apply_def ref_dispatch_def validate_unsigned_def
        validate_event_offchain_def is_event_valid_offchain_def ref_empty_def Let_def)
  have fresh: "\<forall>e. \<not> is_event_valid_offchain (fr_pallet ref_frame ref_empty) e"
    by (simp add: ref_frame_def ref_empty_def is_event_valid_offchain_def)
  have plain: "list_all (\<lambda>(header, xs). list_all (\<lambda>x. \<not> is_sudo (ux_function x)) xs) two_blocks"
    by (simp add: two_blocks_def)
  have view: "finalized_block_at two_block_client (finalized_hash (cl_info two_block_client)) (1 + of_nat i) =
      Some (repeat_byte (1 + of_nat i)) \<and>
    cl_block_body two_block_client (repeat_byte (1 + of_nat i)) = Inr (Some (snd (two_blocks ! i)))"
    if "i < length two_blocks" for i
  proof -
    have "i = 0 \<or> i = 1" using that by (auto simp: two_blocks_def)
    then show ?thesis
      by (auto simp: two_block_client_def finalized_block_at_def ref_client_def word_le_nat_alt)
  qed
  have ids: "cl_get_extrinsic_ids two_block_client h xs = Inr (get_extrinsic_ids xs)" for h xs
    by (simp add: two_block_client_def ref_client_def)
  have "length two_blocks = 2" by (simp add: two_blocks_def)
  with streamed_events_complete [OF ref_frame_laws run fresh plain view ids, where ns = "[]" and l = False and e = event_b] run b
  show ?thesis by (auto simp: ref_frame_def)
qed

section \<open>Boot nodes\<close>

text \<open>
  The address under which a boot node is dialled: without a peer id its port is adjusted, as meant;
  with a final \<open>/p2p/X\<close>, which the code means to remove, the peer id stays and stands in front of the port.
\<close>

theorem boot_node_keeps_peer_id:
  "boot_node_address port (pre @ [Tcp p]) = pre @ [Tcp (adjust_port port p)] \<and>
   boot_node_address port (pre @ [Tcp p, P2p i]) = pre @ [P2p i, Tcp (adjust_port port p)]"
  by (simp add: boot_node_address_plain boot_node_address_p2p)

end
